(* ===== verification/Prelude.thy ===== *)
theory Prelude
  imports Main
begin

text \<open>
  Shared vocabulary of the development: the theorem collections that the component theories
  fill, the generic facts on row-major indices, 32-bit integers and list updates, and the two notions of
  execution used by every concurrent component: the interleaving step relation of a parent and
  its numbered children, and its executable form over an explicit schedule.
\<close>

named_theorems store_simps "reading a C matrix after a write"
named_theorems pc_simps "the loop and synchronisation steps of the workers and the parent"

section \<open>Row-major indices\<close>

lemma row_major_less:
  assumes "i < n" "j < (n::nat)"
  shows "i * n + j < n * n"
proof -
  have "i * n + j < i * n + n" using assms by simp
  also have "\<dots> = Suc i * n" by simp
  also have "\<dots> \<le> n * n" using assms by (intro mult_right_mono) auto
  finally show ?thesis .
qed

lemma row_major_inject:
  assumes "j < n" "j' < (n::nat)"
  shows "i * n + j = i' * n + j' \<longleftrightarrow> i = i' \<and> j = j'"
proof
  assume eq: "i * n + j = i' * n + j'"
  have "(i * n + j) div n = i" "(i' * n + j') div n = i'" using assms by auto
  moreover have "(i * n + j) mod n = j" "(i' * n + j') mod n = j'" using assms by auto
  ultimately show "i = i' \<and> j = j'" using eq by metis
qed simp

lemma upt_lessThan [simp]: "{0..<n} \<subseteq> {..<n::nat}"
  by auto

section \<open>32-bit integers\<close>

text \<open>The value of a C \<open>int\<close>: two's complement, wrapping around at 32 bits.\<close>

definition to_int32 :: "int \<Rightarrow> int" where
  "to_int32 v = (v + 2 ^ 31) mod 2 ^ 32 - 2 ^ 31"

lemma to_int32_id: "- (2 ^ 31) \<le> v \<Longrightarrow> v < 2 ^ 31 \<Longrightarrow> to_int32 v = v"
  by (simp add: to_int32_def mod_pos_pos_trivial)

lemma to_int32_range: "- (2 ^ 31) \<le> to_int32 v" "to_int32 v < 2 ^ 31"
  by (simp_all add: to_int32_def algebra_simps)

section \<open>Sums over the workers\<close>

text \<open>One summand pays for what is spent elsewhere, and the others do not grow.\<close>

lemma sum_one_pays:
  fixes f g :: "nat \<Rightarrow> nat"
  assumes c: "c < N" and pays: "g c + b < f c + a" and others: "\<And>c'. c' < N \<Longrightarrow> c' \<noteq> c \<Longrightarrow> g c' \<le> f c'"
  shows "b + (\<Sum>c<N. g c) < a + (\<Sum>c<N. f c)"
proof -
  have "(\<Sum>c\<in>{..<N} - {c}. g c) \<le> (\<Sum>c\<in>{..<N} - {c}. f c)"
    by (rule sum_mono) (use others in auto)
  with pays sum.remove[of "{..<N}" c f] sum.remove[of "{..<N}" c g] c show ?thesis by simp
qed

section \<open>Interleaved execution of a parent and its children\<close>

datatype actor = Parent | Child nat

fun actor_step :: "('s \<Rightarrow> 's option) \<Rightarrow> (nat \<Rightarrow> 's \<Rightarrow> 's option) \<Rightarrow> nat \<Rightarrow> actor \<Rightarrow> 's \<Rightarrow> 's option" where
  "actor_step par chi N Parent s = par s"
| "actor_step par chi N (Child c) s = (if c < N then chi c s else None)"

text \<open>One step of the system: the parent or one of the \<open>N\<close> children moves.\<close>

inductive sys_step :: "('s \<Rightarrow> 's option) \<Rightarrow> (nat \<Rightarrow> 's \<Rightarrow> 's option) \<Rightarrow> nat \<Rightarrow> 's \<Rightarrow> 's \<Rightarrow> bool"
  for par chi N where
  par: "par s = Some t \<Longrightarrow> sys_step par chi N s t"
| chi: "c < N \<Longrightarrow> chi c s = Some t \<Longrightarrow> sys_step par chi N s t"

inductive_cases sys_stepE: "sys_step par chi N s t"

text \<open>A schedule names the actor of every step; a step of a blocked or finished actor fails.\<close>

fun run_sched :: "('s \<Rightarrow> 's option) \<Rightarrow> (nat \<Rightarrow> 's \<Rightarrow> 's option) \<Rightarrow> nat \<Rightarrow> actor list \<Rightarrow> 's \<Rightarrow> 's option" where
  "run_sched par chi N [] s = Some s"
| "run_sched par chi N (a # as) s =
     (case actor_step par chi N a s of None \<Rightarrow> None | Some t \<Rightarrow> run_sched par chi N as t)"

lemma actor_step_sys_step: "actor_step par chi N a s = Some t \<Longrightarrow> sys_step par chi N s t"
  by (cases a) (auto intro: sys_step.intros split: if_splits)

lemma sys_step_actor_step:
  assumes "sys_step par chi N s t"
  obtains a where "actor_step par chi N a s = Some t"
  using assms
proof cases
  case par
  then show ?thesis using that[of Parent] by simp
next
  case (chi c)
  then show ?thesis using that[of "Child c"] by simp
qed

lemma run_sched_append:
  "run_sched par chi N (as @ bs) s =
     (case run_sched par chi N as s of None \<Rightarrow> None | Some t \<Rightarrow> run_sched par chi N bs t)"
  by (induction as arbitrary: s) (auto split: option.splits)

lemma run_sched_reach:
  "run_sched par chi N as s = Some t \<Longrightarrow> (sys_step par chi N)\<^sup>*\<^sup>* s t"
proof (induction as arbitrary: s)
  case (Cons a as)
  then show ?case
    by (auto split: option.splits intro: converse_rtranclp_into_rtranclp actor_step_sys_step)
qed simp

lemma reach_run_sched:
  assumes "(sys_step par chi N)\<^sup>*\<^sup>* s t"
  shows "\<exists>as. run_sched par chi N as s = Some t"
  using assms
proof (induction rule: converse_rtranclp_induct)
  case base
  have "run_sched par chi N [] t = Some t" by simp
  then show ?case by blast
next
  case (step s u)
  then obtain as where as: "run_sched par chi N as u = Some t" by blast
  from step obtain a where "actor_step par chi N a s = Some u"
    by (blast elim: sys_step_actor_step)
  with as have "run_sched par chi N (a # as) s = Some t" by simp
  then show ?case by blast
qed

text \<open>A scheduler that blocks the parent more often has runs of the system only.\<close>

lemma run_sched_restrict:
  assumes "\<And>s t. par' s = Some t \<Longrightarrow> par s = Some t"
  shows "run_sched par' chi N as s = Some t \<Longrightarrow> run_sched par chi N as s = Some t"
proof (induction as arbitrary: s)
  case (Cons a as)
  then obtain u where u: "actor_step par' chi N a s = Some u" "run_sched par' chi N as u = Some t"
    by (auto split: option.splits)
  then have "actor_step par chi N a s = Some u" using assms by (cases a) auto
  with Cons.IH[OF u(2)] show ?case by simp
qed simp

text \<open>An invariant of every step holds in every reachable state.\<close>

lemma reach_invariant:
  assumes "(sys_step par chi N)\<^sup>*\<^sup>* s t" and "I s"
    and par: "\<And>s t. I s \<Longrightarrow> par s = Some t \<Longrightarrow> I t"
    and chi: "\<And>s t c. I s \<Longrightarrow> c < N \<Longrightarrow> chi c s = Some t \<Longrightarrow> I t"
  shows "I t"
  using assms(1,2) by (induction rule: rtranclp_induct) (auto elim: sys_stepE intro: par chi)

text \<open>
  A measure that every step from an invariant state decreases bounds the length of every run;
  with a step enabled in every unfinished state, every maximal run ends finished.
\<close>

lemma run_length_bound:
  assumes "run_sched par chi N as s = Some t" and "I s"
    and inv: "\<And>s t. I s \<Longrightarrow> sys_step par chi N s t \<Longrightarrow> I t"
    and dec: "\<And>s t. I s \<Longrightarrow> sys_step par chi N s t \<Longrightarrow> (m t :: nat) < m s"
  shows "length as + m t \<le> m s"
  using assms(1,2)
proof (induction as arbitrary: s)
  case (Cons a as)
  then obtain u where u: "actor_step par chi N a s = Some u" "run_sched par chi N as u = Some t"
    by (auto split: option.splits)
  then have st: "sys_step par chi N s u" by (blast intro: actor_step_sys_step)
  with Cons have "length as + m t \<le> m u" using u inv by blast
  moreover have "m u < m s" using dec Cons.prems(2) st by blast
  ultimately show ?case by simp
qed simp

lemma finishing_run_exists:
  assumes "I s"
    and inv: "\<And>s t. I s \<Longrightarrow> sys_step par chi N s t \<Longrightarrow> I t"
    and dec: "\<And>s t. I s \<Longrightarrow> sys_step par chi N s t \<Longrightarrow> (m t :: nat) < m s"
    and prog: "\<And>s. I s \<Longrightarrow> \<not> fin s \<Longrightarrow> \<exists>t. sys_step par chi N s t"
  shows "\<exists>as t. run_sched par chi N as s = Some t \<and> fin t"
  using assms(1)
proof (induction "m s" arbitrary: s rule: less_induct)
  case less
  show ?case
  proof (cases "fin s")
    case True
    have "run_sched par chi N [] s = Some s" by simp
    with True show ?thesis by blast
  next
    case False
    with prog less.prems obtain u where u: "sys_step par chi N s u" by blast
    with less dec inv obtain as t where as: "run_sched par chi N as u = Some t" "fin t" by blast
    from u obtain a where "actor_step par chi N a s = Some u" by (blast elim: sys_step_actor_step)
    with as have "run_sched par chi N (a # as) s = Some t" by simp
    with as show ?thesis by blast
  qed
qed

text \<open>Together: no run is longer than the measure of its start, and every run can be finished.\<close>

lemma complete_runs:
  assumes "I s\<^sub>0"
    and inv: "\<And>s t. I s \<Longrightarrow> sys_step par chi N s t \<Longrightarrow> I t"
    and dec: "\<And>s t. I s \<Longrightarrow> sys_step par chi N s t \<Longrightarrow> (m t :: nat) < m s"
    and prog: "\<And>s. I s \<Longrightarrow> \<not> fin s \<Longrightarrow> \<exists>t. sys_step par chi N s t"
    and run: "run_sched par chi N begun s\<^sub>0 = Some s"
  shows "length begun \<le> m s\<^sub>0 \<and> (\<exists>rest t. run_sched par chi N (begun @ rest) s\<^sub>0 = Some t \<and> fin t)"
proof -
  have "length begun + m s \<le> m s\<^sub>0"
    by (rule run_length_bound[where I = I]) (use run assms(1) inv dec in blast)+
  moreover have "I s"
    using run_sched_reach[OF run] assms(1) by (induction rule: rtranclp_induct) (use inv in blast)+
  have "\<exists>rest t. run_sched par chi N rest s = Some t \<and> fin t"
    by (rule finishing_run_exists[where I = I and m = m]) (use \<open>I s\<close> inv dec prog in blast)+
  ultimately show ?thesis using run by (auto simp: run_sched_append)
qed

end
