(* ===== verification/Closure.thy ===== *)
theory Closure
  imports Prelude
begin

text \<open>
  The specification of the first assignment: the edge relation of the input graph and the
  rounds of Warshall's recurrence, whose last round is the transitive closure.
\<close>

definition closure_round :: "nat \<Rightarrow> (nat \<times> nat) set \<Rightarrow> (nat \<times> nat) set" where
  "closure_round k R = R \<union> {(i, j). (i, k) \<in> R \<and> (k, j) \<in> R}"

fun closure_rounds :: "nat \<Rightarrow> (nat \<times> nat) set \<Rightarrow> (nat \<times> nat) set" where
  "closure_rounds 0 R = R"
| "closure_rounds (Suc k) R = closure_round k (closure_rounds k R)"

lemma closure_round_mono: "R \<subseteq> closure_round k R"
  by (auto simp: closure_round_def)

lemma closure_round_iff:
  "(i, j) \<in> closure_round k R \<longleftrightarrow> (i, j) \<in> R \<or> (i, k) \<in> R \<and> (k, j) \<in> R"
  by (auto simp: closure_round_def)

text \<open>Row \<open>k\<close> and column \<open>k\<close> do not change in round \<open>k\<close>.\<close>

lemma closure_round_pivot [simp]:
  "(i, k) \<in> closure_round k R \<longleftrightarrow> (i, k) \<in> R"
  "(k, j) \<in> closure_round k R \<longleftrightarrow> (k, j) \<in> R"
  by (auto simp: closure_round_def)

lemma closure_rounds_mono: "R \<subseteq> closure_rounds k R"
  by (induction k) (auto simp: closure_round_def)

lemma closure_rounds_trancl: "closure_rounds k R \<subseteq> R\<^sup>+"
proof (induction k)
  case (Suc k)
  show ?case
  proof (rule subrelI)
    fix x y
    assume "(x, y) \<in> closure_rounds (Suc k) R"
    with Suc have "(x, y) \<in> R\<^sup>+ \<or> (x, k) \<in> R\<^sup>+ \<and> (k, y) \<in> R\<^sup>+"
      by (auto simp: closure_round_iff)
    then show "(x, y) \<in> R\<^sup>+" by (blast intro: trancl_trans)
  qed
qed auto

lemma closure_rounds_square:
  "R \<subseteq> A \<times> B \<Longrightarrow> closure_rounds k R \<subseteq> A \<times> B"
  by (induction k) (auto simp: closure_round_def)

text \<open>After \<open>k\<close> rounds the relation is transitive through every vertex below \<open>k\<close>.\<close>

lemma closure_rounds_through:
  "z < k \<Longrightarrow> (x, z) \<in> closure_rounds k R \<Longrightarrow> (z, y) \<in> closure_rounds k R
    \<Longrightarrow> (x, y) \<in> closure_rounds k R"
proof (induction k arbitrary: x y z)
  case (Suc k)
  show ?case
  proof (cases "z = k")
    case True
    with Suc.prems show ?thesis by (simp add: closure_round_iff)
  next
    case False
    with Suc.prems(1) have "z < k" by simp
    from Suc.prems(2,3)
    have "(x, z) \<in> closure_rounds k R \<or> (x, k) \<in> closure_rounds k R \<and> (k, z) \<in> closure_rounds k R"
      and "(z, y) \<in> closure_rounds k R \<or> (z, k) \<in> closure_rounds k R \<and> (k, y) \<in> closure_rounds k R"
      by (simp_all add: closure_round_iff)
    with Suc.IH[OF \<open>z < k\<close>]
    have "(x, y) \<in> closure_rounds k R
        \<or> (x, k) \<in> closure_rounds k R \<and> (k, y) \<in> closure_rounds k R"
      by blast
    then show ?thesis by (simp add: closure_round_iff)
  qed
qed simp

theorem closure_rounds_correct:
  assumes "R \<subseteq> {..<n} \<times> {..<n}"
  shows "closure_rounds n R = R\<^sup>+"
proof
  show "closure_rounds n R \<subseteq> R\<^sup>+" by (rule closure_rounds_trancl)
  have "trans (closure_rounds n R)"
  proof (rule transI)
    fix x y z
    assume xy: "(x, y) \<in> closure_rounds n R" and yz: "(y, z) \<in> closure_rounds n R"
    have "y < n" using closure_rounds_square[OF assms, of n] xy by auto
    with xy yz show "(x, z) \<in> closure_rounds n R" by (blast intro: closure_rounds_through)
  qed
  then show "R\<^sup>+ \<subseteq> closure_rounds n R"
    using trancl_mono_subset[OF closure_rounds_mono[of R n]] by (simp add: trancl_id)
qed

end
