(* ===== verification/CString.thy ===== *)
theory CString
  imports Prelude
begin

text \<open>
  The part of the C library that the programs use on character arrays: decimal output
  (\<open>%d\<close>, \<open>%lu\<close>), \<open>atoi\<close> and the number conversion of \<open>fscanf\<close>, \<open>strchr\<close>, and \<open>strtok\<close>
  with its hidden static pointer. A C string is the list of its bytes before the terminating
  NUL; a buffer is a list that may hold a NUL anywhere. Characters are bytes.
\<close>

section \<open>Characters\<close>

definition is_space :: "char \<Rightarrow> bool" where
  "is_space c \<longleftrightarrow> c = CHR '' '' \<or> (9 \<le> (of_char c :: nat) \<and> (of_char c :: nat) \<le> 13)"

definition is_digit :: "char \<Rightarrow> bool" where
  "is_digit c \<longleftrightarrow> 48 \<le> (of_char c :: nat) \<and> (of_char c :: nat) \<le> 57"

definition digit_value :: "char \<Rightarrow> nat" where
  "digit_value c = of_char c - 48"

definition digit_char :: "nat \<Rightarrow> char" where
  "digit_char d = char_of (48 + d)"

lemma digit_char [simp]:
  assumes "d < 10"
  shows "is_digit (digit_char d)" "digit_value (digit_char d) = d"
  using assms by (simp_all add: digit_char_def is_digit_def digit_value_def)

lemma is_digit_not_space: "is_digit c \<Longrightarrow> \<not> is_space c"
  by (auto simp: is_digit_def is_space_def)

text \<open>The bytes of a buffer up to its first NUL, which is what the string functions see.\<close>

definition c_string :: "string \<Rightarrow> string" where
  "c_string buf = takeWhile (\<lambda>c. c \<noteq> CHR 0x00) buf"

lemma c_string_append_NUL [simp]:
  "CHR 0x00 \<notin> set s \<Longrightarrow> c_string (s @ CHR 0x00 # buf) = s"
  by (auto simp: c_string_def takeWhile_tail)

lemma c_string_id [simp]: "CHR 0x00 \<notin> set s \<Longrightarrow> c_string s = s"
  by (induction s) (auto simp: c_string_def)

lemma c_string_no_NUL: "CHR 0x00 \<notin> set (c_string buf)"
  by (auto simp: c_string_def dest: set_takeWhileD)

section \<open>Decimal output\<close>

fun render_nat :: "nat \<Rightarrow> string" where
  "render_nat n =
     (if n < 10 then [digit_char n] else render_nat (n div 10) @ [digit_char (n mod 10)])"

declare render_nat.simps [simp del]

definition render_int :: "int \<Rightarrow> string" where
  "render_int i = (if i < 0 then CHR ''-'' # render_nat (nat (- i)) else render_nat (nat i))"

lemma render_nat_digits: "c \<in> set (render_nat n) \<Longrightarrow> is_digit c"
proof (induction n rule: render_nat.induct)
  case (1 n)
  then show ?case by (cases "n < 10") (auto simp: render_nat.simps[of n])
qed

lemma render_nat_nonempty [simp]: "render_nat n \<noteq> []"
  by (simp add: render_nat.simps[of n])

lemma render_int_nonempty [simp]: "render_int i \<noteq> []"
  by (simp add: render_int_def)

lemma render_int_chars: "c \<in> set (render_int i) \<Longrightarrow> is_digit c \<or> c = CHR ''-''"
  by (auto simp: render_int_def dest: render_nat_digits split: if_splits)

text \<open>No decimal number holds a blank, a comma or a NUL.\<close>

lemma render_nat_plain [simp]:
  "CHR '' '' \<notin> set (render_nat n)" "CHR '','' \<notin> set (render_nat n)"
  "CHR 0x00 \<notin> set (render_nat n)"
  using render_nat_digits[of _ n] by (force simp: is_digit_def)+

lemma render_int_plain [simp]:
  "CHR '' '' \<notin> set (render_int i)" "CHR '','' \<notin> set (render_int i)"
  "CHR 0x00 \<notin> set (render_int i)"
  by (simp_all add: render_int_def)

text \<open>The number of characters written, which decides whether a buffer is large enough.\<close>

lemma length_render_nat_le: "0 < k \<Longrightarrow> length (render_nat n) \<le> k \<longleftrightarrow> n < 10 ^ k"
proof (induction n arbitrary: k rule: render_nat.induct)
  case (1 n)
  show ?case
  proof (cases "n < 10")
    case True
    have "(10::nat) \<le> 10 ^ k" using 1(2) by (cases k) auto
    with True 1(2) show ?thesis by (simp add: render_nat.simps[of n])
  next
    case False
    then have split: "length (render_nat n) = Suc (length (render_nat (n div 10)))"
      by (simp add: render_nat.simps[of n])
    show ?thesis
    proof (cases "k = 1")
      case True
      have "0 < length (render_nat (n div 10))" by simp
      then show ?thesis unfolding split True using False by auto
    next
      case False': False
      with 1(2) obtain k' where k': "k = Suc k'" "0 < k'" by (cases k) auto
      have "length (render_nat (n div 10)) \<le> k' \<longleftrightarrow> n div 10 < 10 ^ k'"
        by (rule 1(1)[OF False k'(2)])
      also have "\<dots> \<longleftrightarrow> n < 10 ^ k" by (auto simp: k'(1) div_less_iff_less_mult mult.commute)
      finally show ?thesis by (simp add: split k'(1))
    qed
  qed
qed

lemma length_render_int32:
  assumes "- (2 ^ 31) \<le> i" "i < 2 ^ 31"
  shows "length (render_int i) \<le> 11"
proof -
  have "length (render_nat (nat \<bar>i\<bar>)) \<le> 10"
    using assms by (subst length_render_nat_le) auto
  then show ?thesis by (auto simp: render_int_def split: if_splits)
qed

section \<open>Number input\<close>

text \<open>The value of the leading digits, and what follows them.\<close>

fun scan_digits :: "nat \<Rightarrow> string \<Rightarrow> nat \<times> string" where
  "scan_digits acc [] = (acc, [])"
| "scan_digits acc (c # cs) =
     (if is_digit c then scan_digits (10 * acc + digit_value c) cs else (acc, c # cs))"

fun skip_spaces :: "string \<Rightarrow> string" where
  "skip_spaces [] = []"
| "skip_spaces (c # cs) = (if is_space c then skip_spaces cs else c # cs)"

text \<open>An optional sign and the digits after it; \<open>None\<close> when there is no digit.\<close>

definition scan_number :: "string \<Rightarrow> (int \<times> string) option" where
  "scan_number s =
     (let (neg, t) = (case s of c # cs \<Rightarrow>
            if c = CHR ''-'' then (True, cs) else if c = CHR ''+'' then (False, cs) else (False, s)
          | [] \<Rightarrow> (False, []))
      in case t of
           c # cs \<Rightarrow> if is_digit c
             then (let (v, rest) = scan_digits 0 t in Some (if neg then - int v else int v, rest))
             else None
         | [] \<Rightarrow> None)"

text \<open>
  \<open>atoi\<close> is \<open>(int) strtol(s, NULL, 10)\<close>: the value is clamped to a 64-bit \<open>long\<close> and
  then truncated to a 32-bit \<open>int\<close>; text without a number gives \<open>0\<close>.
\<close>

definition clamp_long :: "int \<Rightarrow> int" where
  "clamp_long v = max (- (2 ^ 63)) (min (2 ^ 63 - 1) v)"

definition atoi :: "string \<Rightarrow> int" where
  "atoi s = (case scan_number (skip_spaces s) of
     None \<Rightarrow> 0 | Some (v, _) \<Rightarrow> to_int32 (clamp_long v))"

lemma clamp_long_id: "- (2 ^ 63) \<le> v \<Longrightarrow> v < 2 ^ 63 \<Longrightarrow> clamp_long v = v"
  by (simp add: clamp_long_def)

lemma scan_digits_append:
  assumes "\<And>c. c \<in> set ds \<Longrightarrow> is_digit c" and "rest = [] \<or> \<not> is_digit (hd rest)"
  shows "scan_digits acc (ds @ rest) = (fst (scan_digits acc ds), rest)"
  using assms(1)
proof (induction ds arbitrary: acc)
  case Nil
  with assms(2) show ?case by (cases rest) auto
qed simp

lemma scan_digits_snoc:
  assumes "\<And>c. c \<in> set ds \<Longrightarrow> is_digit c" and "is_digit d"
  shows "fst (scan_digits acc (ds @ [d])) = 10 * fst (scan_digits acc ds) + digit_value d"
  using assms by (induction ds arbitrary: acc) auto

lemma scan_digits_render [simp]: "fst (scan_digits 0 (render_nat n)) = n"
proof (induction n rule: render_nat.induct)
  case (1 n)
  show ?case
  proof (cases "n < 10")
    case True
    then show ?thesis by (simp add: render_nat.simps[of n])
  next
    case False
    then have r: "render_nat n = render_nat (n div 10) @ [digit_char (n mod 10)]"
      by (subst render_nat.simps) simp
    have "fst (scan_digits 0 (render_nat n))
        = 10 * fst (scan_digits 0 (render_nat (n div 10))) + n mod 10"
      by (simp add: r scan_digits_snoc[OF render_nat_digits])
    with 1 False show ?thesis by simp
  qed
qed

lemma hd_render_nat: "is_digit (hd (render_nat n))"
  by (rule render_nat_digits[of _ n]) simp

lemma scan_number_render:
  assumes "rest = [] \<or> \<not> is_digit (hd rest)"
  shows "scan_number (render_int i @ rest) = Some (i, rest)"
proof -
  have sign: "hd (render_nat n) \<noteq> CHR ''-''" "hd (render_nat n) \<noteq> CHR ''+''" for n
    using hd_render_nat[of n] by (auto simp: is_digit_def)
  obtain c cs where n: "render_nat (nat \<bar>i\<bar>) = c # cs" by (cases "render_nat (nat \<bar>i\<bar>)") auto
  have c: "is_digit c" "c \<noteq> CHR ''-''" "c \<noteq> CHR ''+''"
    using hd_render_nat[of "nat \<bar>i\<bar>"] sign[of "nat \<bar>i\<bar>"] n by auto
  have "scan_digits 0 (render_nat (nat \<bar>i\<bar>) @ rest) = (nat \<bar>i\<bar>, rest)"
    by (subst scan_digits_append[OF render_nat_digits assms]) auto
  then have "scan_digits 0 (c # cs @ rest) = (nat \<bar>i\<bar>, rest)" by (simp only: n append.simps)
  with c n show ?thesis
    by (auto simp del: scan_digits.simps simp: scan_number_def render_int_def Let_def)
qed

lemma skip_spaces_render [simp]: "skip_spaces (render_int i @ rest) = render_int i @ rest"
proof -
  obtain c cs where r: "render_int i = c # cs" by (cases "render_int i") auto
  have "\<not> is_space c"
    using render_int_chars[of c i] r is_digit_not_space by (auto simp: is_space_def)
  with r show ?thesis by simp
qed

text \<open>What was printed with \<open>%d\<close> is read back, whatever follows the number.\<close>

lemma atoi_render:
  assumes "- (2 ^ 31) \<le> i" "i < 2 ^ 31" and "rest = [] \<or> \<not> is_digit (hd rest)"
  shows "atoi (render_int i @ rest) = i"
proof -
  have "clamp_long i = i" using assms by (intro clamp_long_id) auto
  with assms show ?thesis by (simp add: atoi_def scan_number_render to_int32_id)
qed

lemmas atoi_render_int [simp] = atoi_render[where rest = "[]", simplified]

section \<open>Unsigned numbers in base 0\<close>

definition base_digit :: "nat \<Rightarrow> char \<Rightarrow> nat option" where
  "base_digit b c =
     (let n = of_char c :: nat;
          d = (if is_digit c then Some (n - 48)
               else if 97 \<le> n \<and> n \<le> 102 then Some (n - 87)
               else if 65 \<le> n \<and> n \<le> 70 then Some (n - 55) else None)
      in case d of Some v \<Rightarrow> if v < b then Some v else None | None \<Rightarrow> None)"

fun scan_base :: "nat \<Rightarrow> nat \<Rightarrow> string \<Rightarrow> nat" where
  "scan_base b acc [] = acc"
| "scan_base b acc (c # cs) = (case base_digit b c of Some v \<Rightarrow> scan_base b (b * acc + v) cs | None \<Rightarrow> acc)"

text \<open>\<open>strtoull(s, NULL, 0)\<close>: the prefix chooses the base, and the result is clamped to 64 bits.\<close>

definition prefixed_number :: "string \<Rightarrow> nat" where
  "prefixed_number u = (case u of
      z # x # d # ds \<Rightarrow>
        if z = CHR ''0'' \<and> (x = CHR ''x'' \<or> x = CHR ''X'') \<and> base_digit 16 d \<noteq> None
        then scan_base 16 0 (d # ds)
        else scan_base (if z = CHR ''0'' then 8 else 10) 0 u
    | z # ds \<Rightarrow> scan_base (if z = CHR ''0'' then 8 else 10) 0 u
    | [] \<Rightarrow> 0)"

definition strtoull :: "string \<Rightarrow> nat" where
  "strtoull s =
     (let t = skip_spaces s;
          (neg, u) = (case t of c # cs \<Rightarrow>
              if c = CHR ''-'' then (True, cs) else if c = CHR ''+'' then (False, cs) else (False, t)
            | [] \<Rightarrow> (False, []));
          n = prefixed_number u
      in if 2 ^ 64 \<le> n then 2 ^ 64 - 1 else if neg then (2 ^ 64 - n) mod 2 ^ 64 else n)"

lemma scan_base_10: "(\<And>c. c \<in> set ds \<Longrightarrow> is_digit c) \<Longrightarrow> scan_base 10 acc ds = fst (scan_digits acc ds)"
proof (induction ds arbitrary: acc)
  case (Cons c ds)
  then have "is_digit c" by simp
  moreover from this have "of_char c - 48 < (10::nat)" by (auto simp: is_digit_def)
  ultimately have "base_digit 10 c = Some (digit_value c)"
    by (simp add: base_digit_def digit_value_def Let_def)
  moreover have "is_digit c" using Cons.prems by simp
  ultimately show ?case using Cons by simp
qed simp

lemma render_nat_hd_zero: "0 < n \<Longrightarrow> hd (render_nat n) \<noteq> CHR ''0''"
proof (induction n rule: render_nat.induct)
  case (1 n)
  show ?case
  proof (cases "n < 10")
    case True
    have "digit_char n \<noteq> CHR ''0''"
    proof
      assume "digit_char n = CHR ''0''"
      then have "digit_value (digit_char n) = 0" by (simp only:) (simp add: digit_value_def)
      with True 1(2) show False by simp
    qed
    with True show ?thesis by (simp add: render_nat.simps[of n])
  next
    case False
    then have "hd (render_nat n) = hd (render_nat (n div 10))" by (simp add: render_nat.simps[of n] hd_append)
    with 1 False show ?thesis by simp
  qed
qed

lemma strtoull_render:
  assumes "n < 2 ^ 64"
  shows "strtoull (render_nat n) = n"
proof (cases "n = 0")
  case True
  have "render_nat 0 = ''0''" by code_simp
  moreover have "prefixed_number ''0'' = 0" by code_simp
  ultimately show ?thesis using True by (simp add: strtoull_def is_space_def)
next
  case False
  obtain c cs where r: "render_nat n = c # cs" by (cases "render_nat n") auto
  have c: "is_digit c" using render_nat_digits[of c n] r by simp
  have c0: "c \<noteq> CHR ''0''" using render_nat_hd_zero[of n] False r by simp
  have sign: "c \<noteq> CHR ''-''" "c \<noteq> CHR ''+''" using c by (auto simp: is_digit_def)
  have "skip_spaces (c # cs) = c # cs" using is_digit_not_space[OF c] by simp
  moreover have "scan_base 10 0 (c # cs) = n"
    using scan_base_10[of "render_nat n" 0] render_nat_digits[of _ n] by (simp add: r[symmetric])
  moreover have "prefixed_number (c # cs) = scan_base 10 0 (c # cs)"
    using c0 by (cases cs; cases "tl cs") (simp_all add: prefixed_number_def del: scan_base.simps)
  ultimately show ?thesis
    using assms sign by (simp add: r strtoull_def del: scan_base.simps)
qed

section \<open>Tokens\<close>

text \<open>
  \<open>strtok(s, " ,")\<close>: the next token, \<open>None\<close> for the null pointer, and the rest that the hidden
  static pointer refers to afterwards; \<open>strtok(NULL, " ,")\<close> is the same function on that rest.
\<close>

definition delim :: "char \<Rightarrow> bool" where
  "delim c \<longleftrightarrow> c = CHR '' '' \<or> c = CHR '',''"

definition strtok :: "string \<Rightarrow> string option \<times> string" where
  "strtok s =
     (let t = dropWhile delim s in
      if t = [] then (None, [])
      else (Some (takeWhile (\<lambda>c. \<not> delim c) t), drop 1 (dropWhile (\<lambda>c. \<not> delim c) t)))"

text \<open>The text behind the first comma, \<open>strchr(s, ',') + 1\<close>; \<open>None\<close> when there is no comma.\<close>

fun after_comma :: "string \<Rightarrow> string option" where
  "after_comma [] = None"
| "after_comma (c # cs) = (if c = CHR '','' then Some cs else after_comma cs)"

text \<open>A word is what one call of \<open>strtok\<close> can return.\<close>

definition word_of :: "string \<Rightarrow> bool" where
  "word_of t \<longleftrightarrow> t \<noteq> [] \<and> (\<forall>c \<in> set t. \<not> delim c \<and> c \<noteq> CHR 0x00)"

lemma delims [simp]: "delim CHR '' ''" "delim CHR '',''"
  by (simp_all add: delim_def)

lemma strtok_Nil [simp]: "strtok [] = (None, [])"
  by (simp add: strtok_def)

lemma strtok_delim [simp]: "delim d \<Longrightarrow> strtok (d # s) = strtok s"
  by (simp add: strtok_def)

lemma word_of_no_delim:
  assumes "word_of t"
  shows "takeWhile (\<lambda>c. \<not> delim c) (t @ s) = t @ takeWhile (\<lambda>c. \<not> delim c) s"
    and "dropWhile (\<lambda>c. \<not> delim c) (t @ s) = dropWhile (\<lambda>c. \<not> delim c) s"
    and "dropWhile delim (t @ s) = t @ s"
proof -
  have t: "t \<noteq> []" "\<And>c. c \<in> set t \<Longrightarrow> \<not> delim c" using assms by (auto simp: word_of_def)
  show "takeWhile (\<lambda>c. \<not> delim c) (t @ s) = t @ takeWhile (\<lambda>c. \<not> delim c) s"
    "dropWhile (\<lambda>c. \<not> delim c) (t @ s) = dropWhile (\<lambda>c. \<not> delim c) s"
    using t(2) by (simp_all add: takeWhile_append2 dropWhile_append2)
  show "dropWhile delim (t @ s) = t @ s" using t by (cases t) auto
qed

lemma strtok_word:
  assumes "word_of t"
  shows "strtok t = (Some t, [])" "delim d \<Longrightarrow> strtok (t @ d # s) = (Some t, s)"
proof -
  have t: "t \<noteq> []" using assms by (simp add: word_of_def)
  show "strtok t = (Some t, [])"
    using t by (simp add: strtok_def word_of_no_delim[OF assms, of "[]", simplified append_Nil2])
  show "strtok (t @ d # s) = (Some t, s)" if "delim d"
    using t that by (simp add: strtok_def word_of_no_delim[OF assms])
qed

lemma word_of_render_nat [simp]: "word_of (render_nat n)"
  using render_nat_digits[of _ n] by (force simp: word_of_def delim_def is_digit_def)

lemma word_of_render_int [simp]: "word_of (render_int i)"
  using render_int_chars[of _ i] by (force simp: word_of_def delim_def is_digit_def)

lemma after_comma_skip: "CHR '','' \<notin> set s \<Longrightarrow> after_comma (s @ t) = after_comma t"
  by (induction s) auto

lemma word_of_no_comma: "word_of t \<Longrightarrow> CHR '','' \<notin> set t"
  by (auto simp: word_of_def delim_def)

end
