(* ===== verification/CMatrix.thy ===== *)
theory CMatrix
  imports Closure CString
begin

text \<open>
  The two layouts the transitive-closure programs give an adjacency matrix, an array of row
  pointers (\<open>int**\<close>) and a row-major array in shared memory (\<open>int*\<close>), behind one interface;
  the update of one cell that all four programs perform; and the printing routines of \<open>wtc.c\<close>.
\<close>

section \<open>The interface of a matrix\<close>

locale cmatrix =
  fixes get :: "nat \<Rightarrow> 'm \<Rightarrow> nat \<Rightarrow> nat \<Rightarrow> int"
    and put :: "nat \<Rightarrow> 'm \<Rightarrow> nat \<Rightarrow> nat \<Rightarrow> int \<Rightarrow> 'm"
    and shape :: "nat \<Rightarrow> 'm \<Rightarrow> bool"
  assumes shape_put: "shape n M \<Longrightarrow> i < n \<Longrightarrow> j < n \<Longrightarrow> shape n (put n M i j v)"
    and get_put: "shape n M \<Longrightarrow> i < n \<Longrightarrow> j < n \<Longrightarrow> i' < n \<Longrightarrow> j' < n \<Longrightarrow>
      get n (put n M i j v) i' j' = (if i' = i \<and> j' = j then v else get n M i' j')"

text \<open>The edge relation a matrix stores, and the matrices with entries \<open>0\<close> and \<open>1\<close> only.\<close>

definition edges :: "(nat \<Rightarrow> 'm \<Rightarrow> nat \<Rightarrow> nat \<Rightarrow> int) \<Rightarrow> nat \<Rightarrow> 'm \<Rightarrow> (nat \<times> nat) set" where
  "edges get n M = {(i, j). i < n \<and> j < n \<and> get n M i j = 1}"

definition binary :: "(nat \<Rightarrow> 'm \<Rightarrow> nat \<Rightarrow> nat \<Rightarrow> int) \<Rightarrow> nat \<Rightarrow> 'm \<Rightarrow> bool" where
  "binary get n M \<longleftrightarrow> (\<forall>i<n. \<forall>j<n. get n M i j = 0 \<or> get n M i j = 1)"

lemma edges_iff [simp]: "(i, j) \<in> edges get n M \<longleftrightarrow> i < n \<and> j < n \<and> get n M i j = 1"
  by (simp add: edges_def)

lemma edges_square: "edges get n M \<subseteq> {..<n} \<times> {..<n}"
  by (auto simp: edges_def)

lemma binaryD: "binary get n M \<Longrightarrow> i < n \<Longrightarrow> j < n \<Longrightarrow> get n M i j = 0 \<or> get n M i j = 1"
  by (auto simp: binary_def)

context cmatrix begin

lemma edges_put_1:
  "shape n M \<Longrightarrow> i < n \<Longrightarrow> j < n \<Longrightarrow> edges get n (put n M i j 1) = insert (i, j) (edges get n M)"
  by (auto simp: edges_def get_put)

lemma binary_put:
  "shape n M \<Longrightarrow> i < n \<Longrightarrow> j < n \<Longrightarrow> binary get n M \<Longrightarrow> v = 0 \<or> v = 1 \<Longrightarrow> binary get n (put n M i j v)"
  by (auto simp: binary_def get_put)

end

section \<open>Arrays of rows\<close>

definition rows_get :: "nat \<Rightarrow> int list list \<Rightarrow> nat \<Rightarrow> nat \<Rightarrow> int" where
  "rows_get n M i j = M ! i ! j"

definition rows_put :: "nat \<Rightarrow> int list list \<Rightarrow> nat \<Rightarrow> nat \<Rightarrow> int \<Rightarrow> int list list" where
  "rows_put n M i j v = M[i := (M ! i)[j := v]]"

definition rows_wf :: "nat \<Rightarrow> int list list \<Rightarrow> bool" where
  "rows_wf n M \<longleftrightarrow> length M = n \<and> (\<forall>r \<in> set M. length r = n)"

interpretation rows: cmatrix rows_get rows_put rows_wf
proof
  fix n i j v and M :: "int list list"
  assume shape: "rows_wf n M" and ij: "i < n" "j < n"
  then show "rows_wf n (rows_put n M i j v)"
    by (auto simp: rows_wf_def rows_put_def dest!: set_update_subset_insert[THEN subsetD])
  show "rows_get n (rows_put n M i j v) i' j' = (if i' = i \<and> j' = j then v else rows_get n M i' j')"
    if "i' < n" "j' < n" for i' j'
    using shape ij that by (auto simp: rows_wf_def rows_get_def rows_put_def nth_list_update)
qed

section \<open>Row-major shared memory\<close>

text \<open>
  The file behind a mapping has \<open>size2*2\<close> bytes, twice what the matrix needs, so the array has
  at least \<open>n * n\<close> cells.
\<close>

definition flat_get :: "nat \<Rightarrow> int list \<Rightarrow> nat \<Rightarrow> nat \<Rightarrow> int" where
  "flat_get n M i j = M ! (i * n + j)"

definition flat_put :: "nat \<Rightarrow> int list \<Rightarrow> nat \<Rightarrow> nat \<Rightarrow> int \<Rightarrow> int list" where
  "flat_put n M i j v = M[i * n + j := v]"

definition flat_wf :: "nat \<Rightarrow> int list \<Rightarrow> bool" where
  "flat_wf n M \<longleftrightarrow> n * n \<le> length M"

interpretation flat: cmatrix flat_get flat_put flat_wf
proof
  fix n i j v and M :: "int list"
  assume shape: "flat_wf n M" and ij: "i < n" "j < n"
  then show "flat_wf n (flat_put n M i j v)"
    by (simp add: flat_wf_def flat_put_def)
  show "flat_get n (flat_put n M i j v) i' j' = (if i' = i \<and> j' = j then v else flat_get n M i' j')"
    if "i' < n" "j' < n" for i' j'
    using shape ij that row_major_less[OF ij]
    by (auto simp: flat_wf_def flat_get_def flat_put_def nth_list_update row_major_inject)
qed

section \<open>One cell of a round\<close>

text \<open>
  The condition and the assignment in the innermost loop of every worker, over the interface:
  cell \<open>(i, j)\<close> of the next matrix is set when the previous one has the edge or a path through \<open>k\<close>.
\<close>

definition merge_cell ::
  "(nat \<Rightarrow> 'm \<Rightarrow> nat \<Rightarrow> nat \<Rightarrow> int) \<Rightarrow> (nat \<Rightarrow> 'm \<Rightarrow> nat \<Rightarrow> nat \<Rightarrow> int \<Rightarrow> 'm) \<Rightarrow> nat \<Rightarrow> 'm \<Rightarrow> 'm \<Rightarrow> nat \<Rightarrow> nat \<Rightarrow> nat \<Rightarrow> 'm" where
  "merge_cell get put n P C k i j =
     (if (get n P k j = 1 \<and> get n P i k \<noteq> 0) \<or> get n P i j = 1 then put n C i j 1 else C)"

context cmatrix begin

lemma shape_merge_cell: "shape n C \<Longrightarrow> i < n \<Longrightarrow> j < n \<Longrightarrow> shape n (merge_cell get put n P C k i j)"
  by (simp add: merge_cell_def shape_put)

lemma binary_merge_cell:
  "shape n C \<Longrightarrow> i < n \<Longrightarrow> j < n \<Longrightarrow> binary get n C \<Longrightarrow> binary get n (merge_cell get put n P C k i j)"
  by (simp add: merge_cell_def binary_put)

lemma merge_cell_edges:
  assumes "shape n C" "i < n" "j < n" "k < n" "binary get n P"
  shows "edges get n (merge_cell get put n P C k i j) =
    edges get n C \<union> ({(i, j)} \<inter> closure_round k (edges get n P))"
proof -
  have "get n P i k \<noteq> 0 \<longleftrightarrow> get n P i k = 1"
    using binaryD[OF assms(5) assms(2,4)] by auto
  then have "((get n P k j = 1 \<and> get n P i k \<noteq> 0) \<or> get n P i j = 1)
      \<longleftrightarrow> (i, j) \<in> closure_round k (edges get n P)"
    using assms by (auto simp: closure_round_iff)
  then show ?thesis
    using assms edges_put_1[OF assms(1-3)] by (simp add: merge_cell_def)
qed

lemma merge_cell_other:
  "shape n C \<Longrightarrow> i < n \<Longrightarrow> j < n \<Longrightarrow> i' < n \<Longrightarrow> j' < n \<Longrightarrow> (i', j') \<noteq> (i, j) \<Longrightarrow>
    get n (merge_cell get put n P C k i j) i' j' = get n C i' j'"
  by (auto simp: merge_cell_def get_put)

end

section \<open>Printing\<close>

definition newline :: char where
  "newline = CHR 0x0A"

fun for_concat :: "nat \<Rightarrow> (nat \<Rightarrow> string) \<Rightarrow> string" where
  "for_concat 0 f = []"
| "for_concat (Suc n) f = for_concat n f @ f n"

definition printMatrix :: "int list list \<Rightarrow> nat \<Rightarrow> string" where
  "printMatrix M n =
     '' '' @ for_concat n (\<lambda>i. for_concat n (\<lambda>j. render_int (M ! i ! j) @ '' '') @ [newline] @ '' '')
       @ [newline]"

definition printArrayMatrix :: "int list \<Rightarrow> nat \<Rightarrow> string" where
  "printArrayMatrix M n =
     '' '' @ for_concat n (\<lambda>i. for_concat n (\<lambda>j. render_int (M ! (i * n + j)) @ '' '') @ [newline] @ '' '')
       @ [newline]"

text \<open>The text that stands for a relation on the vertices below \<open>n\<close>.\<close>

definition render_relation :: "nat \<Rightarrow> (nat \<times> nat) set \<Rightarrow> string" where
  "render_relation n R =
     '' '' @ for_concat n (\<lambda>i. for_concat n (\<lambda>j. if (i, j) \<in> R then ''1 '' else ''0 '') @ [newline] @ '' '')
       @ [newline]"

lemma for_concat_cong: "(\<And>i. i < n \<Longrightarrow> f i = g i) \<Longrightarrow> for_concat n f = for_concat n g"
  by (induction n) auto

lemma render_bit: "render_int 1 = ''1''" "render_int 0 = ''0''"
  by code_simp+

lemma printMatrix_relation:
  assumes "binary rows_get n M"
  shows "printMatrix M n = render_relation n (edges rows_get n M)"
proof -
  have "render_int (M ! i ! j) @ '' '' = (if (i, j) \<in> edges rows_get n M then ''1 '' else ''0 '')"
    if "i < n" "j < n" for i j
    using binaryD[OF assms that] that by (auto simp: rows_get_def render_bit)
  then show ?thesis
    unfolding printMatrix_def render_relation_def by (auto intro!: for_concat_cong)
qed

lemma printArrayMatrix_relation:
  assumes "binary flat_get n M"
  shows "printArrayMatrix M n = render_relation n (edges flat_get n M)"
proof -
  have "render_int (M ! (i * n + j)) @ '' '' = (if (i, j) \<in> edges flat_get n M then ''1 '' else ''0 '')"
    if "i < n" "j < n" for i j
    using binaryD[OF assms that] that by (auto simp: flat_get_def render_bit)
  then show ?thesis
    unfolding printArrayMatrix_def render_relation_def by (auto intro!: for_concat_cong)
qed

end
