(* ===== verification/Gates.thy ===== *)
theory Gates
  imports Prelude
begin

text \<open>
  The synchronisation primitives of the parallel programs, POSIX semaphores and mutexes, and
  the one discipline in which all of them use the pair of arrays \<open>p2c\<close> and \<open>c2p\<close>: a gate that
  is shut until one side posts it, and that the other side shuts again by passing. The
  handshake predicate says how the two gates of a worker and its control state agree with the
  progress of the parent.
\<close>

section \<open>Semaphores and mutexes\<close>

definition sem_post :: "nat \<Rightarrow> nat" where
  "sem_post v = Suc v"

definition sem_wait :: "nat \<Rightarrow> nat option" where
  "sem_wait v = (if 0 < v then Some (v - 1) else None)"

text \<open>A mutex is \<open>True\<close> while it is locked; \<open>None\<close> is a caller that has to wait.\<close>

definition mutex_lock :: "bool \<Rightarrow> bool option" where
  "mutex_lock locked = (if locked then None else Some True)"

definition mutex_unlock :: "bool \<Rightarrow> bool" where
  "mutex_unlock locked = False"

locale gate =
  fixes shut :: 'g
    and post :: "'g \<Rightarrow> 'g"
    and pass :: "'g \<Rightarrow> 'g option"
  assumes pass_shut: "pass shut = None"
    and pass_post: "pass (post shut) = Some shut"
begin

lemma post_shut_neq: "post shut \<noteq> shut"
  using pass_shut pass_post by force

end

interpretation sem: gate 0 sem_post sem_wait
  by unfold_locales (simp_all add: sem_wait_def sem_post_def)

interpretation mutex: gate True mutex_unlock mutex_lock
  by unfold_locales (simp_all add: mutex_lock_def mutex_unlock_def)

section \<open>The handshake of one worker with the parent\<close>

text \<open>
  \<open>Unspawned\<close>: the parent has not created the worker. \<open>Quiet r\<close>: the parent has not released it
  for round \<open>r\<close>. \<open>Live r\<close>: released for round \<open>r\<close>, its report not yet collected.
\<close>

datatype phase = Unspawned | Quiet nat | Live nat

definition handshake ::
  "'g \<Rightarrow> ('g \<Rightarrow> 'g) \<Rightarrow> phase \<Rightarrow> bool \<Rightarrow> (nat \<Rightarrow> bool) \<Rightarrow> (nat \<Rightarrow> bool) \<Rightarrow> 'g \<Rightarrow> 'g \<Rightarrow> bool" where
  "handshake shut post ph fresh idle busy down up =
     (case ph of
        Unspawned \<Rightarrow> fresh \<and> down = shut \<and> up = shut
      | Quiet r \<Rightarrow> idle r \<and> down = shut \<and> up = shut
      | Live r \<Rightarrow> (idle r \<and> down = post shut \<and> up = shut)
          \<or> (busy r \<and> down = shut \<and> up = shut)
          \<or> (idle (Suc r) \<and> down = shut \<and> up = post shut))"

lemma handshake_simps [simp]:
  "handshake shut post Unspawned fresh idle busy down up \<longleftrightarrow> fresh \<and> down = shut \<and> up = shut"
  "handshake shut post (Quiet r) fresh idle busy down up \<longleftrightarrow> idle r \<and> down = shut \<and> up = shut"
  "handshake shut post (Live r) fresh idle busy down up \<longleftrightarrow>
     (idle r \<and> down = post shut \<and> up = shut) \<or> (busy r \<and> down = shut \<and> up = shut)
      \<or> (idle (Suc r) \<and> down = shut \<and> up = post shut)"
  by (simp_all add: handshake_def)

context gate begin

text \<open>Only a released idle worker passes its own gate, and only a reported one lets the parent pass.\<close>

lemma handshake_down:
  assumes "handshake shut post ph fresh idle busy down up" "pass down = Some g"
  shows "\<exists>r. ph = Live r \<and> idle r \<and> up = shut \<and> g = shut"
proof (cases ph)
  case (Live r)
  with assms have "idle r \<and> down = post shut \<and> up = shut"
    by (metis handshake_simps(3) option.distinct(1) pass_shut)
  with Live assms(2) show ?thesis by (simp add: pass_post)
next
  case Unspawned
  then have "down = shut" using assms(1) by simp
  with assms(2) show ?thesis by (simp add: pass_shut)
next
  case (Quiet r)
  then have "down = shut" using assms(1) by simp
  with assms(2) show ?thesis by (simp add: pass_shut)
qed

lemma handshake_up:
  assumes "handshake shut post (Live r) fresh idle busy down up" "pass up = Some g"
  shows "idle (Suc r) \<and> down = shut \<and> g = shut"
proof -
  have "up \<noteq> shut" using assms(2) pass_shut by auto
  with assms(1) have "idle (Suc r) \<and> down = shut \<and> up = post shut" by simp
  with assms(2) show ?thesis by (simp add: pass_post)
qed

text \<open>A worker whose report is missing is released and idle, or busy.\<close>

lemma handshake_pending:
  assumes "handshake shut post (Live r) fresh idle busy down up" "pass up = None"
  shows "(idle r \<and> pass down = Some shut) \<or> busy r"
proof -
  have "up \<noteq> post shut" using assms(2) pass_post by auto
  with assms(1) have "(idle r \<and> down = post shut) \<or> busy r" by (simp, blast)
  then show ?thesis by (auto simp: pass_post)
qed

end

end
