(* ===== verification/Striped.thy ===== *)
theory Striped
  imports CMatrix Gates
begin

text \<open>
  The protocol behind \<open>wtc_proc\<close> and \<open>wtc_thr\<close>: a parent and \<open>N\<close> workers that compute one
  round of the closure at a time, worker \<open>c\<close> owning the rows \<open>c, c + N, c + 2 N, ...\<close>. The
  machine is written over the interfaces of gates and matrices; the two programs are shown to
  be instances of it in their own theories. Every access to shared memory is a step of its own,
  so that the theorems cover all interleavings.
\<close>

section \<open>The machine\<close>

text \<open>
  The control state of the parent: spawning worker \<open>f\<close>, the head of the round loop, releasing
  worker \<open>k\<close>, waiting for worker \<open>k\<close>, copying row \<open>y\<close>, copying cell \<open>(y, z)\<close>, joining worker
  \<open>k\<close>, finished, and gone after \<open>exit(-1)\<close>.
\<close>

datatype ppc =
    PFork nat | PRound nat | PPost nat nat | PWait nat nat
  | PRow nat nat | PCell nat nat nat | PJoin nat | PEnd | PAbort

text \<open>
  The control state of a worker in round \<open>k\<close>: the loop head, the wait, the head of the loop over
  its rows, of the loop over the columns, the post, and after \<open>exit\<close>.
\<close>

datatype cpc =
    Unborn | ChK nat | ChWait nat | ChRow nat nat | ChCell nat nat nat | ChPost nat | ChExit

record ('g, 'm) team =
  parent :: ppc
  childs :: "nat \<Rightarrow> cpc"
  p2c :: "nat \<Rightarrow> 'g"
  c2p :: "nat \<Rightarrow> 'g"
  M_prev :: 'm
  M_curr :: 'm

definition goto :: "nat \<Rightarrow> cpc \<Rightarrow> ('g, 'm) team \<Rightarrow> ('g, 'm) team" where
  "goto c pc s = s\<lparr>childs := (childs s)(c := pc)\<rparr>"

lemma goto_sel [simp]:
  "parent (goto c pc s) = parent s" "childs (goto c pc s) = (childs s)(c := pc)"
  "p2c (goto c pc s) = p2c s" "c2p (goto c pc s) = c2p s"
  "M_prev (goto c pc s) = M_prev s" "M_curr (goto c pc s) = M_curr s"
  by (simp_all add: goto_def)

definition worker_step ::
  "('g \<Rightarrow> 'g) \<Rightarrow> ('g \<Rightarrow> 'g option) \<Rightarrow> (nat \<Rightarrow> 'm \<Rightarrow> nat \<Rightarrow> nat \<Rightarrow> int) \<Rightarrow>
    (nat \<Rightarrow> 'm \<Rightarrow> nat \<Rightarrow> nat \<Rightarrow> int \<Rightarrow> 'm) \<Rightarrow> nat \<Rightarrow> nat \<Rightarrow> nat \<Rightarrow>
    ('g, 'm) team \<Rightarrow> ('g, 'm) team option" where
  "worker_step post pass get put N n c s = (case childs s c of
     Unborn \<Rightarrow> None
   | ChK k \<Rightarrow> Some (goto c (if k < n then ChWait k else ChExit) s)
   | ChWait k \<Rightarrow> (case pass (p2c s c) of
        None \<Rightarrow> None
      | Some g \<Rightarrow> Some (goto c (ChRow k c) (s\<lparr>p2c := (p2c s)(c := g)\<rparr>)))
   | ChRow k i \<Rightarrow> Some (goto c (if i < n then ChCell k i 0 else ChPost k) s)
   | ChCell k i j \<Rightarrow>
        Some (if j < n
          then goto c (ChCell k i (Suc j)) (s\<lparr>M_curr := merge_cell get put n (M_prev s) (M_curr s) k i j\<rparr>)
          else goto c (ChRow k (i + N)) s)
   | ChPost k \<Rightarrow> Some (goto c (ChK (Suc k)) (s\<lparr>c2p := (c2p s)(c := post (c2p s c))\<rparr>))
   | ChExit \<Rightarrow> None)"

definition parent_step ::
  "(nat \<Rightarrow> bool) \<Rightarrow> bool \<Rightarrow> ('g \<Rightarrow> 'g) \<Rightarrow> ('g \<Rightarrow> 'g option) \<Rightarrow> (nat \<Rightarrow> 'm \<Rightarrow> nat \<Rightarrow> nat \<Rightarrow> int) \<Rightarrow>
    (nat \<Rightarrow> 'm \<Rightarrow> nat \<Rightarrow> nat \<Rightarrow> int \<Rightarrow> 'm) \<Rightarrow> nat \<Rightarrow> nat \<Rightarrow> ('g, 'm) team \<Rightarrow> ('g, 'm) team option" where
  "parent_step spawns joins post pass get put N n s = (case parent s of
     PFork f \<Rightarrow>
        Some (if f < N
          then (if spawns f then goto f (ChK 0) s else s)\<lparr>parent := PFork (Suc f)\<rparr>
          else s\<lparr>parent := PRound 0\<rparr>)
   | PRound m \<Rightarrow> Some (s\<lparr>parent := (if m < n then PPost m 0 else if joins then PJoin 0 else PEnd)\<rparr>)
   | PPost m k \<Rightarrow>
        Some (if k < N
          then s\<lparr>p2c := (p2c s)(k := post (p2c s k)), parent := PPost m (Suc k)\<rparr>
          else s\<lparr>parent := PWait m 0\<rparr>)
   | PWait m k \<Rightarrow>
        (if k < N
         then (case pass (c2p s k) of
            None \<Rightarrow> None
          | Some g \<Rightarrow> Some (s\<lparr>c2p := (c2p s)(k := g), parent := PWait m (Suc k)\<rparr>))
         else Some (s\<lparr>parent := PRow m 0\<rparr>))
   | PRow m y \<Rightarrow> Some (s\<lparr>parent := (if y < n then PCell m y 0 else PRound (Suc m))\<rparr>)
   | PCell m y z \<Rightarrow>
        Some (if z < n
          then s\<lparr>M_prev := put n (M_prev s) y z (get n (M_curr s) y z), parent := PCell m y (Suc z)\<rparr>
          else s\<lparr>parent := PRow m (Suc y)\<rparr>)
   | PJoin k \<Rightarrow>
        (if \<not> joins then None
         else if k < N
         then (if childs s k = ChExit then Some (s\<lparr>parent := PJoin (Suc k)\<rparr>) else None)
         else Some (s\<lparr>parent := PEnd\<rparr>))
   | PEnd \<Rightarrow> None
   | PAbort \<Rightarrow> None)"

definition team_init :: "'g \<Rightarrow> 'm \<Rightarrow> 'm \<Rightarrow> ('g, 'm) team" where
  "team_init shut P C =
     \<lparr>parent = PFork 0, childs = (\<lambda>_. Unborn), p2c = (\<lambda>_. shut), c2p = (\<lambda>_. shut),
      M_prev = P, M_curr = C\<rparr>"

section \<open>What the control states mean\<close>

definition parent_ok :: "bool \<Rightarrow> nat \<Rightarrow> nat \<Rightarrow> ppc \<Rightarrow> bool" where
  "parent_ok joins N n pc = (case pc of
     PFork f \<Rightarrow> f \<le> N
   | PRound m \<Rightarrow> m \<le> n
   | PPost m k \<Rightarrow> m < n \<and> k \<le> N
   | PWait m k \<Rightarrow> m < n \<and> k \<le> N
   | PRow m y \<Rightarrow> m < n \<and> y \<le> n
   | PCell m y z \<Rightarrow> m < n \<and> y < n \<and> z \<le> n
   | PJoin k \<Rightarrow> joins \<and> k \<le> N
   | PEnd \<Rightarrow> True
   | PAbort \<Rightarrow> False)"

definition phase_of :: "nat \<Rightarrow> ppc \<Rightarrow> nat \<Rightarrow> phase" where
  "phase_of n pc c = (case pc of
     PFork f \<Rightarrow> if c < f then Quiet 0 else Unspawned
   | PRound m \<Rightarrow> Quiet m
   | PPost m k \<Rightarrow> if c < k then Live m else Quiet m
   | PWait m k \<Rightarrow> if c < k then Quiet (Suc m) else Live m
   | PRow m y \<Rightarrow> Quiet (Suc m)
   | PCell m y z \<Rightarrow> Quiet (Suc m)
   | PJoin k \<Rightarrow> Quiet n
   | PEnd \<Rightarrow> Quiet n
   | PAbort \<Rightarrow> Unspawned)"

definition idle :: "nat \<Rightarrow> cpc \<Rightarrow> nat \<Rightarrow> bool" where
  "idle n pc r \<longleftrightarrow> pc = ChK r \<or> (r < n \<and> pc = ChWait r) \<or> (n \<le> r \<and> pc = ChExit)"

text \<open>A busy worker stays on its own rows: those congruent to its number.\<close>

definition busy :: "nat \<Rightarrow> nat \<Rightarrow> nat \<Rightarrow> cpc \<Rightarrow> nat \<Rightarrow> bool" where
  "busy N n c pc r \<longleftrightarrow> (case pc of
     ChRow k i \<Rightarrow> k = r \<and> i mod N = c
   | ChCell k i j \<Rightarrow> k = r \<and> i mod N = c \<and> i < n \<and> j \<le> n
   | ChPost k \<Rightarrow> k = r
   | _ \<Rightarrow> False)"

definition worker_ok :: "'g \<Rightarrow> ('g \<Rightarrow> 'g) \<Rightarrow> nat \<Rightarrow> nat \<Rightarrow> ('g, 'm) team \<Rightarrow> nat \<Rightarrow> bool" where
  "worker_ok shut post N n s c =
     handshake shut post (phase_of n (parent s) c) (childs s c = Unborn)
       (idle n (childs s c)) (busy N n c (childs s c)) (p2c s c) (c2p s c)"

definition protocol :: "'g \<Rightarrow> ('g \<Rightarrow> 'g) \<Rightarrow> bool \<Rightarrow> nat \<Rightarrow> nat \<Rightarrow> ('g, 'm) team \<Rightarrow> bool" where
  "protocol shut post joins N n s \<longleftrightarrow>
     parent_ok joins N n (parent s) \<and> (\<forall>c<N. worker_ok shut post N n s c)"

lemmas parent_ok_simps [simp] = parent_ok_def[of _ _ _ "PFork f" for f, simplified]
  parent_ok_def[of _ _ _ "PRound m" for m, simplified] parent_ok_def[of _ _ _ "PPost m k" for m k, simplified]
  parent_ok_def[of _ _ _ "PWait m k" for m k, simplified] parent_ok_def[of _ _ _ "PRow m y" for m y, simplified]
  parent_ok_def[of _ _ _ "PCell m y z" for m y z, simplified] parent_ok_def[of _ _ _ "PJoin k" for k, simplified]
  parent_ok_def[of _ _ _ PEnd, simplified] parent_ok_def[of _ _ _ PAbort, simplified]

lemmas phase_of_simps [simp] = phase_of_def[of _ "PFork f" for f, simplified]
  phase_of_def[of _ "PRound m" for m, simplified] phase_of_def[of _ "PPost m k" for m k, simplified]
  phase_of_def[of _ "PWait m k" for m k, simplified] phase_of_def[of _ "PRow m y" for m y, simplified]
  phase_of_def[of _ "PCell m y z" for m y z, simplified] phase_of_def[of _ "PJoin k" for k, simplified]
  phase_of_def[of _ PEnd, simplified] phase_of_def[of _ PAbort, simplified]

section \<open>What the matrices hold\<close>

text \<open>A worker has finished a cell of its rows in the current round when its loops have passed it.\<close>

definition pc_done :: "cpc \<Rightarrow> nat \<Rightarrow> nat \<Rightarrow> bool" where
  "pc_done pc i j \<longleftrightarrow> (case pc of
     ChRow k i' \<Rightarrow> i < i'
   | ChCell k i' j' \<Rightarrow> i < i' \<or> (i = i' \<and> j < j')
   | ChPost k \<Rightarrow> True
   | _ \<Rightarrow> False)"

definition cell_done :: "'g \<Rightarrow> nat \<Rightarrow> nat \<Rightarrow> ('g, 'm) team \<Rightarrow> nat \<Rightarrow> nat \<Rightarrow> nat \<Rightarrow> bool" where
  "cell_done shut n m s c i j \<longleftrightarrow> (case phase_of n (parent s) c of
     Live r \<Rightarrow> c2p s c \<noteq> shut \<or> pc_done (childs s c) i j
   | Quiet r \<Rightarrow> r = Suc m
   | Unspawned \<Rightarrow> False)"

text \<open>
  In round \<open>m\<close> the previous matrix holds the relation after \<open>m\<close> rounds of the recurrence; the
  current one is within the next relation and complete on the finished cells.
\<close>

definition computing ::
  "'g \<Rightarrow> (nat \<Rightarrow> 'm \<Rightarrow> nat \<Rightarrow> nat \<Rightarrow> int) \<Rightarrow> nat \<Rightarrow> nat \<Rightarrow> (nat \<times> nat) set \<Rightarrow> nat \<Rightarrow> ('g, 'm) team \<Rightarrow> bool" where
  "computing shut get N n R m s \<longleftrightarrow>
     edges get n (M_prev s) = closure_rounds m R \<and>
     edges get n (M_curr s) \<subseteq> closure_rounds (Suc m) R \<and>
     (\<forall>i j. (i, j) \<in> closure_rounds (Suc m) R \<longrightarrow> cell_done shut n m s (i mod N) i j
        \<longrightarrow> (i, j) \<in> edges get n (M_curr s))"

definition copied :: "(nat \<Rightarrow> 'm \<Rightarrow> nat \<Rightarrow> nat \<Rightarrow> int) \<Rightarrow> nat \<Rightarrow> ('g, 'm) team \<Rightarrow> nat \<Rightarrow> nat \<Rightarrow> bool" where
  "copied get n s y z \<longleftrightarrow> (\<forall>i<n. \<forall>j<n. i < y \<or> (i = y \<and> j < z) \<longrightarrow>
     get n (M_prev s) i j = get n (M_curr s) i j)"

definition content ::
  "'g \<Rightarrow> (nat \<Rightarrow> 'm \<Rightarrow> nat \<Rightarrow> nat \<Rightarrow> int) \<Rightarrow> nat \<Rightarrow> nat \<Rightarrow> (nat \<times> nat) set \<Rightarrow> ('g, 'm) team \<Rightarrow> bool" where
  "content shut get N n R s \<longleftrightarrow> (case parent s of
     PFork f \<Rightarrow> edges get n (M_prev s) = R \<and> edges get n (M_curr s) = {}
   | PRound m \<Rightarrow> edges get n (M_prev s) = closure_rounds m R
        \<and> edges get n (M_curr s) = (if m = 0 then {} else closure_rounds m R)
   | PPost m k \<Rightarrow> computing shut get N n R m s
   | PWait m k \<Rightarrow> computing shut get N n R m s
   | PRow m y \<Rightarrow> edges get n (M_curr s) = closure_rounds (Suc m) R \<and> copied get n s y 0
   | PCell m y z \<Rightarrow> edges get n (M_curr s) = closure_rounds (Suc m) R \<and> copied get n s y z
   | PJoin k \<Rightarrow> edges get n (M_prev s) = closure_rounds n R \<and> edges get n (M_curr s) = closure_rounds n R
   | PEnd \<Rightarrow> edges get n (M_prev s) = closure_rounds n R \<and> edges get n (M_curr s) = closure_rounds n R
   | PAbort \<Rightarrow> False)"

definition shaped :: "(nat \<Rightarrow> 'm \<Rightarrow> nat \<Rightarrow> nat \<Rightarrow> int) \<Rightarrow> (nat \<Rightarrow> 'm \<Rightarrow> bool) \<Rightarrow> nat \<Rightarrow> ('g, 'm) team \<Rightarrow> bool" where
  "shaped get shape n s \<longleftrightarrow> shape n (M_prev s) \<and> shape n (M_curr s) \<and>
     binary get n (M_prev s) \<and> binary get n (M_curr s)"

definition team_inv ::
  "'g \<Rightarrow> ('g \<Rightarrow> 'g) \<Rightarrow> (nat \<Rightarrow> 'm \<Rightarrow> nat \<Rightarrow> nat \<Rightarrow> int) \<Rightarrow> (nat \<Rightarrow> 'm \<Rightarrow> bool) \<Rightarrow> bool \<Rightarrow> nat \<Rightarrow> nat \<Rightarrow>
    (nat \<times> nat) set \<Rightarrow> ('g, 'm) team \<Rightarrow> bool" where
  "team_inv shut post get shape joins N n R s \<longleftrightarrow>
     protocol shut post joins N n s \<and> shaped get shape n s \<and> content shut get N n R s"

section \<open>How much work is left\<close>

text \<open>
  An upper bound on the number of steps each actor still takes; the weights leave room for the
  loop heads between the accesses.
\<close>

definition child_work :: "nat \<Rightarrow> cpc \<Rightarrow> nat" where
  "child_work n pc = (let B = n * (n + 3) + 10 in case pc of
     Unborn \<Rightarrow> Suc n * B
   | ChK k \<Rightarrow> (n - k) * B + n * (n + 3) + 6
   | ChWait k \<Rightarrow> (n - k) * B + n * (n + 3) + 5
   | ChRow k i \<Rightarrow> (n - k) * B + (n - i) * (n + 3) + 4
   | ChCell k i j \<Rightarrow> (n - k) * B + (n - Suc i) * (n + 3) + (n - j) + 5
   | ChPost k \<Rightarrow> (n - k) * B + 2
   | ChExit \<Rightarrow> 0)"

definition parent_work :: "nat \<Rightarrow> nat \<Rightarrow> ppc \<Rightarrow> nat" where
  "parent_work N n pc = (let D = 2 * N + n * (n + 3) + 10 in case pc of
     PFork f \<Rightarrow> Suc n * D + (N - f)
   | PRound m \<Rightarrow> (n - m) * D + 2 * N + n * (n + 3) + 9
   | PPost m k \<Rightarrow> (n - m) * D + (N - k) + N + n * (n + 3) + 8
   | PWait m k \<Rightarrow> (n - m) * D + (N - k) + n * (n + 3) + 7
   | PRow m y \<Rightarrow> (n - m) * D + (n - y) * (n + 3) + 5
   | PCell m y z \<Rightarrow> (n - m) * D + (n - Suc y) * (n + 3) + (n - z) + 6
   | PJoin k \<Rightarrow> (N - k) + 1
   | PEnd \<Rightarrow> 0
   | PAbort \<Rightarrow> 0)"

definition work_left :: "nat \<Rightarrow> nat \<Rightarrow> ('g, 'm) team \<Rightarrow> nat" where
  "work_left N n s = parent_work N n (parent s) + (\<Sum>c<N. child_work n (childs s c))"

end
