(* ===== verification/StripedProofs.thy ===== *)
theory StripedProofs
  imports Striped
begin

text \<open>
  The proofs about the striped machine, once for every kind of gate and every matrix layout:
  the protocol invariant, the functional correctness of the rounds, freedom from races and
  deadlock, and a measure that every step decreases.
\<close>

locale striped = gate shut post pass + cmatrix get put shape
  for shut :: 'g and post :: "'g \<Rightarrow> 'g" and pass :: "'g \<Rightarrow> 'g option"
    and get :: "nat \<Rightarrow> 'm \<Rightarrow> nat \<Rightarrow> nat \<Rightarrow> int" and put :: "nat \<Rightarrow> 'm \<Rightarrow> nat \<Rightarrow> nat \<Rightarrow> int \<Rightarrow> 'm"
    and shape :: "nat \<Rightarrow> 'm \<Rightarrow> bool"
begin

lemmas gate_simps = pass_shut pass_post post_shut_neq post_shut_neq[symmetric]

section \<open>The protocol\<close>

lemma protocol_init: "0 < N \<Longrightarrow> protocol shut post joins N n (team_init shut P C)"
  by (simp add: protocol_def team_init_def worker_ok_def)

lemma worker_frame:
  assumes "worker_step post pass get put N n c s = Some t" "c' \<noteq> c"
  shows "parent t = parent s" "childs t c' = childs s c'" "p2c t c' = p2c s c'" "c2p t c' = c2p s c'"
  using assms by (auto simp: worker_step_def split: cpc.splits option.splits if_splits)

lemma worker_step_ok:
  assumes ok: "worker_ok shut post N n s c" and "c < N"
    and step: "worker_step post pass get put N n c s = Some t"
  shows "worker_ok shut post N n t c"
proof -
  have parent: "parent t = parent s"
    using step by (auto simp: worker_step_def split: cpc.splits option.splits if_splits)
  show ?thesis
  proof (cases "childs s c")
    case (ChWait k)
    then obtain g where g: "pass (p2c s c) = Some g" "t = goto c (ChRow k c) (s\<lparr>p2c := (p2c s)(c := g)\<rparr>)"
      using step by (auto simp: worker_step_def split: option.splits)
    from handshake_down[OF ok[unfolded worker_ok_def] g(1)] obtain r
      where r: "phase_of n (parent s) c = Live r" "idle n (ChWait k) r" "c2p s c = shut" "g = shut"
      using ChWait by auto
    with g(2) \<open>c < N\<close> show ?thesis by (simp add: worker_ok_def busy_def idle_def)
  next
    case (ChRow k i)
    with ok step show ?thesis
      by (cases "phase_of n (parent s) c"; cases "i < n")
        (auto simp: worker_ok_def worker_step_def idle_def busy_def)
  next
    case (ChCell k i j)
    with ok step show ?thesis
      by (cases "phase_of n (parent s) c")
        (auto simp: worker_ok_def worker_step_def idle_def busy_def split: if_splits)
  next
    case (ChPost k)
    with ok step show ?thesis
      by (cases "phase_of n (parent s) c") (auto simp: worker_ok_def worker_step_def idle_def busy_def)
  next
    case (ChK k)
    with ok step show ?thesis
      by (cases "phase_of n (parent s) c")
        (auto simp: worker_ok_def worker_step_def idle_def busy_def split: if_splits)
  qed (use step in \<open>simp_all add: worker_step_def\<close>)
qed

lemma protocol_worker_step:
  assumes inv: "protocol shut post joins N n s" and "c < N"
    and step: "worker_step post pass get put N n c s = Some t"
  shows "protocol shut post joins N n t"
proof -
  have "worker_ok shut post N n t c'" if "c' < N" for c'
  proof (cases "c' = c")
    case True
    with inv that step show ?thesis by (auto simp: protocol_def intro: worker_step_ok)
  next
    case False
    with inv that worker_frame[OF step False] show ?thesis
      by (simp add: protocol_def worker_ok_def)
  qed
  with inv step show ?thesis
    by (auto simp: protocol_def worker_step_def split: cpc.splits option.splits if_splits)
qed

text \<open>
  A step of the parent changes the phase of one worker at most, and only gates and control
  states of that worker.
\<close>

lemma protocol_parent_step:
  assumes inv: "protocol shut post joins N n s" and spawns: "\<And>c. c < N \<Longrightarrow> spawns c"
    and step: "parent_step spawns joins post pass get put N n s = Some t"
  shows "protocol shut post joins N n t"
proof (cases "parent s")
  case (PFork f)
  then show ?thesis
    using inv step spawns
    by (auto simp: protocol_def parent_step_def worker_ok_def idle_def less_Suc_eq split: if_splits)
next
  case (PPost m k)
  show ?thesis
  proof (cases "k < N")
    case True
    with PPost step have t: "t = s\<lparr>p2c := (p2c s)(k := post (p2c s k)), parent := PPost m (Suc k)\<rparr>"
      by (simp add: parent_step_def)
    have "worker_ok shut post N n t c" if "c < N" for c
    proof -
      have "worker_ok shut post N n s c" using inv that by (simp add: protocol_def)
      with PPost show ?thesis by (cases c k rule: linorder_cases) (simp_all add: t worker_ok_def)
    qed
    with inv PPost True t show ?thesis by (simp add: protocol_def)
  qed (use PPost inv step in \<open>auto simp: protocol_def parent_step_def worker_ok_def\<close>)
next
  case (PWait m k)
  show ?thesis
  proof (cases "k < N")
    case True
    with PWait step obtain g where g: "pass (c2p s k) = Some g"
      and t: "t = s\<lparr>c2p := (c2p s)(k := g), parent := PWait m (Suc k)\<rparr>"
      by (auto simp: parent_step_def split: option.splits)
    have "worker_ok shut post N n t c" if "c < N" for c
    proof -
      have ok: "worker_ok shut post N n s c" using inv that by (simp add: protocol_def)
      show ?thesis
      proof (cases c k rule: linorder_cases)
        case equal
        with PWait ok have "handshake shut post (Live m) (childs s k = Unborn)
            (idle n (childs s k)) (busy N n k (childs s k)) (p2c s k) (c2p s k)"
          by (simp add: worker_ok_def)
        from handshake_up[OF this g] equal show ?thesis by (simp add: t worker_ok_def)
      qed (use PWait ok in \<open>simp_all add: t worker_ok_def\<close>)
    qed
    with inv PWait True t show ?thesis by (simp add: protocol_def)
  qed (use PWait inv step in \<open>auto simp: protocol_def parent_step_def worker_ok_def\<close>)
qed (use inv step in \<open>auto simp: protocol_def parent_step_def worker_ok_def split: if_splits\<close>)

section \<open>The rounds compute the closure\<close>

lemma writing_worker:
  assumes "protocol shut post joins N n s" "c < N" "childs s c = ChCell k i j"
  shows "phase_of n (parent s) c = Live k \<and> c2p s c = shut \<and> i mod N = c \<and> i < n \<and> j \<le> n"
proof -
  have "worker_ok shut post N n s c" using assms by (simp add: protocol_def)
  with assms(3) show ?thesis
    by (cases "phase_of n (parent s) c") (simp_all add: worker_ok_def idle_def busy_def)
qed

lemma live_parent:
  assumes "phase_of n pc c = Live m"
  obtains k where "pc = PPost m k" "c < k" | k where "pc = PWait m k" "k \<le> c"
  using assms by (cases pc) (auto split: if_splits)

text \<open>A worker that is not in the inner loop body leaves both matrices alone.\<close>

lemma worker_step_matrices:
  assumes "worker_step post pass get put N n c s = Some t"
  shows "M_prev t = M_prev s"
    and "(\<And>k i j. childs s c = ChCell k i j \<Longrightarrow> n \<le> j) \<Longrightarrow> M_curr t = M_curr s"
  using assms by (auto simp: worker_step_def split: cpc.splits option.splits if_splits)

lemma shaped_worker_step:
  assumes inv: "protocol shut post joins N n s" "shaped get shape n s" and "c < N"
    and step: "worker_step post pass get put N n c s = Some t"
  shows "shaped get shape n t"
proof (cases "\<exists>k i j. childs s c = ChCell k i j \<and> j < n")
  case True
  then obtain k i j where pc: "childs s c = ChCell k i j" "j < n" by blast
  with writing_worker[OF inv(1) \<open>c < N\<close>] have "i < n" by blast
  moreover from pc step
  have "t = goto c (ChCell k i (Suc j)) (s\<lparr>M_curr := merge_cell get put n (M_prev s) (M_curr s) k i j\<rparr>)"
    by (simp add: worker_step_def)
  ultimately show ?thesis
    using inv(2) pc(2) by (simp add: shaped_def shape_merge_cell binary_merge_cell)
next
  case False
  then have "M_curr t = M_curr s" using worker_step_matrices(2)[OF step] by force
  with inv(2) worker_step_matrices(1)[OF step] show ?thesis by (simp add: shaped_def)
qed

lemma same_residue_gap:
  assumes "i mod N = i' mod N" "i' < i" "0 < (N::nat)"
  shows "i' + N \<le> i"
proof -
  have "N dvd i - i'" using assms by (metis mod_eq_dvd_iff_nat less_imp_le)
  with assms show ?thesis by (auto dest: dvd_imp_le)
qed

text \<open>A step of worker \<open>c\<close> finishes one more cell at most, the one it writes.\<close>

lemma cell_done_worker_step:
  assumes inv: "protocol shut post joins N n s" and "c < N"
    and step: "worker_step post pass get put N n c s = Some t"
    and cdone: "cell_done shut n m t (i mod N) i j" and ij: "i < n" "j < n"
  shows "cell_done shut n m s (i mod N) i j \<or> (\<exists>k. childs s c = ChCell k i j)"
proof (cases "i mod N = c")
  case False
  with worker_frame[OF step False] cdone show ?thesis
    by (simp add: cell_done_def split: phase.splits)
next
  case True
  have parent: "parent t = parent s"
    using step by (auto simp: worker_step_def split: cpc.splits option.splits if_splits)
  show ?thesis
  proof (cases "childs s c")
    case (ChWait k)
    have "\<not> i < i mod N" by (simp add: leD)
    with ChWait step cdone True show ?thesis
      by (auto simp: worker_step_def cell_done_def pc_done_def split: option.splits phase.splits)
  next
    case (ChCell k i' j')
    have "i' mod N = c" using writing_worker[OF inv \<open>c < N\<close> ChCell] by blast
    with True \<open>c < N\<close> have gap: "i < i' + N \<Longrightarrow> i \<le> i'"
      using same_residue_gap[of i N i'] by (cases "i' < i") auto
    with ChCell step cdone True ij show ?thesis
      by (auto simp: worker_step_def cell_done_def pc_done_def less_Suc_eq split: if_splits phase.splits)
  next
    case (ChRow k i')
    with step cdone True ij show ?thesis
      by (auto simp: worker_step_def cell_done_def pc_done_def split: if_splits phase.splits)
  next
    case (ChPost k)
    with step cdone True parent show ?thesis
      by (auto simp: worker_step_def cell_done_def pc_done_def split: phase.splits)
  next
    case (ChK k)
    with step cdone True show ?thesis
      by (auto simp: worker_step_def cell_done_def pc_done_def split: if_splits phase.splits)
  qed (use step in \<open>simp_all add: worker_step_def\<close>)
qed

lemma computing_worker_step:
  assumes inv: "protocol shut post joins N n s" "shaped get shape n s" and "c < N"
    and R: "R \<subseteq> {..<n} \<times> {..<n}" and m: "m < n"
    and parent: "parent s = PPost m q \<or> parent s = PWait m q"
    and comp: "computing shut get N n R m s"
    and step: "worker_step post pass get put N n c s = Some t"
  shows "computing shut get N n R m t"
proof -
  let ?W = "closure_rounds (Suc m) R"
  have square: "i < n \<and> j < n" if "(i, j) \<in> ?W" for i j
    using that closure_rounds_square[OF R, of "Suc m"] by blast
  have P: "edges get n (M_prev t) = closure_rounds m R"
    using comp worker_step_matrices(1)[OF step] by (simp add: computing_def)
  show ?thesis
  proof (cases "\<exists>k i j. childs s c = ChCell k i j \<and> j < n")
    case True
    then obtain k i j where pc: "childs s c = ChCell k i j" "j < n" by blast
    from writing_worker[OF inv(1) \<open>c < N\<close> pc(1)] parent have w: "k = m" "i < n"
      by (auto split: if_splits)
    have "M_curr t = merge_cell get put n (M_prev s) (M_curr s) m i j"
      using step pc w by (auto simp: worker_step_def)
    then have C: "edges get n (M_curr t) = edges get n (M_curr s) \<union> ({(i, j)} \<inter> ?W)"
      using merge_cell_edges[of n "M_curr s" i j m "M_prev s"] inv(2) pc(2) w(2) m comp
      by (simp add: shaped_def computing_def)
    have "(i', j') \<in> edges get n (M_curr t)"
      if W: "(i', j') \<in> ?W" and "cell_done shut n m t (i' mod N) i' j'" for i' j'
    proof (cases "(i', j') = (i, j)")
      case False
      with cell_done_worker_step[OF inv(1) \<open>c < N\<close> step that(2)] square[OF W] pc
      have "cell_done shut n m s (i' mod N) i' j'" by auto
      with W comp have "(i', j') \<in> edges get n (M_curr s)" by (simp add: computing_def del: edges_iff)
      then show ?thesis unfolding C by blast
    qed (use W C in blast)
    moreover have "edges get n (M_curr t) \<subseteq> ?W" using comp unfolding C by (auto simp: computing_def simp del: edges_iff)
    ultimately show ?thesis using P by (simp add: computing_def del: edges_iff)
  next
    case False
    then have C: "M_curr t = M_curr s" using worker_step_matrices(2)[OF step] by force
    have "cell_done shut n m s (i mod N) i j"
      if "(i, j) \<in> ?W" "cell_done shut n m t (i mod N) i j" for i j
      using cell_done_worker_step[OF inv(1) \<open>c < N\<close> step that(2)] square[OF that(1)] False by blast
    with comp P show ?thesis by (simp add: computing_def C del: edges_iff)
  qed
qed

lemma content_worker_step:
  assumes inv: "protocol shut post joins N n s" "shaped get shape n s" and "c < N"
    and R: "R \<subseteq> {..<n} \<times> {..<n}"
    and cont: "content shut get N n R s"
    and step: "worker_step post pass get put N n c s = Some t"
  shows "content shut get N n R t"
proof (cases "\<exists>m q. parent s = PPost m q \<or> parent s = PWait m q")
  case True
  then obtain m q where q: "parent s = PPost m q \<or> parent s = PWait m q" by blast
  moreover have "parent t = parent s" using worker_frame(1)[OF step, of "Suc c"] by simp
  moreover have "m < n" using inv(1) q by (auto simp: protocol_def)
  ultimately show ?thesis
    using computing_worker_step[OF inv \<open>c < N\<close> R _ q _ step] cont by (auto simp: content_def)
next
  case False
  have "n \<le> j" if "childs s c = ChCell k i j" for k i j
    using writing_worker[OF inv(1) \<open>c < N\<close> that] False by (auto elim: live_parent)
  then have same: "M_curr t = M_curr s" "M_prev t = M_prev s"
    using worker_step_matrices[OF step] by blast+
  have "parent t = parent s" using worker_frame(1)[OF step, of "Suc c"] by simp
  with same cont False show ?thesis
    by (cases "parent s") (simp_all add: content_def copied_def)
qed

lemma shaped_parent_step:
  assumes inv: "protocol shut post joins N n s" "shaped get shape n s"
    and step: "parent_step spawns joins post pass get put N n s = Some t"
  shows "shaped get shape n t"
proof (cases "\<exists>m y z. parent s = PCell m y z \<and> z < n")
  case True
  then obtain m y z where pc: "parent s = PCell m y z" "z < n" by blast
  with inv(1) have y: "y < n" by (simp add: protocol_def)
  from pc step have t: "t = s\<lparr>M_prev := put n (M_prev s) y z (get n (M_curr s) y z), parent := PCell m y (Suc z)\<rparr>"
    by (simp add: parent_step_def)
  have "get n (M_curr s) y z = 0 \<or> get n (M_curr s) y z = 1"
    using inv(2) y pc(2) by (intro binaryD[of get n]) (auto simp: shaped_def)
  with inv(2) y pc(2) show ?thesis
    by (simp add: t shaped_def shape_put binary_put)
next
  case False
  then have "M_curr t = M_curr s \<and> M_prev t = M_prev s"
    using step by (auto simp: parent_step_def split: ppc.splits option.splits if_splits)
  with inv(2) show ?thesis by (simp add: shaped_def)
qed

lemma copied_edges:
  assumes "copied get n s n z"
  shows "edges get n (M_prev s) = edges get n (M_curr s)"
  using assms by (auto simp: copied_def)

lemma copied_put:
  assumes "copied get n s y z" "shape n (M_prev s)" "y < n" "z < n"
  shows "copied get n (s\<lparr>M_prev := put n (M_prev s) y z (get n (M_curr s) y z), parent := pc\<rparr>) y (Suc z)"
  using assms by (auto simp: copied_def get_put less_Suc_eq)

lemma idle_not_done: "idle n pc r \<Longrightarrow> \<not> pc_done pc i j"
  by (auto simp: idle_def pc_done_def)

text \<open>A step of the parent within a round finishes no cell.\<close>

lemma cell_done_parent_step:
  assumes inv: "protocol shut post joins N n s" and "c < N"
    and parent: "parent s = PPost m k \<or> parent s = PWait m k"
    and step: "parent_step spawns joins post pass get put N n s = Some t"
    and cdone: "cell_done shut n m t c i j" and next_pc: "parent t \<noteq> PRow m 0"
  shows "cell_done shut n m s c i j"
  using parent
proof
  assume pc: "parent s = PPost m k"
  have ok: "worker_ok shut post N n s c" using inv \<open>c < N\<close> by (simp add: protocol_def)
  show ?thesis
  proof (cases "k < N \<and> c = k")
    case True
    with ok pc have "idle n (childs s c) m" "c2p s c = shut" by (simp_all add: worker_ok_def)
    with True pc step cdone idle_not_done show ?thesis
      by (auto simp: parent_step_def cell_done_def)
  next
    case False
    with pc step cdone \<open>c < N\<close> show ?thesis
      by (auto simp: parent_step_def cell_done_def less_Suc_eq split: if_splits)
  qed
next
  assume pc: "parent s = PWait m k"
  show ?thesis
  proof (cases "k < N")
    case True
    with pc step obtain g where g: "pass (c2p s k) = Some g"
      and t: "t = s\<lparr>c2p := (c2p s)(k := g), parent := PWait m (Suc k)\<rparr>"
      by (auto simp: parent_step_def split: option.splits)
    have "c2p s k \<noteq> shut" using g pass_shut by auto
    with pc cdone t show ?thesis by (auto simp: cell_done_def less_Suc_eq split: if_splits)
  qed (use pc step next_pc in \<open>auto simp: parent_step_def\<close>)
qed

lemma computing_parent_step:
  assumes inv: "protocol shut post joins N n s" and "0 < N"
    and parent: "parent s = PPost m k \<or> parent s = PWait m k"
    and step: "parent_step spawns joins post pass get put N n s = Some t"
    and comp: "computing shut get N n R m s" and next_pc: "parent t \<noteq> PRow m 0"
  shows "computing shut get N n R m t"
proof -
  have same: "M_curr t = M_curr s" "M_prev t = M_prev s"
    using step parent by (auto simp: parent_step_def split: option.splits if_splits)
  have "cell_done shut n m s (i mod N) i j" if "cell_done shut n m t (i mod N) i j" for i j
    using cell_done_parent_step[OF inv _ parent step that next_pc] \<open>0 < N\<close> by simp
  with comp show ?thesis by (simp add: computing_def same del: edges_iff)
qed

lemma content_parent_step:
  assumes inv: "protocol shut post joins N n s" "shaped get shape n s" and "0 < N"
    and R: "R \<subseteq> {..<n} \<times> {..<n}" and cont: "content shut get N n R s"
    and step: "parent_step spawns joins post pass get put N n s = Some t"
  shows "content shut get N n R t"
proof (cases "parent s")
  case (PRound m)
  then have m: "m \<le> n" using inv(1) by (simp add: protocol_def)
  show ?thesis
  proof (cases "m < n")
    case True
    then have t: "t = s\<lparr>parent := PPost m 0\<rparr>" using PRound step by (simp add: parent_step_def)
    then have "\<not> cell_done shut n m t c i j" for c i j by (simp add: cell_done_def)
    with PRound cont closure_round_mono[of "closure_rounds m R" m] show ?thesis
      by (simp add: t content_def computing_def del: edges_iff)
  next
    case False
    with m have "m = n" by simp
    moreover have "closure_rounds 0 R = {}" if "n = 0" using R that by auto
    ultimately show ?thesis
      using PRound cont step by (auto simp: parent_step_def content_def simp del: edges_iff)
  qed
next
  case (PPost m k)
  then have "parent t = PPost m (Suc k) \<or> parent t = PWait m 0"
    using step by (auto simp: parent_step_def split: if_splits)
  moreover from this have "computing shut get N n R m t"
    using computing_parent_step[OF inv(1) \<open>0 < N\<close> _ step] PPost cont by (auto simp: content_def)
  ultimately show ?thesis by (auto simp: content_def)
next
  case (PWait m k)
  show ?thesis
  proof (cases "k < N")
    case True
    then have "parent t = PWait m (Suc k)"
      using PWait step by (auto simp: parent_step_def split: option.splits)
    moreover from this have "computing shut get N n R m t"
      using computing_parent_step[OF inv(1) \<open>0 < N\<close> _ step] PWait cont by (auto simp: content_def)
    ultimately show ?thesis by (simp add: content_def)
  next
    case False
    then have t: "t = s\<lparr>parent := PRow m 0\<rparr>" using PWait step by (simp add: parent_step_def)
    have "i mod N < k" for i using False \<open>0 < N\<close> by (meson leI less_le_trans mod_less_divisor)
    then have "cell_done shut n m s (i mod N) i j" for i j using PWait by (simp add: cell_done_def)
    with PWait cont have "edges get n (M_curr s) = closure_rounds (Suc m) R"
      by (auto simp: content_def computing_def simp del: edges_iff closure_rounds.simps)
    then show ?thesis by (simp add: t content_def copied_def del: edges_iff)
  qed
next
  case (PRow m y)
  then show ?thesis
    using cont step inv(1) copied_edges[of n s 0]
    by (auto simp: parent_step_def content_def copied_def protocol_def simp del: edges_iff split: if_splits)
next
  case (PCell m y z)
  then have yz: "y < n" "z \<le> n" using inv(1) by (simp_all add: protocol_def)
  show ?thesis
  proof (cases "z < n")
    case True
    with PCell step cont inv(2) yz copied_put[of n s y z] show ?thesis
      by (auto simp: parent_step_def content_def shaped_def simp del: edges_iff)
  next
    case False
    with PCell step cont yz show ?thesis
      by (auto simp: parent_step_def content_def copied_def less_Suc_eq simp del: edges_iff)
  qed
qed (use cont step in \<open>auto simp: parent_step_def content_def simp del: edges_iff split: if_splits\<close>)

lemma team_inv_init:
  assumes "0 < N" "shape n P" "shape n C" "binary get n P" "binary get n C" "edges get n C = {}"
  shows "team_inv shut post get shape joins N n (edges get n P) (team_init shut P C)"
  using assms by (simp add: team_inv_def protocol_init) (simp add: team_init_def shaped_def content_def)

lemma team_inv_step:
  assumes step: "sys_step (parent_step spawns joins post pass get put N n)
      (worker_step post pass get put N n) N s t"
    and inv: "team_inv shut post get shape joins N n R s" and "0 < N" and spawns: "\<And>c. c < N \<Longrightarrow> spawns c"
    and R: "R \<subseteq> {..<n} \<times> {..<n}"
  shows "team_inv shut post get shape joins N n R t"
proof -
  from inv have i: "protocol shut post joins N n s" "shaped get shape n s" "content shut get N n R s"
    by (simp_all add: team_inv_def)
  from step show ?thesis
  proof cases
    case par
    from protocol_parent_step[OF i(1) spawns par] shaped_parent_step[OF i(1,2) par]
      content_parent_step[OF i(1,2) \<open>0 < N\<close> R i(3) par]
    show ?thesis by (simp add: team_inv_def)
  next
    case (chi c)
    from protocol_worker_step[OF i(1) chi] shaped_worker_step[OF i(1,2) chi]
      content_worker_step[OF i(1,2) chi(1) R i(3) chi(2)]
    show ?thesis by (simp add: team_inv_def)
  qed
qed

lemma team_inv_reach:
  assumes reach: "(sys_step (parent_step spawns joins post pass get put N n)
      (worker_step post pass get put N n) N)\<^sup>*\<^sup>* s t"
    and "team_inv shut post get shape joins N n R s" "0 < N" "\<And>c. c < N \<Longrightarrow> spawns c" "R \<subseteq> {..<n} \<times> {..<n}"
  shows "team_inv shut post get shape joins N n R t"
  using reach
proof (induction rule: rtranclp_induct)
  case (step u v)
  then show ?case by (intro team_inv_step[OF step(2) _ assms(3-5)])
qed (rule assms(2))

lemma finished_edges:
  assumes "team_inv shut post get shape joins N n R s" "parent s = PEnd" "R \<subseteq> {..<n} \<times> {..<n}"
  shows "edges get n (M_prev s) = R\<^sup>+" "edges get n (M_curr s) = R\<^sup>+"
    "binary get n (M_prev s)" "binary get n (M_curr s)"
  using assms closure_rounds_correct[OF assms(3)]
  by (simp_all add: team_inv_def content_def shaped_def)

section \<open>No races\<close>

lemma worker_exclusive:
  assumes "protocol shut post joins N n s" "c < N" "childs s c = ChCell k i j"
  shows "(\<exists>q. parent s = PPost k q) \<or> (\<exists>q. parent s = PWait k q)"
    and "c' < N \<Longrightarrow> c' \<noteq> c \<Longrightarrow> childs s c' = ChCell k' i' j' \<Longrightarrow> k' = k \<and> i' \<noteq> i"
proof -
  note w = writing_worker[OF assms]
  then show pc: "(\<exists>q. parent s = PPost k q) \<or> (\<exists>q. parent s = PWait k q)"
    by (metis live_parent)
  show "k' = k \<and> i' \<noteq> i" if "c' < N" "c' \<noteq> c" "childs s c' = ChCell k' i' j'"
    using writing_worker[OF assms(1) that(1,3)] w that(2) pc by (auto split: if_splits)
qed

lemma posts_hit_shut_gates:
  assumes "protocol shut post joins N n s"
  shows "parent s = PPost m k \<Longrightarrow> k < N \<Longrightarrow> p2c s k = shut"
    and "c < N \<Longrightarrow> childs s c = ChPost k \<Longrightarrow> c2p s c = shut"
proof -
  show "p2c s k = shut" if "parent s = PPost m k" "k < N"
    using assms that by (auto simp: protocol_def worker_ok_def)
  show "c2p s c = shut" if "c < N" "childs s c = ChPost k"
  proof -
    have "worker_ok shut post N n s c" using assms that by (simp add: protocol_def)
    with that(2) show ?thesis
      by (cases "phase_of n (parent s) c") (simp_all add: worker_ok_def idle_def busy_def)
  qed
qed

section \<open>No deadlock\<close>

lemma pending_worker_moves:
  assumes "worker_ok shut post N n s c" "phase_of n (parent s) c = Live r" "pass (c2p s c) = None" "r < n"
  shows "\<exists>t. worker_step post pass get put N n c s = Some t"
proof -
  from assms(1,2) have "handshake shut post (Live r) (childs s c = Unborn)
      (idle n (childs s c)) (busy N n c (childs s c)) (p2c s c) (c2p s c)"
    by (simp add: worker_ok_def)
  from handshake_pending[OF this assms(3)] assms(4) show ?thesis
    by (auto simp: worker_step_def idle_def busy_def split: cpc.splits)
qed

lemma progress:
  assumes inv: "protocol shut post joins N n s" and "parent s \<noteq> PEnd"
  shows "\<exists>t. sys_step (parent_step spawns joins post pass get put N n)
    (worker_step post pass get put N n) N s t"
proof (cases "parent_step spawns joins post pass get put N n s")
  case (Some t)
  then show ?thesis by (blast intro: sys_step.par)
next
  case None
  have "\<exists>c t. c < N \<and> worker_step post pass get put N n c s = Some t"
  proof (cases "parent s")
    case (PWait m k)
    with None have k: "k < N" "pass (c2p s k) = None"
      by (auto simp: parent_step_def split: if_splits option.splits)
    moreover have "worker_ok shut post N n s k" using inv k by (simp add: protocol_def)
    moreover have "m < n" using inv PWait by (simp add: protocol_def)
    ultimately show ?thesis using pending_worker_moves[of N n s k m] PWait by auto
  next
    case (PJoin k)
    with None inv have k: "k < N" "childs s k \<noteq> ChExit"
      by (auto simp: parent_step_def protocol_def split: if_splits)
    then have "worker_ok shut post N n s k" using inv by (simp add: protocol_def)
    with PJoin k(2) have "childs s k = ChK n" by (simp add: worker_ok_def idle_def)
    then have "\<exists>t. worker_step post pass get put N n k s = Some t" by (simp add: worker_step_def)
    with k(1) show ?thesis by blast
  qed (use None inv assms(2) in \<open>auto simp: parent_step_def protocol_def split: if_splits\<close>)
  then show ?thesis by (blast intro: sys_step.chi)
qed

section \<open>Every run ends\<close>

lemma child_work_step:
  assumes "worker_ok shut post N n s c" "0 < N"
    and live: "\<And>r. phase_of n (parent s) c = Live r \<Longrightarrow> r < n"
    and step: "worker_step post pass get put N n c s = Some t"
  shows "child_work n (childs t c) < child_work n (childs s c)"
proof (cases "childs s c")
  case (ChRow k i)
  have "(n - i) * (n + 3) = (n - Suc i) * (n + 3) + n + 3" if "i < n"
    using that by (metis Suc_diff_Suc add.commute add.left_commute mult_Suc)
  with ChRow step show ?thesis by (auto simp: worker_step_def child_work_def Let_def)
next
  case (ChCell k i j)
  then have t: "childs t c = (if j < n then ChCell k i (Suc j) else ChRow k (i + N))"
    using step by (auto simp: worker_step_def)
  have "(n - (i + N)) * (n + 3) \<le> (n - Suc i) * (n + 3)"
    using \<open>0 < N\<close> by (intro mult_right_mono) auto
  then have "child_work n (ChRow k (i + N)) < child_work n (ChCell k i j)"
    unfolding child_work_def Let_def cpc.case by linarith
  moreover have "child_work n (ChCell k i (Suc j)) < child_work n (ChCell k i j)" if "j < n"
  proof -
    have "n - Suc j < n - j" using that by simp
    then show ?thesis unfolding child_work_def Let_def cpc.case by linarith
  qed
  ultimately show ?thesis by (simp add: t ChCell)
next
  case (ChPost k)
  have "k < n"
    using assms(1) ChPost live
    by (cases "phase_of n (parent s) c") (auto simp: worker_ok_def idle_def busy_def)
  then have "(n - k) * B = (n - Suc k) * B + B" for B
    by (metis Suc_diff_Suc add.commute mult_Suc)
  with ChPost step show ?thesis by (auto simp: worker_step_def child_work_def Let_def)
next
  case (ChWait k)
  with step show ?thesis
    by (auto simp: worker_step_def child_work_def Let_def less_Suc_eq_le split: option.splits)
qed (use step in \<open>auto simp: worker_step_def child_work_def Let_def split: option.splits\<close>)

lemma parent_work_step:
  assumes "parent_ok joins N n (parent s)"
    and step: "parent_step spawns joins post pass get put N n s = Some t"
  shows "parent_work N n (parent t) < parent_work N n (parent s)"
proof (cases "parent s")
  case (PRow m y)
  have "(n - y) * (n + 3) = (n - Suc y) * (n + 3) + n + 3" if "y < n"
    using that by (metis Suc_diff_Suc add.commute add.left_commute mult_Suc)
  moreover have "m < n" using PRow assms(1) by simp
  then have "(n - m) * D = (n - Suc m) * D + D" for D
    by (metis Suc_diff_Suc add.commute mult_Suc)
  ultimately show ?thesis using PRow step by (auto simp: parent_step_def parent_work_def Let_def)
qed (use step in \<open>auto simp: parent_step_def parent_work_def Let_def split: if_splits option.splits\<close>)

lemma work_left_step:
  assumes inv: "protocol shut post joins N n s" and "0 < N"
    and step: "sys_step (parent_step spawns joins post pass get put N n)
      (worker_step post pass get put N n) N s t"
  shows "work_left N n t < work_left N n s"
  using step
proof cases
  case par
  have "child_work n (childs t c) \<le> child_work n (childs s c)" if "c < N" for c
  proof (cases "parent s = PFork c \<and> spawns c")
    case True
    then have "childs s c = Unborn" using inv that by (auto simp: protocol_def worker_ok_def)
    with True that par show ?thesis by (auto simp: parent_step_def child_work_def Let_def)
  next
    case False
    with par have "childs t c = childs s c"
      by (auto simp: parent_step_def split: ppc.splits if_splits option.splits)
    then show ?thesis by simp
  qed
  then have "(\<Sum>c<N. child_work n (childs t c)) \<le> (\<Sum>c<N. child_work n (childs s c))"
    by (intro sum_mono) auto
  with parent_work_step[OF _ par] inv show ?thesis by (simp add: work_left_def protocol_def)
next
  case (chi c)
  have "r < n" if "phase_of n (parent s) c = Live r" for r
    using inv by (rule_tac live_parent[OF that]) (auto simp: protocol_def)
  with chi inv \<open>0 < N\<close> have "child_work n (childs t c) < child_work n (childs s c)"
    by (intro child_work_step) (auto simp: protocol_def)
  moreover have "child_work n (childs t c') = child_work n (childs s c')" if "c' \<noteq> c" for c'
    using worker_frame[OF chi(2) that] by simp
  then have "(\<Sum>c'\<in>{..<N} - {c}. child_work n (childs t c')) = (\<Sum>c'\<in>{..<N} - {c}. child_work n (childs s c'))"
    by (intro sum.cong) auto
  ultimately have "(\<Sum>c<N. child_work n (childs t c)) < (\<Sum>c<N. child_work n (childs s c))"
    using chi(1) by (simp add: sum.remove[of "{..<N}" c])
  moreover have "parent t = parent s" using worker_frame(1)[OF chi(2), of "Suc c"] by simp
  ultimately show ?thesis by (simp add: work_left_def)
qed

end

end
