(* ===== verification/WtcProc.thy ===== *)
theory WtcProc
  imports StripedProofs
begin

text \<open>
  \<open>wtc_proc.c\<close>: processes, semaphores and two row-major matrices in shared memory. The control
  states are those of the striped machine; every statement of \<open>child\<close> and \<open>wtc_proc\<close> that
  touches shared state is one step. What the operating system decides is an environment:
  whether \<open>sem_init\<close>, \<open>fork\<close> and \<open>sem_destroy\<close> succeed. POSIX fills the truncated shared
  memory files with zeros.
\<close>

datatype wtc_result = Exit nat string | Output string

record os_env =
  init_ok :: "nat \<Rightarrow> bool"
  create_ok :: "nat \<Rightarrow> bool"
  destroy_ok :: "nat \<Rightarrow> bool"

definition kind_env :: os_env where
  "kind_env = \<lparr>init_ok = (\<lambda>_. True), create_ok = (\<lambda>_. True), destroy_ok = (\<lambda>_. True)\<rparr>"

type_synonym proc_state = "(nat, int list) team"

section \<open>The worker process\<close>

definition child_cell :: "nat \<Rightarrow> int list \<Rightarrow> int list \<Rightarrow> nat \<Rightarrow> nat \<Rightarrow> nat \<Rightarrow> int list" where
  "child_cell numVerts prev cur k i j =
     (if (prev ! (k * numVerts + j) = 1 \<and> prev ! (i * numVerts + k) \<noteq> 0) \<or> prev ! (i * numVerts + j) = 1
      then cur[i * numVerts + j := 1] else cur)"

definition child_step :: "nat \<Rightarrow> nat \<Rightarrow> nat \<Rightarrow> proc_state \<Rightarrow> proc_state option" where
  "child_step numProcs numVerts n s = (case childs s n of
     Unborn \<Rightarrow> None
   | ChK k \<Rightarrow> Some (if k < numVerts then goto n (ChWait k) s else goto n ChExit s)
   | ChWait k \<Rightarrow> (case sem_wait (p2c s n) of
        None \<Rightarrow> None
      | Some v \<Rightarrow> Some (goto n (ChRow k n) (s\<lparr>p2c := (p2c s)(n := v)\<rparr>)))
   | ChRow k i \<Rightarrow> Some (if i < numVerts then goto n (ChCell k i 0) s else goto n (ChPost k) s)
   | ChCell k i j \<Rightarrow>
        Some (if j < numVerts
          then goto n (ChCell k i (j + 1)) (s\<lparr>M_curr := child_cell numVerts (M_prev s) (M_curr s) k i j\<rparr>)
          else goto n (ChRow k (i + numProcs)) s)
   | ChPost k \<Rightarrow> Some (goto n (ChK (k + 1)) (s\<lparr>c2p := (c2p s)(n := sem_post (c2p s n))\<rparr>))
   | ChExit \<Rightarrow> None)"

section \<open>The parent process\<close>

definition wtc_proc_step :: "os_env \<Rightarrow> nat \<Rightarrow> nat \<Rightarrow> proc_state \<Rightarrow> proc_state option" where
  "wtc_proc_step env numProcs numVerts s = (case parent s of
     PFork k \<Rightarrow>
        Some (if k < numProcs
          then (if create_ok env k then goto k (ChK 0) s else s)\<lparr>parent := PFork (k + 1)\<rparr>
          else s\<lparr>parent := PRound 0\<rparr>)
   | PRound m \<Rightarrow> Some (if m < numVerts then s\<lparr>parent := PPost m 0\<rparr> else s\<lparr>parent := PEnd\<rparr>)
   | PPost m k \<Rightarrow>
        Some (if k < numProcs
          then s\<lparr>p2c := (p2c s)(k := sem_post (p2c s k)), parent := PPost m (k + 1)\<rparr>
          else s\<lparr>parent := PWait m 0\<rparr>)
   | PWait m k \<Rightarrow>
        (if k < numProcs
         then (case sem_wait (c2p s k) of
            None \<Rightarrow> None
          | Some v \<Rightarrow> Some (s\<lparr>c2p := (c2p s)(k := v), parent := PWait m (k + 1)\<rparr>))
         else Some (s\<lparr>parent := PRow m 0\<rparr>))
   | PRow m y \<Rightarrow> Some (if y < numVerts then s\<lparr>parent := PCell m y 0\<rparr> else s\<lparr>parent := PRound (m + 1)\<rparr>)
   | PCell m y z \<Rightarrow>
        Some (if z < numVerts
          then s\<lparr>M_prev := (M_prev s)[y * numVerts + z := M_curr s ! (y * numVerts + z)],
                 parent := PCell m y (z + 1)\<rparr>
          else s\<lparr>parent := PRow m (y + 1)\<rparr>)
   | _ \<Rightarrow> None)"

text \<open>
  Before the first \<open>fork\<close>: the shared memory of \<open>size2*2\<close> bytes, zero-filled, the semaphores
  at 0, and the copy of the input matrix into the row-major array.
\<close>

definition copy_to_shared :: "nat \<Rightarrow> int list list \<Rightarrow> int list \<Rightarrow> int list" where
  "copy_to_shared numVerts matrix prev =
     fold (\<lambda>i M. fold (\<lambda>j M. M[i * numVerts + j := matrix ! i ! j]) [0..<numVerts] M) [0..<numVerts] prev"

definition zeroed :: "nat \<Rightarrow> int list" where
  "zeroed numVerts = replicate (2 * (numVerts * numVerts)) 0"

definition wtc_proc_start :: "nat \<Rightarrow> int list list \<Rightarrow> proc_state" where
  "wtc_proc_start numVerts matrix =
     \<lparr>parent = PFork 0, childs = (\<lambda>_. Unborn), p2c = (\<lambda>_. 0), c2p = (\<lambda>_. 0),
      M_prev = copy_to_shared numVerts matrix (zeroed numVerts), M_curr = zeroed numVerts\<rparr>"

text \<open>
  The whole of \<open>wtc_proc\<close> under a given schedule: \<open>None\<close> when the schedule asks a blocked actor
  to move or stops before the parent has left its loops.
\<close>

definition wtc_proc ::
  "os_env \<Rightarrow> actor list \<Rightarrow> nat \<Rightarrow> nat \<Rightarrow> int list list \<Rightarrow> wtc_result option" where
  "wtc_proc env sched numProcs numVerts matrix =
     (if \<not> (\<forall>k \<in> set [0..<numProcs]. init_ok env k) then Some (Exit 1 ''sem_init failed'')
      else case run_sched (wtc_proc_step env numProcs numVerts) (child_step numProcs numVerts)
               numProcs sched (wtc_proc_start numVerts matrix) of
        None \<Rightarrow> None
      | Some s \<Rightarrow>
          (if parent s \<noteq> PEnd then None
           else if \<not> (\<forall>k \<in> set [0..<numProcs]. destroy_ok env k) then Some (Exit 1 ''sem_destroy failed'')
           else Some (Output (''Output:'' @ [newline] @ printArrayMatrix (M_curr s) numVerts))))"

section \<open>The programs are instances of the striped machine\<close>

interpretation proc: striped 0 sem_post sem_wait flat_get flat_put flat_wf
  by unfold_locales

lemma child_step_striped:
  "child_step = worker_step sem_post sem_wait flat_get flat_put"
proof (intro ext)
  fix N n c and s :: proc_state
  show "child_step N n c s = worker_step sem_post sem_wait flat_get flat_put N n c s"
    by (cases "childs s c")
      (simp_all add: child_step_def worker_step_def child_cell_def merge_cell_def flat_get_def flat_put_def)
qed

lemma wtc_proc_step_striped:
  "wtc_proc_step env = parent_step (create_ok env) False sem_post sem_wait flat_get flat_put"
proof (intro ext)
  fix N n and s :: proc_state
  show "wtc_proc_step env N n s =
      parent_step (create_ok env) False sem_post sem_wait flat_get flat_put N n s"
    by (cases "parent s")
      (auto simp: wtc_proc_step_def parent_step_def flat_get_def flat_put_def split: option.splits)
qed

text \<open>The array the loop fills holds the input matrix.\<close>

lemma copy_row_length: "length (fold (\<lambda>j M. M[i * n + j := matrix ! i ! j]) js M) = length M"
  by (induction js arbitrary: M) auto

lemma copy_row_nth:
  assumes "n * n \<le> length M" "i < n" "set js \<subseteq> {..<n}" "i' < n" "j' < n"
  shows "fold (\<lambda>j M. M[i * n + j := matrix ! i ! j]) js M ! (i' * n + j') =
    (if i' = i \<and> j' \<in> set js then matrix ! i ! j' else M ! (i' * n + j'))"
  using assms(1,3)
proof (induction js arbitrary: M)
  case (Cons j js)
  then have "j < n" by simp
  with Cons assms(2,4,5) row_major_less[OF assms(2) \<open>j < n\<close>] show ?case
    by (auto simp: nth_list_update row_major_inject)
qed simp

lemma copy_to_shared_nth:
  assumes "n * n \<le> length M" "i' < n" "j' < n" "set is \<subseteq> {..<n}"
  shows "fold (\<lambda>i M. fold (\<lambda>j M. M[i * n + j := matrix ! i ! j]) [0..<n] M) is M ! (i' * n + j') =
      (if i' \<in> set is then matrix ! i' ! j' else M ! (i' * n + j'))"
  using assms(1,4)
proof (induction "is" arbitrary: M)
  case (Cons i "is")
  have "set [0..<n] \<subseteq> {..<n}" by auto
  with Cons show ?case
    using copy_row_nth[of n M i "[0..<n]" i' j'] assms(2,3) by (auto simp: copy_row_length)
qed simp

lemma length_copy_to_shared: "length (copy_to_shared n matrix M) = length M"
proof -
  have "length (fold (\<lambda>i M. fold (\<lambda>j M. M[i * n + j := matrix ! i ! j]) [0..<n] M) is M) = length M" for "is"
    by (induction "is" arbitrary: M) (auto simp: copy_row_length)
  then show ?thesis by (simp add: copy_to_shared_def)
qed

lemma shared_input:
  shows "flat_wf n (copy_to_shared n matrix (zeroed n))" "flat_wf n (zeroed n)"
    and "i < n \<Longrightarrow> j < n \<Longrightarrow> flat_get n (copy_to_shared n matrix (zeroed n)) i j = rows_get n matrix i j"
    and "i < n \<Longrightarrow> j < n \<Longrightarrow> flat_get n (zeroed n) i j = 0"
proof -
  show "flat_wf n (copy_to_shared n matrix (zeroed n))" "flat_wf n (zeroed n)"
    by (simp_all add: flat_wf_def length_copy_to_shared zeroed_def)
  show "flat_get n (copy_to_shared n matrix (zeroed n)) i j = rows_get n matrix i j" if "i < n" "j < n"
    using copy_to_shared_nth[of n "zeroed n" i j "[0..<n]" matrix] that
    by (auto simp: copy_to_shared_def zeroed_def flat_get_def rows_get_def)
  show "flat_get n (zeroed n) i j = 0" if "i < n" "j < n"
    using row_major_less[OF that] by (simp add: zeroed_def flat_get_def)
qed

section \<open>Reachable states\<close>

definition proc_reachable :: "os_env \<Rightarrow> nat \<Rightarrow> nat \<Rightarrow> int list list \<Rightarrow> proc_state \<Rightarrow> bool" where
  "proc_reachable env N n A s \<longleftrightarrow>
     (sys_step (wtc_proc_step env N n) (child_step N n) N)\<^sup>*\<^sup>* (wtc_proc_start n A) s"

abbreviation proc_inv :: "nat \<Rightarrow> nat \<Rightarrow> int list list \<Rightarrow> proc_state \<Rightarrow> bool" where
  "proc_inv N n A \<equiv> team_inv 0 sem_post flat_get flat_wf False N n (edges rows_get n A)"

lemma proc_start_inv:
  assumes "0 < N" "binary rows_get n A"
  shows "proc_inv N n A (wtc_proc_start n A)"
proof -
  let ?P = "copy_to_shared n A (zeroed n)" and ?C = "zeroed n"
  have "edges flat_get n ?P = edges rows_get n A" "edges flat_get n ?C = {}"
    by (auto simp: edges_def shared_input(3,4))
  moreover have "binary flat_get n ?P" "binary flat_get n ?C"
    using assms(2) by (simp_all add: binary_def shared_input(3,4))
  ultimately show ?thesis
    using proc.team_inv_init[of N n ?P ?C False] assms(1) shared_input(1,2)
    by (simp add: team_init_def wtc_proc_start_def)
qed

lemma proc_inv_step:
  assumes "sys_step (wtc_proc_step env N n) (child_step N n) N s t" "proc_inv N n A s" "0 < N"
    and "\<And>k. k < N \<Longrightarrow> create_ok env k"
  shows "proc_inv N n A t"
  using assms(1) unfolding child_step_striped wtc_proc_step_striped
  by (rule proc.team_inv_step[OF _ assms(2,3) _ edges_square]) (rule assms(4))

lemma proc_reachable_inv:
  assumes "proc_reachable env N n A s" "0 < N" "binary rows_get n A" "\<And>k. k < N \<Longrightarrow> create_ok env k"
  shows "proc_inv N n A s"
  using assms(1) unfolding proc_reachable_def
  by (induction rule: rtranclp_induct) (auto intro: proc_start_inv proc_inv_step assms)

lemma wtc_proc_Output:
  assumes "wtc_proc env sched N n A = Some (Output out)"
  obtains s where "proc_reachable env N n A s" "parent s = PEnd"
    "out = ''Output:'' @ [newline] @ printArrayMatrix (M_curr s) n"
  using assms
  by (auto simp: wtc_proc_def proc_reachable_def split: option.splits if_splits dest: run_sched_reach)

text \<open>A printed result is the closure of the matrix, whatever the schedule was.\<close>

lemma proc_output_closure:
  assumes "0 < numProcs" and "binary rows_get numVerts matrix"
    and "\<And>k. k < numProcs \<Longrightarrow> create_ok env k"
    and "wtc_proc env sched numProcs numVerts matrix = Some (Output out)"
  shows "out = ''Output:'' @ [newline] @ render_relation numVerts ((edges rows_get numVerts matrix)\<^sup>+)"
proof -
  from assms(4) obtain s where s: "proc_reachable env numProcs numVerts matrix s" "parent s = PEnd"
    "out = ''Output:'' @ [newline] @ printArrayMatrix (M_curr s) numVerts"
    by (rule wtc_proc_Output)
  note inv = proc_reachable_inv[OF s(1) assms(1-3)]
  from proc.finished_edges[OF inv s(2) edges_square] s(3) show ?thesis
    by (simp add: printArrayMatrix_relation)
qed

section \<open>Properties\<close>

text \<open>
  C6: whatever the interleaving of the parent and its worker processes, when \<open>wtc_proc\<close> prints a
  result, it is the transitive closure of the input graph, cell by cell in the format of
  \<open>printArrayMatrix\<close>.
\<close>

theorem wtc_proc_prints_closure:
  assumes "0 < numProcs" and "binary rows_get numVerts matrix"
    and "\<And>k. k < numProcs \<Longrightarrow> create_ok env k"
    and "wtc_proc env sched numProcs numVerts matrix = Some (Output out)"
  shows "out = ''Output:'' @ [newline] @ render_relation numVerts ((edges rows_get numVerts matrix)\<^sup>+)"
  using assms by (rule proc_output_closure)

text \<open>A run of two workers on two vertices, the actors taking turns.\<close>

definition demo_schedule :: "actor list" where
  "demo_schedule =
     [Parent, Child 0, Parent, Child 1, Parent, Parent, Parent, Child 0, Parent, Child 0, Child 1,
     Parent, Child 0, Child 1, Child 0, Child 1, Child 0, Child 1, Child 0, Child 1, Child 0,
     Child 1, Parent, Child 0, Child 1, Parent, Child 1, Parent, Parent, Parent, Parent, Parent,
     Parent, Parent, Parent, Parent, Parent, Parent, Parent, Child 0, Parent, Child 0, Child 1,
     Parent, Child 0, Child 1, Child 0, Child 1, Child 0, Child 1, Child 0, Child 1, Child 0,
     Child 1, Parent, Child 0, Child 1, Parent, Child 1, Parent, Parent, Parent, Parent, Parent,
     Parent, Parent, Parent, Parent, Parent, Parent]"

lemma demo_run:
  "wtc_proc kind_env demo_schedule 2 2 [[0, 1], [1, 0]] =
     Some (Output (''Output:'' @ [newline] @ '' 1 1 '' @ [newline] @ '' 1 1 '' @ [newline] @ '' '' @ [newline]))"
  by code_simp

theorem wtc_proc_prints_closure_witness:
  "wtc_proc kind_env demo_schedule 2 2 [[0, 1], [1, 0]] =
     Some (Output (''Output:'' @ [newline] @ render_relation 2 ((edges rows_get 2 [[0, 1], [1, 0]])\<^sup>+)))"
proof -
  have bin: "binary rows_get 2 [[0, 1], [1, 0]]" by (simp add: binary_def rows_get_def less_2_cases_iff)
  show ?thesis
    using wtc_proc_prints_closure[OF _ bin _ demo_run] demo_run by (simp add: kind_env_def)
qed

text \<open>
  C22: \<open>wtc_proc\<close> always finishes: no schedule runs longer than the work bound of the start state,
  and every run, however it began, can be continued until the parent prints. There is no
  deadlock and no livelock.
\<close>

theorem wtc_proc_completes:
  assumes "0 < numProcs" and "binary rows_get numVerts matrix"
    and ok: "\<And>k. k < numProcs \<Longrightarrow> init_ok env k \<and> create_ok env k \<and> destroy_ok env k"
    and run: "run_sched (wtc_proc_step env numProcs numVerts) (child_step numProcs numVerts) numProcs
      begun (wtc_proc_start numVerts matrix) = Some s"
  shows "length begun \<le> work_left numProcs numVerts (wtc_proc_start numVerts matrix) \<and>
    (\<exists>rest out. wtc_proc env (begun @ rest) numProcs numVerts matrix = Some (Output out))"
proof -
  let ?par = "wtc_proc_step env numProcs numVerts" and ?chi = "child_step numProcs numVerts"
  let ?I = "proc_inv numProcs numVerts matrix"
  have start: "?I (wtc_proc_start numVerts matrix)" by (rule proc_start_inv[OF assms(1,2)])
  have inv: "?I t" if "?I s" "sys_step ?par ?chi numProcs s t" for s t
    using proc_inv_step[OF that(2,1) assms(1)] ok by blast
  have dec: "work_left numProcs numVerts t < work_left numProcs numVerts s"
    if "?I s" "sys_step ?par ?chi numProcs s t" for s t
    using that assms(1) proc.work_left_step[of False numProcs numVerts s "create_ok env" t]
    by (simp add: team_inv_def child_step_striped wtc_proc_step_striped)
  have prog: "\<exists>t. sys_step ?par ?chi numProcs s t" if "?I s" "parent s \<noteq> PEnd" for s
    using that proc.progress[of False numProcs numVerts s "create_ok env"]
    by (simp add: team_inv_def child_step_striped wtc_proc_step_striped)
  have "length begun \<le> work_left numProcs numVerts (wtc_proc_start numVerts matrix) \<and>
      (\<exists>rest t. run_sched ?par ?chi numProcs (begun @ rest) (wtc_proc_start numVerts matrix) = Some t
        \<and> parent t = PEnd)"
    by (rule complete_runs[where I = ?I, OF start inv dec prog run])
  moreover have "wtc_proc env sched numProcs numVerts matrix =
      Some (Output (''Output:'' @ [newline] @ printArrayMatrix (M_curr t) numVerts))"
    if "run_sched ?par ?chi numProcs sched (wtc_proc_start numVerts matrix) = Some t" "parent t = PEnd"
    for sched t
    using that ok by (simp add: wtc_proc_def)
  ultimately show ?thesis by blast
qed

theorem wtc_proc_completes_witness:
  "\<exists>rest out. wtc_proc kind_env ([Parent, Child 0] @ rest) 2 3 [[0,1,0],[0,0,1],[0,0,0]] = Some (Output out)"
proof -
  have bin: "binary rows_get 3 [[0,1,0],[0,0,1],[0,0,0]]"
    by (auto simp: binary_def rows_get_def numeral_3_eq_3 less_Suc_eq)
  obtain s where "run_sched (wtc_proc_step kind_env 2 3) (child_step 2 3) 2 [Parent, Child 0]
      (wtc_proc_start 3 [[0,1,0],[0,0,1],[0,0,0]]) = Some s"
    by (simp add: wtc_proc_start_def wtc_proc_step_def child_step_def kind_env_def goto_def)
  from wtc_proc_completes[OF _ bin _ this] show ?thesis by (simp add: kind_env_def)
qed



text \<open>Without workers nobody writes the current matrix.\<close>

lemma no_workers_zero:
  assumes "proc_reachable env 0 n A s"
  shows "M_curr s = zeroed n"
  using assms unfolding proc_reachable_def
proof (induction rule: rtranclp_induct)
  case base
  then show ?case by (simp add: wtc_proc_start_def)
next
  case (step s t)
  from step(2) have "M_curr t = M_curr s"
    by (cases rule: sys_step.cases)
      (auto simp: wtc_proc_step_def split: ppc.splits option.splits if_splits)
  with step show ?case by simp
qed

text \<open>
  With no worker process (an input whose first number is 0 or negative) the parent falls
  through its loops and prints a graph without edges, whatever the input graph is.
\<close>

theorem wtc_proc_without_workers:
  assumes "wtc_proc env sched 0 numVerts matrix = Some (Output out)"
  shows "out = ''Output:'' @ [newline] @ render_relation numVerts {}"
proof -
  from assms obtain s where s: "proc_reachable env 0 numVerts matrix s"
    "out = ''Output:'' @ [newline] @ printArrayMatrix (M_curr s) numVerts"
    by (rule wtc_proc_Output)
  have zero: "M_curr s = zeroed numVerts" by (rule no_workers_zero[OF s(1)])
  have "binary flat_get numVerts (zeroed numVerts)" "edges flat_get numVerts (zeroed numVerts) = {}"
    by (auto simp: binary_def edges_def shared_input(4))
  then show ?thesis using s(2) zero by (simp add: printArrayMatrix_relation)
qed

theorem wtc_proc_without_workers_witness:
  "wtc_proc kind_env (replicate 9 Parent) 0 1 [[1]] =
     Some (Output (''Output:'' @ [newline] @ render_relation 1 {}))"
proof -
  have run: "wtc_proc kind_env (replicate 9 Parent) 0 1 [[1]] =
      Some (Output (''Output:'' @ [newline] @ '' 0 '' @ [newline] @ '' '' @ [newline]))"
    by code_simp
  from run wtc_proc_without_workers[OF run] show ?thesis by simp
qed

text \<open>A worker that was never created never reports, and the parent never gets past it.\<close>

definition stuck_at :: "nat \<Rightarrow> proc_state \<Rightarrow> bool" where
  "stuck_at c s \<longleftrightarrow> childs s c = Unborn \<and> c2p s c = 0 \<and>
     (case parent s of
        PFork f \<Rightarrow> True | PRound m \<Rightarrow> m = 0 | PPost m k \<Rightarrow> m = 0 | PWait m k \<Rightarrow> m = 0 \<and> k \<le> c
      | _ \<Rightarrow> False)"

lemma stuck_at_reach:
  assumes "proc_reachable env N n A s" "\<not> create_ok env c" "c < N" "0 < n"
  shows "stuck_at c s"
  using assms(1) unfolding proc_reachable_def
proof (induction rule: rtranclp_induct)
  case base
  then show ?case by (simp add: stuck_at_def wtc_proc_start_def)
next
  case (step s t)
  from step(2) show ?case
  proof (cases rule: sys_step.cases)
    case par
    with step(3) assms(2-4) show ?thesis
      by (cases "parent s") (auto simp: stuck_at_def wtc_proc_step_def sem_wait_def
          le_less Suc_le_eq split: if_splits)
  next
    case (chi c')
    with step(3) have "c' \<noteq> c" by (auto simp: stuck_at_def child_step_def)
    with chi step(3) show ?thesis
      by (auto simp: stuck_at_def child_step_def split: cpc.splits option.splits if_splits)
  qed
qed

text \<open>
  The return value of \<open>fork\<close> is never compared with -1. When one \<open>fork\<close> fails, the parent of
  a non-empty graph waits for that child for ever: no schedule makes \<open>wtc_proc\<close> print.
\<close>

theorem wtc_proc_hangs_on_failed_fork:
  assumes "\<not> create_ok env c" "c < numProcs" "0 < numVerts"
  shows "wtc_proc env sched numProcs numVerts matrix \<noteq> Some (Output out)"
proof
  assume "wtc_proc env sched numProcs numVerts matrix = Some (Output out)"
  then obtain s where "proc_reachable env numProcs numVerts matrix s" "parent s = PEnd"
    by (rule wtc_proc_Output)
  with stuck_at_reach[OF this(1) assms] show False by (simp add: stuck_at_def)
qed

theorem wtc_proc_hangs_on_failed_fork_witness:
  "\<forall>sched out. wtc_proc (kind_env\<lparr>create_ok := (\<lambda>k. k = 0)\<rparr>) sched 2 1 [[1]] \<noteq> Some (Output out)"
  by (intro allI wtc_proc_hangs_on_failed_fork[of _ 1]) simp_all

end
