(* ===== verification/WtcThr.thy ===== *)
theory WtcThr
  imports WtcProc
begin

text \<open>
  \<open>wtc_thr.c\<close>: threads of one process, two arrays of rows, and mutexes that are all locked by the
  main thread before the first thread is created, so that an unlock releases and a lock waits.
  The environment says which \<open>pthread_create\<close> calls succeed.
\<close>

type_synonym thr_state = "(bool, int list list) team"

section \<open>The worker thread\<close>

definition Thr_cell :: "int list list \<Rightarrow> int list list \<Rightarrow> nat \<Rightarrow> nat \<Rightarrow> nat \<Rightarrow> int list list" where
  "Thr_cell prev cur k i j =
     (if (prev ! k ! j = 1 \<and> prev ! i ! k \<noteq> 0) \<or> prev ! i ! j = 1
      then cur[i := (cur ! i)[j := 1]] else cur)"

definition Thr_step :: "nat \<Rightarrow> nat \<Rightarrow> nat \<Rightarrow> thr_state \<Rightarrow> thr_state option" where
  "Thr_step numThr numVerts t s = (case childs s t of
     Unborn \<Rightarrow> None
   | ChK k \<Rightarrow> Some (if k < numVerts then goto t (ChWait k) s else goto t ChExit s)
   | ChWait k \<Rightarrow> (case mutex_lock (p2c s t) of
        None \<Rightarrow> None
      | Some b \<Rightarrow> Some (goto t (ChRow k t) (s\<lparr>p2c := (p2c s)(t := b)\<rparr>)))
   | ChRow k i \<Rightarrow> Some (if i < numVerts then goto t (ChCell k i 0) s else goto t (ChPost k) s)
   | ChCell k i j \<Rightarrow>
        Some (if j < numVerts
          then goto t (ChCell k i (j + 1)) (s\<lparr>M_curr := Thr_cell (M_prev s) (M_curr s) k i j\<rparr>)
          else goto t (ChRow k (i + numThr)) s)
   | ChPost k \<Rightarrow> Some (goto t (ChK (k + 1)) (s\<lparr>c2p := (c2p s)(t := mutex_unlock (c2p s t))\<rparr>))
   | ChExit \<Rightarrow> None)"

section \<open>The main thread\<close>

definition wtc_thr_step :: "os_env \<Rightarrow> nat \<Rightarrow> nat \<Rightarrow> thr_state \<Rightarrow> thr_state option" where
  "wtc_thr_step env nThr nVerts s = (case parent s of
     PFork k \<Rightarrow>
        Some (if k < nThr
          then (if create_ok env k then (goto k (ChK 0) s)\<lparr>parent := PFork (k + 1)\<rparr>
                else s\<lparr>parent := PAbort\<rparr>)
          else s\<lparr>parent := PRound 0\<rparr>)
   | PRound m \<Rightarrow> Some (if m < nVerts then s\<lparr>parent := PPost m 0\<rparr> else s\<lparr>parent := PJoin 0\<rparr>)
   | PPost m k \<Rightarrow>
        Some (if k < nThr
          then s\<lparr>p2c := (p2c s)(k := mutex_unlock (p2c s k)), parent := PPost m (k + 1)\<rparr>
          else s\<lparr>parent := PWait m 0\<rparr>)
   | PWait m k \<Rightarrow>
        (if k < nThr
         then (case mutex_lock (c2p s k) of
            None \<Rightarrow> None
          | Some b \<Rightarrow> Some (s\<lparr>c2p := (c2p s)(k := b), parent := PWait m (k + 1)\<rparr>))
         else Some (s\<lparr>parent := PRow m 0\<rparr>))
   | PRow m y \<Rightarrow> Some (if y < nVerts then s\<lparr>parent := PCell m y 0\<rparr> else s\<lparr>parent := PRound (m + 1)\<rparr>)
   | PCell m y z \<Rightarrow>
        Some (if z < nVerts
          then s\<lparr>M_prev := (M_prev s)[y := (M_prev s ! y)[z := M_curr s ! y ! z]],
                 parent := PCell m y (z + 1)\<rparr>
          else s\<lparr>parent := PRow m (y + 1)\<rparr>)
   | PJoin k \<Rightarrow>
        (if k < nThr
         then (if childs s k = ChExit then Some (s\<lparr>parent := PJoin (k + 1)\<rparr>) else None)
         else Some (s\<lparr>parent := PEnd\<rparr>))
   | _ \<Rightarrow> None)"

text \<open>The state when the first thread is about to be created: \<open>cmatrix\<close> is zero, every mutex locked.\<close>

definition zero_rows :: "nat \<Rightarrow> int list list" where
  "zero_rows nVerts = replicate nVerts (replicate nVerts 0)"

definition wtc_thr_start :: "nat \<Rightarrow> int list list \<Rightarrow> thr_state" where
  "wtc_thr_start nVerts matrix =
     \<lparr>parent = PFork 0, childs = (\<lambda>_. Unborn), p2c = (\<lambda>_. True), c2p = (\<lambda>_. True),
      M_prev = matrix, M_curr = zero_rows nVerts\<rparr>"

definition wtc_thr ::
  "os_env \<Rightarrow> actor list \<Rightarrow> nat \<Rightarrow> nat \<Rightarrow> int list list \<Rightarrow> wtc_result option" where
  "wtc_thr env sched nThr nVerts matrix =
     (case run_sched (wtc_thr_step env nThr nVerts) (Thr_step nThr nVerts) nThr sched
             (wtc_thr_start nVerts matrix) of
        None \<Rightarrow> None
      | Some s \<Rightarrow>
          (if parent s = PAbort then Some (Exit 255 [])
           else if parent s \<noteq> PEnd then None
           else Some (Output (''Output:'' @ [newline] @ printMatrix (M_prev s) nVerts))))"

section \<open>The program is an instance of the striped machine\<close>

interpretation thr: striped True mutex_unlock mutex_lock rows_get rows_put rows_wf
  by unfold_locales

lemma Thr_step_striped: "Thr_step = worker_step mutex_unlock mutex_lock rows_get rows_put"
proof (intro ext)
  fix N n c and s :: thr_state
  show "Thr_step N n c s = worker_step mutex_unlock mutex_lock rows_get rows_put N n c s"
    by (cases "childs s c")
      (simp_all add: Thr_step_def worker_step_def Thr_cell_def merge_cell_def rows_get_def rows_put_def)
qed

lemma wtc_thr_step_striped:
  assumes "\<And>k. k < N \<Longrightarrow> create_ok env k"
  shows "wtc_thr_step env N n = parent_step (\<lambda>_. True) True mutex_unlock mutex_lock rows_get rows_put N n"
proof
  fix s :: thr_state
  show "wtc_thr_step env N n s =
      parent_step (\<lambda>_. True) True mutex_unlock mutex_lock rows_get rows_put N n s"
    using assms by (cases "parent s")
      (auto simp: wtc_thr_step_def parent_step_def rows_get_def rows_put_def split: option.splits)
qed

definition thr_reachable :: "os_env \<Rightarrow> nat \<Rightarrow> nat \<Rightarrow> int list list \<Rightarrow> thr_state \<Rightarrow> bool" where
  "thr_reachable env N n A s \<longleftrightarrow>
     (sys_step (wtc_thr_step env N n) (Thr_step N n) N)\<^sup>*\<^sup>* (wtc_thr_start n A) s"

abbreviation thr_inv :: "nat \<Rightarrow> nat \<Rightarrow> int list list \<Rightarrow> thr_state \<Rightarrow> bool" where
  "thr_inv N n A \<equiv> team_inv True mutex_unlock rows_get rows_wf True N n (edges rows_get n A)"

lemma zero_rows:
  "rows_wf n (zero_rows n)" "binary rows_get n (zero_rows n)" "edges rows_get n (zero_rows n) = {}"
  by (auto simp: rows_wf_def zero_rows_def binary_def edges_def rows_get_def)

lemma thr_start_inv:
  assumes "0 < N" "rows_wf n A" "binary rows_get n A"
  shows "thr_inv N n A (wtc_thr_start n A)"
  using thr.team_inv_init[of N n A "zero_rows n" True] assms zero_rows
  by (simp add: team_init_def wtc_thr_start_def)

lemma thr_inv_step:
  assumes "sys_step (wtc_thr_step env N n) (Thr_step N n) N s t" "thr_inv N n A s" "0 < N"
    and "\<And>k. k < N \<Longrightarrow> create_ok env k"
  shows "thr_inv N n A t"
proof -
  have eq: "wtc_thr_step env N n = parent_step (\<lambda>_. True) True mutex_unlock mutex_lock rows_get rows_put N n"
    by (rule wtc_thr_step_striped) (rule assms(4))
  show ?thesis
    using assms(1) unfolding Thr_step_striped eq
    by (rule thr.team_inv_step[OF _ assms(2,3) _ edges_square]) simp
qed

lemma thr_reachable_inv:
  assumes "thr_reachable env N n A s" "0 < N" "rows_wf n A" "binary rows_get n A"
    and "\<And>k. k < N \<Longrightarrow> create_ok env k"
  shows "thr_inv N n A s"
  using assms(1) unfolding thr_reachable_def
  by (induction rule: rtranclp_induct) (auto intro: thr_start_inv thr_inv_step assms)

lemma wtc_thr_Output:
  assumes "wtc_thr env sched N n A = Some (Output out)"
  obtains s where "thr_reachable env N n A s" "parent s = PEnd"
    "out = ''Output:'' @ [newline] @ printMatrix (M_prev s) n"
  using assms by (auto simp: wtc_thr_def thr_reachable_def split: option.splits if_splits dest: run_sched_reach)

text \<open>A printed result is the closure of the matrix, whatever the schedule was.\<close>

lemma thr_output_closure:
  assumes "0 < nThr" and "rows_wf nVerts matrix" and "binary rows_get nVerts matrix"
    and "\<And>k. k < nThr \<Longrightarrow> create_ok env k"
    and "wtc_thr env sched nThr nVerts matrix = Some (Output out)"
  shows "out = ''Output:'' @ [newline] @ render_relation nVerts ((edges rows_get nVerts matrix)\<^sup>+)"
proof -
  from assms(5) obtain s where s: "thr_reachable env nThr nVerts matrix s" "parent s = PEnd"
    "out = ''Output:'' @ [newline] @ printMatrix (M_prev s) nVerts"
    by (rule wtc_thr_Output)
  note inv = thr_reachable_inv[OF s(1) assms(1-4)]
  from thr.finished_edges[OF inv s(2) edges_square] s(3) show ?thesis
    by (simp add: printMatrix_relation)
qed

section \<open>Properties\<close>

text \<open>
  C14: under every schedule, what \<open>wtc_thr\<close> prints from \<open>matrix\<close> after the last copy is the
  transitive closure of the input graph.
\<close>

theorem wtc_thr_prints_closure:
  assumes "0 < nThr" and "rows_wf nVerts matrix" and "binary rows_get nVerts matrix"
    and "\<And>k. k < nThr \<Longrightarrow> create_ok env k"
    and "wtc_thr env sched nThr nVerts matrix = Some (Output out)"
  shows "out = ''Output:'' @ [newline] @ render_relation nVerts ((edges rows_get nVerts matrix)\<^sup>+)"
  using assms by (rule thr_output_closure)

definition thr_schedule :: "actor list" where
  "thr_schedule =
     [Parent, Child 0, Parent, Child 1, Parent, Parent, Parent, Child 0, Parent, Child 0, Child 1,
     Parent, Child 0, Child 1, Child 0, Child 1, Child 0, Child 1, Child 0, Child 1, Child 0,
     Child 1, Parent, Child 0, Child 1, Parent, Child 1, Parent, Parent, Parent, Parent, Parent,
     Parent, Parent, Parent, Parent, Parent, Parent, Parent, Child 0, Parent, Child 0, Child 1,
     Parent, Child 0, Child 1, Child 0, Child 1, Child 0, Child 1, Child 0, Child 1, Child 0,
     Child 1, Parent, Child 0, Child 1, Parent, Child 1, Parent, Parent, Parent, Parent, Parent,
     Parent, Parent, Parent, Parent, Parent, Parent, Parent, Parent, Parent]"

lemma thr_demo_run:
  "wtc_thr kind_env thr_schedule 2 2 [[0, 1], [0, 0]] =
     Some (Output (''Output:'' @ [newline] @ '' 0 1 '' @ [newline] @ '' 0 0 '' @ [newline] @ '' '' @ [newline]))"
  by code_simp

theorem wtc_thr_prints_closure_witness:
  "wtc_thr kind_env thr_schedule 2 2 [[0, 1], [0, 0]] =
     Some (Output (''Output:'' @ [newline] @ render_relation 2 ((edges rows_get 2 [[0, 1], [0, 0]])\<^sup>+)))"
proof -
  have A: "rows_wf 2 [[0, 1], [0, 0]]" "binary rows_get 2 [[0, 1], [0, 0]]"
    by (auto simp: rows_wf_def binary_def rows_get_def less_2_cases_iff)
  show ?thesis
    using wtc_thr_prints_closure[OF _ A _ thr_demo_run] thr_demo_run by (simp add: kind_env_def)
qed

text \<open>
  C36: \<open>wtc_thr\<close> always finishes and joins all its threads: runs are bounded by the work of the
  start state and every begun run can be continued to the printed result.
\<close>

theorem wtc_thr_completes:
  assumes "0 < nThr" and "rows_wf nVerts matrix" and "binary rows_get nVerts matrix"
    and ok: "\<And>k. k < nThr \<Longrightarrow> create_ok env k"
    and run: "run_sched (wtc_thr_step env nThr nVerts) (Thr_step nThr nVerts) nThr
      begun (wtc_thr_start nVerts matrix) = Some s"
  shows "length begun \<le> work_left nThr nVerts (wtc_thr_start nVerts matrix) \<and>
    (\<exists>rest out. wtc_thr env (begun @ rest) nThr nVerts matrix = Some (Output out))"
proof -
  let ?par = "wtc_thr_step env nThr nVerts" and ?chi = "Thr_step nThr nVerts"
  let ?I = "thr_inv nThr nVerts matrix"
  have eq: "?par = parent_step (\<lambda>_. True) True mutex_unlock mutex_lock rows_get rows_put nThr nVerts"
    by (rule wtc_thr_step_striped) (rule ok)
  have inv: "?I t" if "?I s" "sys_step ?par ?chi nThr s t" for s t
    using thr_inv_step[OF that(2,1) assms(1)] ok by blast
  have dec: "work_left nThr nVerts t < work_left nThr nVerts s"
    if "?I s" "sys_step ?par ?chi nThr s t" for s t
    using that assms(1) thr.work_left_step[of True nThr nVerts s "\<lambda>_. True" t]
    by (simp add: team_inv_def Thr_step_striped eq)
  have prog: "\<exists>t. sys_step ?par ?chi nThr s t" if "?I s" "parent s \<noteq> PEnd" for s
    using that thr.progress[of True nThr nVerts s "\<lambda>_. True"]
    by (simp add: team_inv_def Thr_step_striped eq)
  have "length begun \<le> work_left nThr nVerts (wtc_thr_start nVerts matrix) \<and>
      (\<exists>rest t. run_sched ?par ?chi nThr (begun @ rest) (wtc_thr_start nVerts matrix) = Some t
        \<and> parent t = PEnd)"
    by (rule complete_runs[where I = ?I, OF thr_start_inv[OF assms(1-3)] inv dec prog run])
  moreover have "wtc_thr env sched nThr nVerts matrix =
      Some (Output (''Output:'' @ [newline] @ printMatrix (M_prev t) nVerts))"
    if "run_sched ?par ?chi nThr sched (wtc_thr_start nVerts matrix) = Some t" "parent t = PEnd"
    for sched t
    using that by (simp add: wtc_thr_def)
  ultimately show ?thesis by blast
qed

theorem wtc_thr_completes_witness:
  "\<exists>rest out. wtc_thr kind_env ([Parent, Child 0] @ rest) 3 2 [[0, 1], [0, 0]] = Some (Output out)"
proof -
  have A: "rows_wf 2 [[0, 1], [0, 0]]" "binary rows_get 2 [[0, 1], [0, 0]]"
    by (auto simp: rows_wf_def binary_def rows_get_def less_2_cases_iff)
  obtain s where "run_sched (wtc_thr_step kind_env 3 2) (Thr_step 3 2) 3 [Parent, Child 0]
      (wtc_thr_start 2 [[0, 1], [0, 0]]) = Some s"
    by (simp add: wtc_thr_start_def wtc_thr_step_def Thr_step_def kind_env_def goto_def)
  from wtc_thr_completes[OF _ A _ this] show ?thesis by (simp add: kind_env_def)
qed

text \<open>
  The mutexes of \<open>wtc_thr\<close> work as binary semaphores: every \<open>pthread_mutex_unlock\<close>, by the
  main thread on \<open>p2c\<close> or by a thread on \<open>c2p\<close>, finds its mutex locked, so no wake-up is lost; and
  once the loops are over and the threads are joined, when they are destroyed, all of them are
  still locked.
\<close>

theorem wtc_thr_mutex_discipline:
  assumes "0 < nThr" and "rows_wf nVerts matrix" and "binary rows_get nVerts matrix"
    and "\<And>k. k < nThr \<Longrightarrow> create_ok env k"
    and "thr_reachable env nThr nVerts matrix s" and "t < nThr"
  shows "(parent s = PPost m t \<longrightarrow> p2c s t) \<and> (childs s t = ChPost k \<longrightarrow> c2p s t)
    \<and> ((\<exists>q. parent s = PJoin q) \<or> parent s = PEnd \<longrightarrow> p2c s t \<and> c2p s t)"
proof -
  have inv: "thr_inv nThr nVerts matrix s" by (rule thr_reachable_inv[OF assms(5,1-4)])
  then have prot: "protocol True mutex_unlock True nThr nVerts s" by (simp add: team_inv_def)
  then have "worker_ok True mutex_unlock nThr nVerts s t" using assms(6) by (simp add: protocol_def)
  with thr.posts_hit_shut_gates[OF prot] assms(6) show ?thesis
    by (auto simp: worker_ok_def)
qed

theorem wtc_thr_mutex_discipline_witness:
  "\<exists>s. thr_reachable kind_env 1 1 [[1]] s \<and> parent s = PPost 0 0 \<and> p2c s 0"
proof -
  let ?as = "[Parent, Parent, Parent]"
  have "(case run_sched (wtc_thr_step kind_env 1 1) (Thr_step 1 1) 1 ?as (wtc_thr_start 1 [[1]]) of
      Some s \<Rightarrow> parent s = PPost 0 0 | None \<Rightarrow> False)"
    by code_simp
  then obtain s where run: "run_sched (wtc_thr_step kind_env 1 1) (Thr_step 1 1) 1 ?as (wtc_thr_start 1 [[1]]) = Some s"
    and pc: "parent s = PPost 0 0"
    by (auto split: option.splits)
  have reach: "thr_reachable kind_env 1 1 [[1]] s"
    using run_sched_reach[OF run] by (simp add: thr_reachable_def)
  have "p2c s 0"
    using wtc_thr_mutex_discipline[of 1 1 "[[1]]" kind_env s 0 0 0] reach pc
    by (simp add: rows_wf_def binary_def rows_get_def kind_env_def)
  with reach pc show ?thesis by blast
qed

end
