(* ===== verification/Bag.thy ===== *)
theory Bag
  imports CMatrix Gates
begin

text \<open>
  The protocol behind \<open>wtc_btproc\<close> and \<open>wtc_btthr\<close>: the rows of a round form a bag of tasks,
  a shared counter that the workers increment under a lock. The two programs differ in the
  loop tests, in the locking of the reset and in the way they stop; the flag \<open>thr\<close> selects
  the thread program. As in the striped machine every access to shared memory is one step.
\<close>

section \<open>The machine\<close>

text \<open>
  A worker: before its creation, the two reads of the outer test, the wait, the inner test,
  the lock of the queue, the read of the head, the read and the write of its increment, the
  unlock, the test of the row, cell \<open>(row, j)\<close>, the post, gone after \<open>exit\<close>, and stopped by
  undefined behaviour.
\<close>

datatype bpc =
    BUnborn | BOuter | BAgain | BWait | BInner | BLock | BDeq | BIncr nat | BStore nat nat
  | BUnlock nat | BTest nat | BCell nat nat | BPost | BExit | BUndef

text \<open>
  The parent: creating worker \<open>f\<close>, the start and the head of the round loop, lock, reset and
  unlock of the queue, releasing and collecting worker \<open>k\<close>, copying, the increment of
  \<open>iterator\<close>, the last release of worker \<open>k\<close>, destroying its mutexes, joining it.
\<close>

datatype qpc =
    QFork nat | QSet | QRound | QLock | QReset | QUnlock | QPost nat | QWait nat | QRow nat
  | QCell nat nat | QNext | QFinal nat | QDestroy nat | QJoin nat | QEnd | QAbort

record ('g, 'm) bag =
  boss :: qpc
  crew :: "nat \<Rightarrow> bpc"
  down :: "nat \<Rightarrow> 'g"
  up :: "nat \<Rightarrow> 'g"
  gone :: "nat \<Rightarrow> bool"
  qlock :: 'g
  queue :: nat
  iterator :: nat
  prev :: 'm
  cur :: 'm

definition move :: "nat \<Rightarrow> bpc \<Rightarrow> ('g, 'm) bag \<Rightarrow> ('g, 'm) bag" where
  "move c pc s = s\<lparr>crew := (crew s)(c := pc)\<rparr>"

lemma move_sel [simp]:
  "boss (move c pc s) = boss s" "crew (move c pc s) = (crew s)(c := pc)"
  "down (move c pc s) = down s" "up (move c pc s) = up s" "gone (move c pc s) = gone s"
  "qlock (move c pc s) = qlock s" "queue (move c pc s) = queue s"
  "iterator (move c pc s) = iterator s" "prev (move c pc s) = prev s" "cur (move c pc s) = cur s"
  by (simp_all add: move_def)

definition crew_step ::
  "bool \<Rightarrow> ('g \<Rightarrow> 'g) \<Rightarrow> ('g \<Rightarrow> 'g option) \<Rightarrow> (nat \<Rightarrow> 'm \<Rightarrow> nat \<Rightarrow> nat \<Rightarrow> int) \<Rightarrow>
    (nat \<Rightarrow> 'm \<Rightarrow> nat \<Rightarrow> nat \<Rightarrow> int \<Rightarrow> 'm) \<Rightarrow> nat \<Rightarrow> nat \<Rightarrow> ('g, 'm) bag \<Rightarrow> ('g, 'm) bag option" where
  "crew_step thr post pass get put n c s = (case crew s c of
     BUnborn \<Rightarrow> None
   | BOuter \<Rightarrow> Some (move c
        (if thr then (if iterator s < n then BAgain else BExit)
         else if queue s < n then BWait else BAgain) s)
   | BAgain \<Rightarrow> Some (move c (if iterator s < n then BWait else BExit) s)
   | BWait \<Rightarrow>
        (if thr \<and> gone s c then Some (move c BUndef s)
         else case pass (down s c) of
            None \<Rightarrow> None
          | Some g \<Rightarrow> Some (move c BInner (s\<lparr>down := (down s)(c := g)\<rparr>)))
   | BInner \<Rightarrow> Some (move c (if queue s < n then BLock else BPost) s)
   | BLock \<Rightarrow> (case pass (qlock s) of None \<Rightarrow> None | Some g \<Rightarrow> Some (move c BDeq (s\<lparr>qlock := g\<rparr>)))
   | BDeq \<Rightarrow> Some (move c (BIncr (queue s)) s)
   | BIncr row \<Rightarrow> Some (move c (BStore row (queue s)) s)
   | BStore row v \<Rightarrow> Some (move c (BUnlock row) (s\<lparr>queue := Suc v\<rparr>))
   | BUnlock row \<Rightarrow> Some (move c (BTest row) (s\<lparr>qlock := post (qlock s)\<rparr>))
   | BTest row \<Rightarrow> Some (move c (if row < n then BCell row 0 else if thr then BPost else BInner) s)
   | BCell row j \<Rightarrow>
        Some (if j < n
          then move c (BCell row (Suc j))
            (s\<lparr>cur := merge_cell get put n (prev s) (cur s) (iterator s) row j\<rparr>)
          else move c BInner s)
   | BPost \<Rightarrow> Some (move c BOuter (s\<lparr>up := (up s)(c := post (up s c))\<rparr>))
   | BExit \<Rightarrow> None
   | BUndef \<Rightarrow> None)"

definition boss_step ::
  "bool \<Rightarrow> (nat \<Rightarrow> bool) \<Rightarrow> ('g \<Rightarrow> 'g) \<Rightarrow> ('g \<Rightarrow> 'g option) \<Rightarrow> (nat \<Rightarrow> 'm \<Rightarrow> nat \<Rightarrow> nat \<Rightarrow> int) \<Rightarrow>
    (nat \<Rightarrow> 'm \<Rightarrow> nat \<Rightarrow> nat \<Rightarrow> int \<Rightarrow> 'm) \<Rightarrow> nat \<Rightarrow> nat \<Rightarrow> ('g, 'm) bag \<Rightarrow> ('g, 'm) bag option" where
  "boss_step thr spawns post pass get put N n s = (case boss s of
     QFork f \<Rightarrow>
        Some (if f < N
          then (if spawns f then move f BOuter s else s)\<lparr>boss := QFork (Suc f)\<rparr>
          else s\<lparr>boss := (if thr then QSet else QRound)\<rparr>)
   | QSet \<Rightarrow> (if thr then Some (s\<lparr>iterator := 0, boss := QRound\<rparr>) else None)
   | QRound \<Rightarrow>
        Some (s\<lparr>boss := (if iterator s < n then (if thr then QLock else QReset)
                       else if thr then QFinal 0 else QEnd)\<rparr>)
   | QLock \<Rightarrow>
        (if thr
         then (case pass (qlock s) of None \<Rightarrow> None | Some g \<Rightarrow> Some (s\<lparr>qlock := g, boss := QReset\<rparr>))
         else None)
   | QReset \<Rightarrow> Some (s\<lparr>queue := 0, boss := (if thr then QUnlock else QPost 0)\<rparr>)
   | QUnlock \<Rightarrow> (if thr then Some (s\<lparr>qlock := post (qlock s), boss := QPost 0\<rparr>) else None)
   | QPost k \<Rightarrow>
        Some (if k < N then s\<lparr>down := (down s)(k := post (down s k)), boss := QPost (Suc k)\<rparr>
              else s\<lparr>boss := QWait 0\<rparr>)
   | QWait k \<Rightarrow>
        (if k < N
         then (case pass (up s k) of
            None \<Rightarrow> None
          | Some g \<Rightarrow> Some (s\<lparr>up := (up s)(k := g), boss := QWait (Suc k)\<rparr>))
         else Some (s\<lparr>boss := QRow 0\<rparr>))
   | QRow y \<Rightarrow> Some (s\<lparr>boss := (if y < n then QCell y 0 else QNext)\<rparr>)
   | QCell y z \<Rightarrow>
        Some (if z < n
          then s\<lparr>prev := put n (prev s) y z (get n (cur s) y z), boss := QCell y (Suc z)\<rparr>
          else s\<lparr>boss := QRow (Suc y)\<rparr>)
   | QNext \<Rightarrow> Some (s\<lparr>iterator := Suc (iterator s), boss := QRound\<rparr>)
   | QFinal k \<Rightarrow>
        (if \<not> thr then None
         else Some (if k < N then s\<lparr>down := (down s)(k := post (down s k)), boss := QFinal (Suc k)\<rparr>
              else s\<lparr>boss := QDestroy 0\<rparr>))
   | QDestroy k \<Rightarrow>
        (if \<not> thr then None
         else Some (if k < N then s\<lparr>gone := (gone s)(k := (pass (down s k) \<noteq> None)), boss := QJoin k\<rparr>
              else s\<lparr>boss := QEnd\<rparr>))
   | QJoin k \<Rightarrow> (if thr \<and> crew s k = BExit then Some (s\<lparr>boss := QDestroy (Suc k)\<rparr>) else None)
   | QEnd \<Rightarrow> None
   | QAbort \<Rightarrow> None)"

definition bag_init :: "'g \<Rightarrow> 'g \<Rightarrow> 'm \<Rightarrow> 'm \<Rightarrow> ('g, 'm) bag" where
  "bag_init shut free P C =
     \<lparr>boss = QFork 0, crew = (\<lambda>_. BUnborn), down = (\<lambda>_. shut), up = (\<lambda>_. shut),
      gone = (\<lambda>_. False), qlock = free, queue = 0, iterator = 0, prev = P, cur = C\<rparr>"

section \<open>What the control states mean\<close>

text \<open>
  The counters in every control state of the parent. From the first collected worker of a round
  on the bag is empty, and it stays empty when the rounds are over.
\<close>

definition boss_ok :: "bool \<Rightarrow> nat \<Rightarrow> nat \<Rightarrow> nat \<Rightarrow> nat \<Rightarrow> qpc \<Rightarrow> bool" where
  "boss_ok thr N n it q pc = (case pc of
     QFork f \<Rightarrow> f \<le> N \<and> it = 0 \<and> q = 0
   | QSet \<Rightarrow> thr \<and> it = 0 \<and> q = 0
   | QRound \<Rightarrow> it \<le> n \<and> (it = n \<longrightarrow> n \<le> q)
   | QLock \<Rightarrow> thr \<and> it < n
   | QReset \<Rightarrow> it < n
   | QUnlock \<Rightarrow> thr \<and> it < n \<and> q = 0
   | QPost k \<Rightarrow> it < n \<and> k \<le> N
   | QWait k \<Rightarrow> it < n \<and> k \<le> N \<and> (0 < k \<longrightarrow> n \<le> q)
   | QRow y \<Rightarrow> it < n \<and> y \<le> n \<and> n \<le> q
   | QCell y z \<Rightarrow> it < n \<and> y < n \<and> z \<le> n \<and> n \<le> q
   | QNext \<Rightarrow> it < n \<and> n \<le> q
   | QFinal k \<Rightarrow> thr \<and> it = n \<and> n \<le> q \<and> k \<le> N
   | QDestroy k \<Rightarrow> thr \<and> it = n \<and> n \<le> q \<and> k \<le> N
   | QJoin k \<Rightarrow> thr \<and> it = n \<and> n \<le> q \<and> k < N
   | QEnd \<Rightarrow> it = n \<and> n \<le> q
   | QAbort \<Rightarrow> False)"

definition stage :: "bool \<Rightarrow> nat \<Rightarrow> nat \<Rightarrow> qpc \<Rightarrow> nat \<Rightarrow> phase" where
  "stage thr n it pc c = (case pc of
     QFork f \<Rightarrow> if c < f then Quiet 0 else Unspawned
   | QSet \<Rightarrow> Quiet 0
   | QRound \<Rightarrow> Quiet it
   | QLock \<Rightarrow> Quiet it
   | QReset \<Rightarrow> Quiet it
   | QUnlock \<Rightarrow> Quiet it
   | QPost k \<Rightarrow> if c < k then Live it else Quiet it
   | QWait k \<Rightarrow> if c < k then Quiet (Suc it) else Live it
   | QRow y \<Rightarrow> Quiet (Suc it)
   | QCell y z \<Rightarrow> Quiet (Suc it)
   | QNext \<Rightarrow> Quiet (Suc it)
   | QFinal k \<Rightarrow> if c < k then Live n else Quiet n
   | QDestroy k \<Rightarrow> Live n
   | QJoin k \<Rightarrow> Live n
   | QEnd \<Rightarrow> if thr then Live n else Quiet n
   | QAbort \<Rightarrow> Unspawned)"

definition resting :: "nat \<Rightarrow> bpc \<Rightarrow> nat \<Rightarrow> bool" where
  "resting n pc r \<longleftrightarrow> pc = BOuter \<or> pc = BAgain \<or> pc = BWait \<or> (n \<le> r \<and> (pc = BExit \<or> pc = BUndef))"

text \<open>A worker at work: after the last round it finds the bag empty and only reports.\<close>

definition working :: "nat \<Rightarrow> nat \<Rightarrow> bpc \<Rightarrow> nat \<Rightarrow> bool" where
  "working n q pc r \<longleftrightarrow> (case pc of
     BInner \<Rightarrow> True
   | BPost \<Rightarrow> n \<le> q
   | BLock \<Rightarrow> r < n
   | BDeq \<Rightarrow> r < n
   | BIncr row \<Rightarrow> r < n
   | BStore row v \<Rightarrow> r < n
   | BUnlock row \<Rightarrow> r < n
   | BTest row \<Rightarrow> r < n
   | BCell row j \<Rightarrow> r < n \<and> row < n \<and> j \<le> n
   | _ \<Rightarrow> False)"

text \<open>What a worker has read of the queue, as long as it holds the lock and afterwards.\<close>

definition ticket_ok :: "nat \<Rightarrow> bpc \<Rightarrow> bool" where
  "ticket_ok q pc \<longleftrightarrow> (case pc of
     BIncr row \<Rightarrow> row = q
   | BStore row v \<Rightarrow> row = q \<and> v = q
   | BUnlock row \<Rightarrow> row < q
   | BTest row \<Rightarrow> row < q
   | BCell row j \<Rightarrow> row < q
   | _ \<Rightarrow> True)"

definition crit :: "bpc \<Rightarrow> bool" where
  "crit pc \<longleftrightarrow> (case pc of BDeq \<Rightarrow> True | BIncr row \<Rightarrow> True | BStore row v \<Rightarrow> True | BUnlock row \<Rightarrow> True | _ \<Rightarrow> False)"

definition boss_crit :: "bool \<Rightarrow> qpc \<Rightarrow> bool" where
  "boss_crit thr pc \<longleftrightarrow> pc = QUnlock \<or> (thr \<and> pc = QReset)"

definition member_ok :: "'g \<Rightarrow> ('g \<Rightarrow> 'g) \<Rightarrow> bool \<Rightarrow> nat \<Rightarrow> ('g, 'm) bag \<Rightarrow> nat \<Rightarrow> bool" where
  "member_ok shut post thr n s c \<longleftrightarrow>
     handshake shut post (stage thr n (iterator s) (boss s) c) (crew s c = BUnborn)
       (resting n (crew s c)) (working n (queue s) (crew s c)) (down s c) (up s c)
     \<and> (up s c \<noteq> shut \<longrightarrow> n \<le> queue s) \<and> ticket_ok (queue s) (crew s c)
     \<and> (gone s c \<longrightarrow> stage thr n (iterator s) (boss s) c = Live n)"

text \<open>The lock of the queue: free and nobody inside, or held by exactly one.\<close>

definition lock_ok :: "'g \<Rightarrow> ('g \<Rightarrow> 'g) \<Rightarrow> bool \<Rightarrow> nat \<Rightarrow> ('g, 'm) bag \<Rightarrow> bool" where
  "lock_ok shut post thr N s \<longleftrightarrow>
     (qlock s = shut \<and> (boss_crit thr (boss s) \<or> (\<exists>c<N. crit (crew s c)))
      \<or> qlock s = post shut \<and> \<not> boss_crit thr (boss s) \<and> (\<forall>c<N. \<not> crit (crew s c)))
     \<and> (\<forall>c<N. \<forall>c'<N. crit (crew s c) \<and> crit (crew s c') \<longrightarrow> c = c')"

definition bag_protocol :: "'g \<Rightarrow> ('g \<Rightarrow> 'g) \<Rightarrow> bool \<Rightarrow> nat \<Rightarrow> nat \<Rightarrow> ('g, 'm) bag \<Rightarrow> bool" where
  "bag_protocol shut post thr N n s \<longleftrightarrow>
     boss_ok thr N n (iterator s) (queue s) (boss s) \<and>
     (\<forall>c<N. member_ok shut post thr n s c) \<and> lock_ok shut post thr N s"

section \<open>What the matrices hold\<close>

text \<open>A dequeued cell is pending while its worker has not passed it.\<close>

definition pending :: "bpc \<Rightarrow> nat \<Rightarrow> nat \<Rightarrow> bool" where
  "pending pc i j \<longleftrightarrow> (case pc of
     BUnlock row \<Rightarrow> i = row
   | BTest row \<Rightarrow> i = row
   | BCell row j' \<Rightarrow> i = row \<and> j' \<le> j
   | _ \<Rightarrow> False)"

definition filling ::
  "(nat \<Rightarrow> 'm \<Rightarrow> nat \<Rightarrow> nat \<Rightarrow> int) \<Rightarrow> nat \<Rightarrow> nat \<Rightarrow> (nat \<times> nat) set \<Rightarrow> ('g, 'm) bag \<Rightarrow> bool" where
  "filling get N n R s \<longleftrightarrow>
     edges get n (prev s) = closure_rounds (iterator s) R \<and>
     edges get n (cur s) \<subseteq> closure_rounds (Suc (iterator s)) R \<and>
     (\<forall>i j. (i, j) \<in> closure_rounds (Suc (iterator s)) R \<longrightarrow> i < queue s \<longrightarrow>
        (\<forall>c<N. \<not> pending (crew s c) i j) \<longrightarrow> (i, j) \<in> edges get n (cur s))"

definition bag_copied :: "(nat \<Rightarrow> 'm \<Rightarrow> nat \<Rightarrow> nat \<Rightarrow> int) \<Rightarrow> nat \<Rightarrow> ('g, 'm) bag \<Rightarrow> nat \<Rightarrow> nat \<Rightarrow> bool" where
  "bag_copied get n s y z \<longleftrightarrow> (\<forall>i<n. \<forall>j<n. i < y \<or> (i = y \<and> j < z) \<longrightarrow>
     get n (prev s) i j = get n (cur s) i j)"

definition both_hold ::
  "(nat \<Rightarrow> 'm \<Rightarrow> nat \<Rightarrow> nat \<Rightarrow> int) \<Rightarrow> nat \<Rightarrow> (nat \<times> nat) set \<Rightarrow> nat \<Rightarrow> ('g, 'm) bag \<Rightarrow> bool" where
  "both_hold get n R m s \<longleftrightarrow> edges get n (prev s) = closure_rounds m R \<and>
     edges get n (cur s) = (if m = 0 then {} else closure_rounds m R)"

definition bag_content ::
  "(nat \<Rightarrow> 'm \<Rightarrow> nat \<Rightarrow> nat \<Rightarrow> int) \<Rightarrow> nat \<Rightarrow> nat \<Rightarrow> (nat \<times> nat) set \<Rightarrow> ('g, 'm) bag \<Rightarrow> bool" where
  "bag_content get N n R s \<longleftrightarrow> (case boss s of
     QPost k \<Rightarrow> filling get N n R s
   | QWait k \<Rightarrow> filling get N n R s
   | QRow y \<Rightarrow> edges get n (cur s) = closure_rounds (Suc (iterator s)) R \<and> bag_copied get n s y 0
   | QCell y z \<Rightarrow> edges get n (cur s) = closure_rounds (Suc (iterator s)) R \<and> bag_copied get n s y z
   | QNext \<Rightarrow> both_hold get n R (Suc (iterator s)) s
   | QAbort \<Rightarrow> False
   | _ \<Rightarrow> both_hold get n R (iterator s) s)"

definition bag_shaped :: "(nat \<Rightarrow> 'm \<Rightarrow> nat \<Rightarrow> nat \<Rightarrow> int) \<Rightarrow> (nat \<Rightarrow> 'm \<Rightarrow> bool) \<Rightarrow> nat \<Rightarrow> ('g, 'm) bag \<Rightarrow> bool" where
  "bag_shaped get shape n s \<longleftrightarrow> shape n (prev s) \<and> shape n (cur s) \<and>
     binary get n (prev s) \<and> binary get n (cur s)"

definition bag_inv ::
  "'g \<Rightarrow> ('g \<Rightarrow> 'g) \<Rightarrow> (nat \<Rightarrow> 'm \<Rightarrow> nat \<Rightarrow> nat \<Rightarrow> int) \<Rightarrow> (nat \<Rightarrow> 'm \<Rightarrow> bool) \<Rightarrow> bool \<Rightarrow> nat \<Rightarrow> nat \<Rightarrow>
    (nat \<times> nat) set \<Rightarrow> ('g, 'm) bag \<Rightarrow> bool" where
  "bag_inv shut post get shape thr N n R s \<longleftrightarrow>
     bag_protocol shut post thr N n s \<and> bag_shaped get shape n s \<and> bag_content get N n R s"

section \<open>No row is handed out twice\<close>

definition has_row :: "bpc \<Rightarrow> nat \<Rightarrow> bool" where
  "has_row pc row \<longleftrightarrow> pc = BUnlock row \<or> pc = BTest row \<or> (\<exists>j. pc = BCell row j)"

definition rows_distinct :: "nat \<Rightarrow> ('g, 'm) bag \<Rightarrow> bool" where
  "rows_distinct N s \<longleftrightarrow> (\<forall>c<N. \<forall>c'<N. \<forall>row. has_row (crew s c) row \<and> has_row (crew s c') row \<longrightarrow> c = c')"

section \<open>After the last round\<close>

text \<open>
  A worker that has reported after the last round does not wait again, and only the destruction
  of a mutex can stop a worker.
\<close>

definition late_ok :: "'g \<Rightarrow> bool \<Rightarrow> nat \<Rightarrow> nat \<Rightarrow> ('g, 'm) bag \<Rightarrow> bool" where
  "late_ok shut thr N n s \<longleftrightarrow> (\<forall>c<N.
     (up s c \<noteq> shut \<and> iterator s = n \<longrightarrow> crew s c \<noteq> BWait) \<and> (crew s c = BUndef \<longrightarrow> gone s c) \<and>
     (gone s c \<longrightarrow> thr \<and> (boss s = QEnd \<or> (\<exists>k\<ge>c. boss s = QJoin k \<or> boss s = QDestroy (Suc k)))))"

text \<open>A scheduler that lets the parent destroy mutexes only when all workers have exited.\<close>

definition careful :: "nat \<Rightarrow> (('g, 'm) bag \<Rightarrow> ('g, 'm) bag option) \<Rightarrow> ('g, 'm) bag \<Rightarrow> ('g, 'm) bag option" where
  "careful N par s = (case boss s of
     QDestroy k \<Rightarrow> if \<forall>c<N. crew s c = BExit then par s else None
   | _ \<Rightarrow> par s)"

definition calm :: "bool \<Rightarrow> nat \<Rightarrow> ('g, 'm) bag \<Rightarrow> bool" where
  "calm thr N s \<longleftrightarrow> (\<forall>c<N. crew s c = BExit) \<or>
     ((\<forall>c<N. \<not> gone s c \<and> crew s c \<noteq> BUndef) \<and> (thr \<longrightarrow> boss s \<noteq> QEnd \<and> (\<forall>k. boss s \<noteq> QJoin k)))"

text \<open>Everything that holds in every reachable state.\<close>

definition bag_run_inv ::
  "'g \<Rightarrow> ('g \<Rightarrow> 'g) \<Rightarrow> (nat \<Rightarrow> 'm \<Rightarrow> nat \<Rightarrow> nat \<Rightarrow> int) \<Rightarrow> (nat \<Rightarrow> 'm \<Rightarrow> bool) \<Rightarrow> bool \<Rightarrow> nat \<Rightarrow> nat \<Rightarrow>
    (nat \<times> nat) set \<Rightarrow> ('g, 'm) bag \<Rightarrow> bool" where
  "bag_run_inv shut post get shape thr N n R s \<longleftrightarrow>
     bag_inv shut post get shape thr N n R s \<and> late_ok shut thr N n s \<and> rows_distinct N s"

section \<open>How much work is left\<close>

text \<open>
  Every row still in the bag is worth its cells and the synchronisation around them; a release
  carries the budget of the inner tests it allows.
\<close>

definition row_work :: "nat \<Rightarrow> nat" where
  "row_work n = n + 40"

definition crew_work :: "nat \<Rightarrow> nat \<Rightarrow> bpc \<Rightarrow> nat" where
  "crew_work n q pc = (case pc of
     BUnborn \<Rightarrow> 4
   | BOuter \<Rightarrow> 3
   | BAgain \<Rightarrow> 2
   | BWait \<Rightarrow> 1
   | BInner \<Rightarrow> if q < n then 20 else 9
   | BLock \<Rightarrow> 19
   | BDeq \<Rightarrow> 18
   | BIncr row \<Rightarrow> 17
   | BStore row v \<Rightarrow> 16
   | BUnlock row \<Rightarrow> if row < n then n + 26 else 11
   | BTest row \<Rightarrow> if row < n then n + 25 else 10
   | BCell row j \<Rightarrow> (n - j) + 21
   | BPost \<Rightarrow> 8
   | BExit \<Rightarrow> 0
   | BUndef \<Rightarrow> 0)"

definition boss_work :: "nat \<Rightarrow> nat \<Rightarrow> nat \<Rightarrow> qpc \<Rightarrow> nat" where
  "boss_work N n it pc =
    (let D = 40 * N + n * row_work n + n * (n + 3) + 40; T = 33 * N + 5; F = (n - Suc it) * D + T in case pc of
     QFork f \<Rightarrow> Suc n * D + T + (N - f) + 6
   | QSet \<Rightarrow> n * D + T + 5
   | QRound \<Rightarrow> (n - it) * D + T + 4
   | QLock \<Rightarrow> F + 40 * N + n * row_work n + n * (n + 3) + 30
   | QReset \<Rightarrow> F + 40 * N + n * row_work n + n * (n + 3) + 29
   | QUnlock \<Rightarrow> F + 40 * N + n * (n + 3) + 28
   | QPost k \<Rightarrow> F + 31 * (N - k) + N + n * (n + 3) + 25
   | QWait k \<Rightarrow> F + (N - k) + n * (n + 3) + 20
   | QRow y \<Rightarrow> F + (n - y) * (n + 3) + 10
   | QCell y z \<Rightarrow> F + (n - Suc y) * (n + 3) + (n - z) + 11
   | QNext \<Rightarrow> F + 8
   | QFinal k \<Rightarrow> 31 * (N - k) + 2 * N + 4
   | QDestroy k \<Rightarrow> 2 * (N - k) + 1
   | QJoin k \<Rightarrow> 2 * (N - k)
   | QEnd \<Rightarrow> 0
   | QAbort \<Rightarrow> 0)"

definition member_work :: "'g \<Rightarrow> nat \<Rightarrow> ('g, 'm) bag \<Rightarrow> nat \<Rightarrow> nat" where
  "member_work shut n s c = crew_work n (queue s) (crew s c) + (if down s c = shut then 0 else 30)"

definition bag_work :: "'g \<Rightarrow> nat \<Rightarrow> nat \<Rightarrow> ('g, 'm) bag \<Rightarrow> nat" where
  "bag_work shut N n s = boss_work N n (iterator s) (boss s) + (n - queue s) * row_work n
     + (\<Sum>c<N. member_work shut n s c)"

end
