(* ===== verification/BagProofs.thy ===== *)
theory BagProofs
  imports Bag
begin

text \<open>
  The proofs about the bag of tasks, for every kind of gate and every matrix layout: mutual
  exclusion on the queue, the hand-shakes, the functional correctness of the rounds, progress,
  and a measure that every step decreases.
\<close>

lemmas boss_ok_simps [simp] = boss_ok_def[of _ _ _ _ _ "QFork f" for f, simplified]
  boss_ok_def[of _ _ _ _ _ QSet, simplified] boss_ok_def[of _ _ _ _ _ QRound, simplified]
  boss_ok_def[of _ _ _ _ _ QLock, simplified] boss_ok_def[of _ _ _ _ _ QReset, simplified]
  boss_ok_def[of _ _ _ _ _ QUnlock, simplified] boss_ok_def[of _ _ _ _ _ "QPost k" for k, simplified]
  boss_ok_def[of _ _ _ _ _ "QWait k" for k, simplified] boss_ok_def[of _ _ _ _ _ "QRow y" for y, simplified]
  boss_ok_def[of _ _ _ _ _ "QCell y z" for y z, simplified] boss_ok_def[of _ _ _ _ _ QNext, simplified]
  boss_ok_def[of _ _ _ _ _ "QFinal k" for k, simplified] boss_ok_def[of _ _ _ _ _ "QDestroy k" for k, simplified]
  boss_ok_def[of _ _ _ _ _ "QJoin k" for k, simplified] boss_ok_def[of _ _ _ _ _ QEnd, simplified]
  boss_ok_def[of _ _ _ _ _ QAbort, simplified]

lemmas stage_simps [simp] = stage_def[of _ _ _ "QFork f" for f, simplified]
  stage_def[of _ _ _ QSet, simplified] stage_def[of _ _ _ QRound, simplified]
  stage_def[of _ _ _ QLock, simplified] stage_def[of _ _ _ QReset, simplified]
  stage_def[of _ _ _ QUnlock, simplified] stage_def[of _ _ _ "QPost k" for k, simplified]
  stage_def[of _ _ _ "QWait k" for k, simplified] stage_def[of _ _ _ "QRow y" for y, simplified]
  stage_def[of _ _ _ "QCell y z" for y z, simplified] stage_def[of _ _ _ QNext, simplified]
  stage_def[of _ _ _ "QFinal k" for k, simplified] stage_def[of _ _ _ "QDestroy k" for k, simplified]
  stage_def[of _ _ _ "QJoin k" for k, simplified] stage_def[of _ _ _ QEnd, simplified]
  stage_def[of _ _ _ QAbort, simplified]

lemma stage_finished:
  assumes "boss_ok thr N n it q pc" "n \<le> it" "stage thr n it pc c = Quiet r \<or> stage thr n it pc c = Live r"
  shows "n \<le> r"
  using assms by (cases pc) (auto split: if_splits)

lemma working_mono: "working n q pc r \<Longrightarrow> q \<le> q' \<Longrightarrow> working n q' pc r"
  by (cases pc) (auto simp: working_def)

lemma crit_working: "crit pc \<Longrightarrow> \<not> resting n pc r"
  by (cases pc) (auto simp: crit_def resting_def)

locale bag_machine = gate shut post pass + cmatrix get put shape
  for shut :: 'g and post :: "'g \<Rightarrow> 'g" and pass :: "'g \<Rightarrow> 'g option"
    and get :: "nat \<Rightarrow> 'm \<Rightarrow> nat \<Rightarrow> nat \<Rightarrow> int" and put :: "nat \<Rightarrow> 'm \<Rightarrow> nat \<Rightarrow> nat \<Rightarrow> int \<Rightarrow> 'm"
    and shape :: "nat \<Rightarrow> 'm \<Rightarrow> bool"
begin

section \<open>The protocol\<close>

lemma bag_protocol_init:
  "0 < N \<Longrightarrow> bag_protocol shut post thr N n (bag_init shut (post shut) P C)"
  by (simp add: bag_protocol_def bag_init_def member_ok_def lock_ok_def boss_crit_def crit_def ticket_ok_def)

lemma crew_frame:
  assumes "crew_step thr post pass get put n c s = Some t"
  shows "boss t = boss s" "iterator t = iterator s" "prev t = prev s" "gone t = gone s"
    and "c' \<noteq> c \<Longrightarrow> crew t c' = crew s c' \<and> down t c' = down s c' \<and> up t c' = up s c'"
  using assms by (auto simp: crew_step_def split: bpc.splits option.splits if_splits)

lemma crew_step_queue:
  assumes "crew_step thr post pass get put n c s = Some t"
  shows "queue t = (case crew s c of BStore row v \<Rightarrow> Suc v | _ \<Rightarrow> queue s)"
  using assms by (auto simp: crew_step_def split: bpc.splits option.splits if_splits)

lemma crew_step_queue_mono:
  assumes "crew_step thr post pass get put n c s = Some t" "ticket_ok (queue s) (crew s c)"
  shows "queue s \<le> queue t" "\<not> crit (crew s c) \<Longrightarrow> queue t = queue s"
  using crew_step_queue[OF assms(1)] assms(2) by (auto simp: ticket_ok_def crit_def split: bpc.splits)

lemma member_handshake:
  assumes "member_ok shut post thr n s c"
  shows "handshake shut post (stage thr n (iterator s) (boss s) c) (crew s c = BUnborn)
    (resting n (crew s c)) (working n (queue s) (crew s c)) (down s c) (up s c)"
  using assms by (simp add: member_ok_def)

lemma member_stage:
  assumes "member_ok shut post thr n s c"
  shows "(crew s c = BUnborn) \<or> (\<exists>r. stage thr n (iterator s) (boss s) c = Quiet r \<and> resting n (crew s c) r
      \<and> down s c = shut \<and> up s c = shut) \<or>
    (\<exists>r. stage thr n (iterator s) (boss s) c = Live r \<and>
      ((resting n (crew s c) r \<and> down s c = post shut \<and> up s c = shut) \<or>
       (working n (queue s) (crew s c) r \<and> down s c = shut \<and> up s c = shut) \<or>
       (resting n (crew s c) (Suc r) \<and> down s c = shut \<and> up s c = post shut)))"
  using member_handshake[OF assms] by (cases "stage thr n (iterator s) (boss s) c") auto

lemma member_working:
  assumes "member_ok shut post thr n s c"
    and "crew s c \<noteq> BUnborn" "\<And>r. \<not> resting n (crew s c) r"
  obtains r where "stage thr n (iterator s) (boss s) c = Live r" "working n (queue s) (crew s c) r"
    "down s c = shut" "up s c = shut"
  using member_stage[OF assms(1)] assms(2,3) by blast

lemma member_ok_work_move:
  assumes ok: "member_ok shut post thr n s c"
    and "\<And>r. \<not> resting n (crew s c) r" "crew s c \<noteq> BUnborn"
    and t: "boss t = boss s" "iterator t = iterator s" "gone t = gone s" "down t c = down s c" "up t c = up s c"
    and work: "\<And>r. working n (queue s) (crew s c) r \<Longrightarrow> working n (queue t) (crew t c) r"
    and ticket: "ticket_ok (queue t) (crew t c)"
  shows "member_ok shut post thr n t c"
proof -
  from member_working[OF ok assms(3,2)] obtain r where
    "stage thr n (iterator s) (boss s) c = Live r" "working n (queue s) (crew s c) r"
    "down s c = shut" "up s c = shut" .
  then show ?thesis using t work ticket ok by (simp add: member_ok_def)
qed

lemma member_ok_rest_move:
  assumes ok: "member_ok shut post thr n s c" and rest: "crew s c = BOuter \<or> crew s c = BAgain \<or> crew s c = BWait"
    and t: "boss t = boss s" "iterator t = iterator s" "gone t = gone s" "down t c = down s c" "up t c = up s c"
      "queue t = queue s"
    and new: "\<And>r. stage thr n (iterator s) (boss s) c = Quiet r \<or> stage thr n (iterator s) (boss s) c = Live r \<Longrightarrow>
      resting n (crew t c) r \<and> resting n (crew t c) (Suc r)"
  shows "member_ok shut post thr n t c"
proof -
  have nw: "\<not> working n (queue s) (crew s c) r" for r using rest by (auto simp: working_def)
  have "ticket_ok (queue t) (crew t c) \<and> crew t c \<noteq> BUnborn" if "resting n (crew t c) r" for r
    using that by (auto simp: resting_def ticket_ok_def)
  with member_stage[OF ok] nw new rest ok t show ?thesis
    by (auto simp: member_ok_def)
qed

lemma crew_step_ok:
  assumes ok: "member_ok shut post thr n s c" and boss: "boss_ok thr N n (iterator s) (queue s) (boss s)"
    and step: "crew_step thr post pass get put n c s = Some t"
  shows "member_ok shut post thr n t c"
proof -
  note same = crew_frame(1,2,4)[OF step]
  have fin: "n \<le> r" if "\<not> iterator s < n"
    "stage thr n (iterator s) (boss s) c = Quiet r \<or> stage thr n (iterator s) (boss s) c = Live r" for r
    using stage_finished[OF boss _ that(2)] that(1) by simp
  have move: "member_ok shut post thr n t c"
    if "\<And>r. \<not> resting n (crew s c) r" "crew s c \<noteq> BUnborn" "down t c = down s c" "up t c = up s c"
      "\<And>r. working n (queue s) (crew s c) r \<Longrightarrow> working n (queue t) (crew t c) r"
      "ticket_ok (queue t) (crew t c)"
    using member_ok_work_move[OF ok] that same by blast
  have tk: "ticket_ok (queue s) (crew s c)" using ok by (simp add: member_ok_def)
  show ?thesis
  proof (cases "crew s c")
    case BOuter
    with step show ?thesis
      by (intro member_ok_rest_move[OF ok _ same])
        (auto simp: crew_step_def resting_def dest: fin split: if_splits)
  next
    case BAgain
    with step show ?thesis
      by (intro member_ok_rest_move[OF ok _ same])
        (auto simp: crew_step_def resting_def dest: fin split: if_splits)
  next
    case BWait
    show ?thesis
    proof (cases "thr \<and> gone s c")
      case True
      then have "stage thr n (iterator s) (boss s) c = Live n" using ok by (simp add: member_ok_def)
      with True BWait step show ?thesis
        by (intro member_ok_rest_move[OF ok _ same]) (auto simp: crew_step_def resting_def)
    next
      case False
      with BWait step obtain g where g: "pass (down s c) = Some g"
        and t: "t = move c BInner (s\<lparr>down := (down s)(c := g)\<rparr>)"
        by (auto simp: crew_step_def split: option.splits)
      from handshake_down[OF member_handshake[OF ok] g] obtain r where
        "stage thr n (iterator s) (boss s) c = Live r" "up s c = shut" "g = shut" by blast
      with ok show ?thesis by (simp add: t member_ok_def working_def ticket_ok_def)
    qed
  next
    case BPost
    from member_working[OF ok] BPost obtain r where
      "stage thr n (iterator s) (boss s) c = Live r" "working n (queue s) BPost r" "down s c = shut" "up s c = shut"
      by (auto simp: resting_def)
    moreover from BPost step have "t = move c BOuter (s\<lparr>up := (up s)(c := post (up s c))\<rparr>)"
      by (simp add: crew_step_def)
    ultimately show ?thesis
      using ok by (auto simp: member_ok_def working_def resting_def ticket_ok_def)
  next
    case BInner
    from member_working[OF ok] BInner obtain r where r:
      "stage thr n (iterator s) (boss s) c = Live r" "down s c = shut" "up s c = shut"
      by (auto simp: resting_def)
    have "r < n" if "queue s < n"
      using r(1) boss that by (cases "boss s") (auto split: if_splits)
    with BInner step ok r show ?thesis
      by (auto simp: crew_step_def member_ok_def working_def ticket_ok_def)
  next
    case BLock
    with step tk show ?thesis
      by (intro move) (auto simp: crew_step_def working_def ticket_ok_def resting_def split: option.splits)
  next
    case (BTest row)
    with step tk show ?thesis
      by (intro move) (auto simp: crew_step_def working_def ticket_ok_def resting_def)
  next
    case (BCell row j)
    with step tk show ?thesis
      by (intro move) (auto simp: crew_step_def working_def ticket_ok_def resting_def split: if_splits)
  next
    case BDeq
    with step tk show ?thesis
      by (intro move) (auto simp: crew_step_def working_def ticket_ok_def resting_def)
  next
    case (BIncr row)
    with step tk show ?thesis
      by (intro move) (auto simp: crew_step_def working_def ticket_ok_def resting_def)
  next
    case (BStore row v)
    with step tk show ?thesis
      by (intro move) (auto simp: crew_step_def working_def ticket_ok_def resting_def)
  next
    case (BUnlock row)
    with step tk show ?thesis
      by (intro move) (auto simp: crew_step_def working_def ticket_ok_def resting_def)
  qed (use step in \<open>simp_all add: crew_step_def\<close>)
qed

lemma lock_exclusive:
  assumes "lock_ok shut post thr N s" "c < N" "c' < N" "crit (crew s c)" "crit (crew s c')"
  shows "c = c'"
  using assms by (simp add: lock_ok_def)

lemma crew_step_other_ok:
  assumes ok: "member_ok shut post thr n s c'" and okc: "member_ok shut post thr n s c"
    and lock: "lock_ok shut post thr N s" and c: "c < N" "c' < N" "c' \<noteq> c"
    and step: "crew_step thr post pass get put n c s = Some t"
  shows "member_ok shut post thr n t c'"
proof -
  note frame = crew_frame(1,2,4)[OF step] crew_frame(5)[OF step c(3)]
  have tk: "ticket_ok (queue s) (crew s c)" using okc by (simp add: member_ok_def)
  note q = crew_step_queue_mono[OF step tk]
  have "ticket_ok (queue t) (crew s c')"
  proof (cases "crit (crew s c)")
    case True
    then have "\<not> crit (crew s c')" using lock_exclusive[OF lock c(1,2)] c(3) by blast
    moreover have "ticket_ok (queue s) (crew s c')" using ok by (simp add: member_ok_def)
    ultimately show ?thesis using q(1) by (auto simp: ticket_ok_def crit_def split: bpc.splits)
  next
    case False
    with q(2) ok show ?thesis by (simp add: member_ok_def)
  qed
  with ok frame working_mono[OF _ q(1)] q(1) show ?thesis
    by (cases "stage thr n (iterator s) (boss s) c'") (auto simp: member_ok_def)
qed

text \<open>A worker enters the critical section through the gate and leaves it by posting.\<close>

lemma crew_step_lock_ok:
  assumes lock: "lock_ok shut post thr N s" and c: "c < N"
    and quiet: "boss_crit thr (boss s) \<Longrightarrow> \<not> crit (crew s c)"
    and step: "crew_step thr post pass get put n c s = Some t"
  shows "lock_ok shut post thr N t"
proof -
  note same = crew_frame(1)[OF step]
  have other: "crew t c' = crew s c'" if "c' \<noteq> c" for c' using crew_frame(5)[OF step that] by simp
  show ?thesis
  proof (cases "crit (crew s c) = crit (crew t c)")
    case True
    then have "crit (crew t c') = crit (crew s c')" for c' using other by (cases "c' = c") simp_all
    moreover have "qlock t = qlock s"
      using step True by (auto simp: crew_step_def crit_def split: bpc.splits option.splits if_splits)
    ultimately show ?thesis using lock by (simp add: lock_ok_def same)
  next
    case False
    show ?thesis
    proof (cases "crit (crew s c)")
      case True
      have q: "qlock s = shut" using lock True c post_shut_neq by (auto simp: lock_ok_def)
      from step True False have "qlock t = post (qlock s)"
        by (auto simp: crew_step_def crit_def split: bpc.splits option.splits if_splits)
      moreover have "\<not> crit (crew t c')" if "c' < N" for c'
        using lock_exclusive[OF lock c that True] False True other[of c'] by (cases "c' = c") auto
      moreover have "\<not> boss_crit thr (boss s)" using quiet True by blast
      ultimately show ?thesis by (simp add: lock_ok_def same q)
    next
      case out: False
      with False step obtain g where g: "crew s c = BLock" "pass (qlock s) = Some g" "t = move c BDeq (s\<lparr>qlock := g\<rparr>)"
        by (auto simp: crew_step_def crit_def split: bpc.splits option.splits if_splits)
      have "qlock s \<noteq> shut" using g(2) by (metis option.distinct(1) pass_shut)
      then have free: "qlock s = post shut" "\<not> boss_crit thr (boss s)" "\<And>c'. c' < N \<Longrightarrow> \<not> crit (crew s c')"
        using lock by (auto simp: lock_ok_def)
      have "g = shut" using g(2) free(1) by (simp add: pass_post)
      have "crit (crew t c') \<longleftrightarrow> c' = c" if "c' < N" for c'
        using free(3)[OF that] g(3) by (auto simp: crit_def)
      then show ?thesis using c \<open>g = shut\<close> g(3) by (auto simp: lock_ok_def crit_def)
    qed
  qed
qed

lemma boss_crit_quiet:
  assumes "bag_protocol shut post thr N n s" "boss_crit thr (boss s)" "c < N"
  shows "\<not> crit (crew s c)"
proof -
  have "member_ok shut post thr n s c" using assms by (simp add: bag_protocol_def)
  moreover have "stage thr n (iterator s) (boss s) c = Quiet (iterator s)"
    using assms(2) by (auto simp: boss_crit_def)
  ultimately show ?thesis using crit_working by (auto simp: member_ok_def)
qed

lemma bag_protocol_crew_step:
  assumes inv: "bag_protocol shut post thr N n s" and c: "c < N"
    and step: "crew_step thr post pass get put n c s = Some t"
  shows "bag_protocol shut post thr N n t"
proof -
  from inv have boss: "boss_ok thr N n (iterator s) (queue s) (boss s)" and lock: "lock_ok shut post thr N s"
    and ok: "\<And>c. c < N \<Longrightarrow> member_ok shut post thr n s c"
    by (auto simp: bag_protocol_def)
  have tk: "ticket_ok (queue s) (crew s c)" using ok[OF c] by (simp add: member_ok_def)
  have "boss_ok thr N n (iterator s) (queue t) (boss s)"
  proof (cases "crit (crew s c)")
    case True
    from member_stage[OF ok[OF c]] crit_working[OF True] True obtain r
      where "stage thr n (iterator s) (boss s) c = Live r" "working n (queue s) (crew s c) r"
      by (auto simp: crit_def)
    moreover from this(2) True have "r < n" by (auto simp: working_def crit_def split: bpc.splits)
    ultimately show ?thesis
      using boss crew_step_queue_mono(1)[OF step tk] by (cases "boss s") (auto split: if_splits)
  next
    case False
    with crew_step_queue_mono(2)[OF step tk] boss show ?thesis by simp
  qed
  moreover have "member_ok shut post thr n t c'" if "c' < N" for c'
    using crew_step_ok[OF ok[OF c] boss step]
      crew_step_other_ok[OF ok[OF that] ok[OF c] lock c that _ step] by (cases "c' = c") auto
  moreover have "lock_ok shut post thr N t"
    using crew_step_lock_ok[OF lock c boss_crit_quiet[OF inv _ c] step] by blast
  ultimately show ?thesis using crew_frame(1,2)[OF step] by (simp add: bag_protocol_def)
qed

lemma member_ok_boss_move:
  assumes "member_ok shut post thr n s c"
    and "crew t c = crew s c" "down t c = down s c" "up t c = up s c" "gone t c = gone s c" "queue t = queue s"
    and "stage thr n (iterator t) (boss t) c = stage thr n (iterator s) (boss s) c"
  shows "member_ok shut post thr n t c"
  using assms by (simp add: member_ok_def)

lemma member_quiet:
  assumes "member_ok shut post thr n s c" "stage thr n (iterator s) (boss s) c = Quiet r"
  shows "resting n (crew s c) r" "down s c = shut" "up s c = shut" "ticket_ok q (crew s c)"
  using assms by (auto simp: member_ok_def resting_def ticket_ok_def)

lemma member_ok_released:
  assumes ok: "member_ok shut post thr n s k" and quiet: "stage thr n (iterator s) (boss s) k = Quiet r"
    and live: "stage thr n (iterator s) pc k = Live r"
  shows "member_ok shut post thr n (s\<lparr>down := (down s)(k := post (down s k)), boss := pc\<rparr>) k"
  using ok quiet live member_quiet[OF ok quiet] by (auto simp: member_ok_def)

lemma bag_members_boss_step:
  assumes inv: "bag_protocol shut post thr N n s" and spawns: "\<And>c. c < N \<Longrightarrow> spawns c"
    and step: "boss_step thr spawns post pass get put N n s = Some t" and c: "c < N"
  shows "member_ok shut post thr n t c"
proof -
  from inv have boss: "boss_ok thr N n (iterator s) (queue s) (boss s)"
    and ok: "\<And>c. c < N \<Longrightarrow> member_ok shut post thr n s c"
    by (auto simp: bag_protocol_def)
  show ?thesis
  proof (cases "boss s")
    case (QFork f)
    with ok[OF c] step boss spawns c show ?thesis
      by (auto simp: boss_step_def member_ok_def resting_def ticket_ok_def less_Suc_eq split: if_splits)
  next
    case QReset
    with ok[OF c] step member_quiet[OF ok[OF c], of "iterator s"] show ?thesis
      by (auto simp: boss_step_def member_ok_def)
  next
    case (QPost k)
    show ?thesis
    proof (cases "k < N \<and> c = k")
      case True
      with QPost step member_ok_released[OF ok[OF c], of "iterator s" "QPost (Suc k)"] show ?thesis
        by (auto simp: boss_step_def split: if_splits)
    next
      case False
      with QPost step c show ?thesis
        by (intro member_ok_boss_move[OF ok[OF c]]) (auto simp: boss_step_def split: if_splits)
    qed
  next
    case (QFinal k)
    show ?thesis
    proof (cases "k < N \<and> c = k")
      case True
      with QFinal step member_ok_released[OF ok[OF c], of n "QFinal (Suc k)"] show ?thesis
        by (auto simp: boss_step_def split: if_splits)
    next
      case False
      with QFinal step c show ?thesis
        by (intro member_ok_boss_move[OF ok[OF c]]) (auto simp: boss_step_def split: if_splits)
    qed
  next
    case (QWait k)
    show ?thesis
    proof (cases "k < N \<and> c = k")
      case True
      with QWait step obtain g where g: "pass (up s k) = Some g"
        and t: "t = s\<lparr>up := (up s)(k := g), boss := QWait (Suc k)\<rparr>"
        by (auto simp: boss_step_def split: option.splits if_splits)
      have "stage thr n (iterator s) (boss s) k = Live (iterator s)" using QWait by simp
      with member_handshake[OF ok[OF c]] True
      have "handshake shut post (Live (iterator s)) (crew s k = BUnborn)
          (resting n (crew s k)) (working n (queue s) (crew s k)) (down s k) (up s k)" by simp
      from handshake_up[OF this g] ok[OF c] True QWait boss show ?thesis
        by (auto simp: t member_ok_def)
    next
      case False
      with QWait step c show ?thesis
        by (intro member_ok_boss_move[OF ok[OF c]]) (auto simp: boss_step_def split: if_splits option.splits)
    qed
  next
    case (QDestroy k)
    with ok[OF c] step boss show ?thesis
      by (auto simp: boss_step_def member_ok_def split: if_splits)
  next
    case QRound
    with boss step show ?thesis
      by (intro member_ok_boss_move[OF ok[OF c]]) (auto simp: boss_step_def split: if_splits)
  next
    case (QJoin k)
    with boss step show ?thesis
      by (intro member_ok_boss_move[OF ok[OF c]]) (auto simp: boss_step_def split: if_splits)
  next
    case QLock
    with step show ?thesis
      by (intro member_ok_boss_move[OF ok[OF c]]) (auto simp: boss_step_def split: option.splits if_splits)
  next
    case (QRow y)
    with step show ?thesis
      by (intro member_ok_boss_move[OF ok[OF c]]) (auto simp: boss_step_def split: if_splits)
  next
    case (QCell y z)
    with step show ?thesis
      by (intro member_ok_boss_move[OF ok[OF c]]) (auto simp: boss_step_def split: if_splits)
  next
    case QSet
    with step boss show ?thesis
      by (intro member_ok_boss_move[OF ok[OF c]]) (auto simp: boss_step_def split: if_splits)
  next
    case QUnlock
    with step show ?thesis
      by (intro member_ok_boss_move[OF ok[OF c]]) (auto simp: boss_step_def split: if_splits)
  next
    case QNext
    with step show ?thesis
      by (intro member_ok_boss_move[OF ok[OF c]]) (auto simp: boss_step_def split: if_splits)
  qed (use step in \<open>simp_all add: boss_step_def\<close>)
qed

lemma boss_step_crits:
  assumes "boss_step thr spawns post pass get put N n s = Some t"
  shows "crew t c = crew s c \<or> (crew t c = BOuter \<and> boss s = QFork c \<and> boss t = QFork (Suc c))"
  using assms by (auto simp: boss_step_def split: qpc.splits option.splits if_splits)

lemma boss_step_lock_ok:
  assumes inv: "bag_protocol shut post thr N n s"
    and step: "boss_step thr spawns post pass get put N n s = Some t"
  shows "lock_ok shut post thr N t"
proof -
  from inv have lock: "lock_ok shut post thr N s" and ok: "\<And>c. c < N \<Longrightarrow> member_ok shut post thr n s c"
    and boss: "boss_ok thr N n (iterator s) (queue s) (boss s)"
    by (auto simp: bag_protocol_def)
  consider "boss s = QLock" | "boss s = QUnlock" | f where "boss s = QFork f" | "boss s = QReset"
    | "boss s \<noteq> QLock" "boss s \<noteq> QUnlock" "\<forall>f. boss s \<noteq> QFork f" "boss s \<noteq> QReset" by blast
  then show ?thesis
  proof cases
    case 1
    with step obtain g where g: "pass (qlock s) = Some g" "t = s\<lparr>qlock := g, boss := QReset\<rparr>"
      by (auto simp: boss_step_def split: option.splits if_splits)
    have "qlock s \<noteq> shut" using g(1) by (metis option.distinct(1) pass_shut)
    then have "qlock s = post shut" "\<forall>c<N. \<not> crit (crew s c)" using lock by (auto simp: lock_ok_def)
    moreover have "thr" using boss 1 by simp
    ultimately show ?thesis using g by (simp add: lock_ok_def boss_crit_def pass_post)
  next
    case 2
    then have quiet: "\<forall>c<N. \<not> crit (crew s c)" using boss_crit_quiet[OF inv] by (simp add: boss_crit_def)
    have "qlock s = shut" using lock 2 by (auto simp: lock_ok_def boss_crit_def)
    moreover have "t = s\<lparr>qlock := post (qlock s), boss := QPost 0\<rparr>" using 2 step by (simp add: boss_step_def split: if_splits)
    ultimately show ?thesis using quiet by (simp add: lock_ok_def boss_crit_def)
  next
    case 3
    have "crit (crew t c) = crit (crew s c)" if "c < N" for c
    proof (cases "c < f")
      case False
      with 3 ok[OF that] have "crew s c = BUnborn" by (simp add: member_ok_def)
      with boss_step_crits[OF step, of c] show ?thesis by (auto simp: crit_def)
    next
      case True
      with boss_step_crits[OF step, of c] 3 show ?thesis by auto
    qed
    moreover have "qlock t = qlock s \<and> \<not> boss_crit thr (boss t) \<and> \<not> boss_crit thr (boss s)"
      using 3 step by (auto simp: boss_step_def boss_crit_def split: if_splits)
    ultimately show ?thesis using lock by (simp add: lock_ok_def) metis
  next
    case 4
    then show ?thesis using lock step by (auto simp: boss_step_def lock_ok_def boss_crit_def)
  next
    case 5
    then have "qlock t = qlock s" "crew t = crew s" "boss_crit thr (boss t) = boss_crit thr (boss s)"
      using step boss
      by (auto simp: boss_step_def boss_crit_def split: qpc.splits option.splits if_splits)
    then show ?thesis using lock by (simp add: lock_ok_def)
  qed
qed

lemma boss_step_boss_ok:
  assumes inv: "bag_protocol shut post thr N n s" and "0 < N"
    and step: "boss_step thr spawns post pass get put N n s = Some t"
  shows "boss_ok thr N n (iterator t) (queue t) (boss t)"
proof -
  from inv have boss: "boss_ok thr N n (iterator s) (queue s) (boss s)"
    and ok: "\<And>c. c < N \<Longrightarrow> member_ok shut post thr n s c"
    by (auto simp: bag_protocol_def)
  show ?thesis
  proof (cases "boss s")
    case (QWait k)
    show ?thesis
    proof (cases "k < N")
      case True
      with QWait step obtain g where g: "pass (up s k) = Some g"
        and t: "t = s\<lparr>up := (up s)(k := g), boss := QWait (Suc k)\<rparr>"
        by (auto simp: boss_step_def split: option.splits if_splits)
      have "up s k \<noteq> shut" using g by (metis option.distinct(1) pass_shut)
      then have "n \<le> queue s" using ok[OF True] by (simp add: member_ok_def)
      with boss QWait True t show ?thesis by simp
    next
      case False
      with QWait step boss \<open>0 < N\<close> show ?thesis by (auto simp: boss_step_def split: if_splits)
    qed
  qed (use boss step in \<open>auto simp: boss_step_def split: if_splits option.splits\<close>)
qed

lemma bag_protocol_boss_step:
  assumes "bag_protocol shut post thr N n s" "0 < N" "\<And>c. c < N \<Longrightarrow> spawns c"
    and "boss_step thr spawns post pass get put N n s = Some t"
  shows "bag_protocol shut post thr N n t"
  using boss_step_boss_ok[OF assms(1,2,4)] boss_step_lock_ok[OF assms(1,4)]
    bag_members_boss_step[OF assms(1,3,4)] by (simp add: bag_protocol_def)

section \<open>The rounds compute the closure\<close>

lemma live_round:
  assumes "bag_protocol shut post thr N n s" "stage thr n (iterator s) (boss s) c = Live r" "r < n"
  shows "r = iterator s \<and> ((\<exists>k. boss s = QPost k) \<or> (\<exists>k. boss s = QWait k))"
  using assms by (cases "boss s") (auto simp: bag_protocol_def split: if_splits)

lemma cell_writer:
  assumes inv: "bag_protocol shut post thr N n s" and c: "c < N" and pc: "crew s c = BCell row j"
  shows "iterator s < n" "row < n" "j \<le> n" "(\<exists>k. boss s = QPost k) \<or> (\<exists>k. boss s = QWait k)"
proof -
  have "member_ok shut post thr n s c" using inv c by (simp add: bag_protocol_def)
  from member_working[OF this] pc obtain r where
    "stage thr n (iterator s) (boss s) c = Live r" "working n (queue s) (BCell row j) r"
    by (auto simp: resting_def)
  with live_round[OF inv this(1)] show "iterator s < n" "row < n" "j \<le> n"
    "(\<exists>k. boss s = QPost k) \<or> (\<exists>k. boss s = QWait k)"
    by (auto simp: working_def)
qed

lemma crew_step_cur:
  assumes "crew_step thr post pass get put n c s = Some t"
  shows "cur t = (case crew s c of BCell row j \<Rightarrow>
    if j < n then merge_cell get put n (prev s) (cur s) (iterator s) row j else cur s | _ \<Rightarrow> cur s)"
  using assms by (auto simp: crew_step_def split: bpc.splits option.splits if_splits)

lemma bag_shaped_crew_step:
  assumes inv: "bag_protocol shut post thr N n s" "bag_shaped get shape n s" and c: "c < N"
    and step: "crew_step thr post pass get put n c s = Some t"
  shows "bag_shaped get shape n t"
proof (cases "\<exists>row j. crew s c = BCell row j \<and> j < n")
  case True
  then obtain row j where pc: "crew s c = BCell row j" "j < n" by blast
  with cell_writer[OF inv(1) c pc(1)] inv(2) crew_step_cur[OF step] crew_frame(3)[OF step]
  show ?thesis by (simp add: bag_shaped_def shape_merge_cell binary_merge_cell)
next
  case False
  then have "cur t = cur s" using crew_step_cur[OF step] by (auto split: bpc.splits)
  with inv(2) crew_frame(3)[OF step] show ?thesis by (simp add: bag_shaped_def)
qed

lemma pending_crew_step:
  assumes tk: "ticket_ok (queue s) (crew s c)" and step: "crew_step thr post pass get put n c s = Some t"
    and ij: "i < n" "j < n" "i < queue t" and settled: "\<not> pending (crew t c) i j"
  shows "(i < queue s \<and> \<not> pending (crew s c) i j) \<or> crew s c = BCell i j"
proof (cases "crew s c")
  case (BStore row v)
  with tk step settled ij show ?thesis
    by (auto simp: crew_step_def ticket_ok_def pending_def)
next
  case (BTest row)
  with step settled ij show ?thesis by (auto simp: crew_step_def pending_def split: if_splits)
next
  case (BCell row j')
  with step settled ij show ?thesis by (auto simp: crew_step_def pending_def split: if_splits)
next
  case (BUnlock row)
  with step settled ij show ?thesis by (auto simp: crew_step_def pending_def)
qed (use crew_step_queue[OF step] ij in \<open>simp_all add: pending_def\<close>)

lemma filling_crew_step:
  assumes inv: "bag_protocol shut post thr N n s" "bag_shaped get shape n s" and c: "c < N"
    and R: "R \<subseteq> {..<n} \<times> {..<n}" and fil: "filling get N n R s"
    and step: "crew_step thr post pass get put n c s = Some t"
  shows "filling get N n R t"
proof -
  let ?W = "closure_rounds (Suc (iterator s)) R"
  have square: "i < n \<and> j < n" if "(i, j) \<in> ?W" for i j
    using that closure_rounds_square[OF R, of "Suc (iterator s)"] by blast
  note frame = crew_frame(2,3)[OF step]
  have tk: "ticket_ok (queue s) (crew s c)" using inv(1) c by (simp add: bag_protocol_def member_ok_def)
  have new: "edges get n (cur t) = edges get n (cur s) \<union>
      (case crew s c of BCell row j \<Rightarrow> {(row, j)} \<inter> ?W | _ \<Rightarrow> {})"
  proof (cases "crew s c")
    case (BCell row j)
    note w = cell_writer[OF inv(1) c BCell]
    show ?thesis
    proof (cases "j < n")
      case True
      with merge_cell_edges[of n "cur s" row j "iterator s" "prev s"] w inv(2) fil BCell crew_step_cur[OF step]
      show ?thesis by (simp add: bag_shaped_def filling_def del: edges_iff)
    next
      case False
      with BCell crew_step_cur[OF step] square show ?thesis by auto
    qed
  qed (use crew_step_cur[OF step] in simp_all)
  have "(i, j) \<in> edges get n (cur t)"
    if W: "(i, j) \<in> ?W" and i: "i < queue t" and settled: "\<forall>c<N. \<not> pending (crew t c) i j" for i j
  proof (cases "crew s c = BCell i j")
    case True
    then show ?thesis using W unfolding new by simp
  next
    case False
    with pending_crew_step[OF tk step _ _ i] square[OF W] settled c
    have "i < queue s" "\<not> pending (crew s c) i j" by blast+
    moreover have "\<not> pending (crew s c') i j" if "c' < N" "c' \<noteq> c" for c'
      using settled crew_frame(5)[OF step that(2)] that(1) by auto
    ultimately have "(i, j) \<in> edges get n (cur s)"
      using fil W unfolding filling_def by blast
    then show ?thesis unfolding new by blast
  qed
  moreover have "edges get n (cur t) \<subseteq> ?W"
    using fil unfolding new filling_def by (auto simp del: edges_iff closure_rounds.simps split: bpc.splits)
  ultimately show ?thesis using fil frame unfolding filling_def by (simp del: edges_iff closure_rounds.simps)
qed

lemma bag_content_crew_step:
  assumes inv: "bag_protocol shut post thr N n s" "bag_shaped get shape n s" and c: "c < N"
    and R: "R \<subseteq> {..<n} \<times> {..<n}" and cont: "bag_content get N n R s"
    and step: "crew_step thr post pass get put n c s = Some t"
  shows "bag_content get N n R t"
proof (cases "(\<exists>k. boss s = QPost k) \<or> (\<exists>k. boss s = QWait k)")
  case True
  then have "filling get N n R s" using cont by (auto simp: bag_content_def)
  from filling_crew_step[OF inv c R this step] True crew_frame(1)[OF step]
  show ?thesis by (auto simp: bag_content_def)
next
  case False
  have "cur t = cur s"
    using crew_step_cur[OF step] cell_writer(4)[OF inv(1) c] False by (auto split: bpc.splits)
  with cont False crew_frame(1-3)[OF step] show ?thesis
    by (cases "boss s") (auto simp: bag_content_def both_hold_def bag_copied_def simp del: edges_iff)
qed

lemma boss_step_prev:
  assumes "boss_step thr spawns post pass get put N n s = Some t"
  shows "cur t = cur s"
    and "prev t = (case boss s of QCell y z \<Rightarrow>
      if z < n then put n (prev s) y z (get n (cur s) y z) else prev s | _ \<Rightarrow> prev s)"
  using assms by (auto simp: boss_step_def split: qpc.splits option.splits if_splits)

lemma bag_shaped_boss_step:
  assumes inv: "bag_protocol shut post thr N n s" "bag_shaped get shape n s"
    and step: "boss_step thr spawns post pass get put N n s = Some t"
  shows "bag_shaped get shape n t"
proof (cases "\<exists>y z. boss s = QCell y z \<and> z < n")
  case True
  then obtain y z where pc: "boss s = QCell y z" "z < n" by blast
  with inv(1) have y: "y < n" by (simp add: bag_protocol_def)
  have "get n (cur s) y z = 0 \<or> get n (cur s) y z = 1"
    using inv(2) y pc(2) by (intro binaryD[of get n]) (auto simp: bag_shaped_def)
  with inv(2) y pc boss_step_prev[OF step] show ?thesis
    by (simp add: bag_shaped_def shape_put binary_put)
next
  case False
  then have "prev t = prev s" using boss_step_prev(2)[OF step] by (auto split: qpc.splits)
  with inv(2) boss_step_prev(1)[OF step] show ?thesis by (simp add: bag_shaped_def)
qed

lemma collected_all:
  assumes inv: "bag_protocol shut post thr N n s" and pc: "boss s = QWait k" "\<not> k < N" "0 < N"
    and R: "R \<subseteq> {..<n} \<times> {..<n}" and fil: "filling get N n R s"
  shows "edges get n (cur s) = closure_rounds (Suc (iterator s)) R"
proof
  show "edges get n (cur s) \<subseteq> closure_rounds (Suc (iterator s)) R" using fil by (simp add: filling_def)
  show "closure_rounds (Suc (iterator s)) R \<subseteq> edges get n (cur s)"
  proof clarify
    fix i j assume W: "(i, j) \<in> closure_rounds (Suc (iterator s)) R"
    have "i < n" using W closure_rounds_square[OF R, of "Suc (iterator s)"] by blast
    moreover have "n \<le> queue s" using inv pc by (simp add: bag_protocol_def)
    moreover have "\<not> pending (crew s c) i j" if "c < N" for c
    proof -
      have "member_ok shut post thr n s c" using inv that by (simp add: bag_protocol_def)
      from member_quiet(1)[OF this] pc that show ?thesis
        by (auto simp: resting_def pending_def)
    qed
    ultimately show "(i, j) \<in> edges get n (cur s)" using fil W unfolding filling_def by auto
  qed
qed

lemma bag_content_boss_step:
  assumes inv: "bag_protocol shut post thr N n s" "bag_shaped get shape n s" and "0 < N"
    and R: "R \<subseteq> {..<n} \<times> {..<n}" and cont: "bag_content get N n R s"
    and step: "boss_step thr spawns post pass get put N n s = Some t"
  shows "bag_content get N n R t"
proof -
  have sub: "closure_rounds m R \<subseteq> closure_rounds (Suc m) R" for m
    using closure_round_mono[of "closure_rounds m R" m] by simp
  have fresh: "filling get N n R u"
    if "both_hold get n R (iterator s) s" "queue u = 0" "prev u = prev s" "cur u = cur s" "iterator u = iterator s" for u
    using that sub[of "iterator s"]
    by (auto simp: filling_def both_hold_def simp del: edges_iff closure_rounds.simps split: if_splits)
  show ?thesis
  proof (cases "boss s")
    case QReset
    then have both: "both_hold get n R (iterator s) s" using cont by (simp add: bag_content_def)
    from QReset step have t: "t = s\<lparr>queue := 0, boss := (if thr then QUnlock else QPost 0)\<rparr>"
      by (simp add: boss_step_def split: if_splits)
    have "filling get N n R t" by (rule fresh[OF both]) (simp_all add: t)
    with both t show ?thesis
      by (cases thr) (simp_all add: bag_content_def both_hold_def del: edges_iff)
  next
    case QUnlock
    then have both: "both_hold get n R (iterator s) s" using cont by (simp add: bag_content_def)
    from QUnlock step have t: "t = s\<lparr>qlock := post (qlock s), boss := QPost 0\<rparr>"
      by (simp add: boss_step_def split: if_splits)
    have "queue s = 0" using inv(1) QUnlock by (simp add: bag_protocol_def)
    then have "filling get N n R t" by (intro fresh[OF both]) (simp_all add: t)
    with t show ?thesis by (simp add: bag_content_def del: edges_iff)
  next
    case (QPost k)
    with cont step show ?thesis
      by (auto simp: boss_step_def bag_content_def filling_def simp del: edges_iff closure_rounds.simps split: if_splits)
  next
    case (QWait k)
    then have fil: "filling get N n R s" using cont by (simp add: bag_content_def)
    show ?thesis
    proof (cases "k < N")
      case True
      with QWait fil step show ?thesis
        by (auto simp: boss_step_def bag_content_def filling_def simp del: edges_iff closure_rounds.simps
            split: option.splits)
    next
      case False
      from collected_all[OF inv(1) QWait False \<open>0 < N\<close> R fil] QWait False step show ?thesis
        by (auto simp: boss_step_def bag_content_def bag_copied_def simp del: edges_iff closure_rounds.simps)
    qed
  next
    case (QRow y)
    show ?thesis
    proof (cases "y < n")
      case True
      with QRow cont step show ?thesis
        by (auto simp: boss_step_def bag_content_def bag_copied_def simp del: edges_iff closure_rounds.simps)
    next
      case False
      with QRow inv(1) have "y = n" by (simp add: bag_protocol_def)
      with QRow cont have c: "edges get n (cur s) = closure_rounds (Suc (iterator s)) R" "bag_copied get n s n 0"
        by (simp_all add: bag_content_def)
      from c(2) have "edges get n (prev s) = edges get n (cur s)" by (auto simp: bag_copied_def)
      with QRow False c(1) step show ?thesis
        by (auto simp: boss_step_def bag_content_def both_hold_def simp del: edges_iff closure_rounds.simps)
    qed
  next
    case (QCell y z)
    then have yz: "y < n" "z \<le> n" using inv(1) by (simp_all add: bag_protocol_def)
    have c: "edges get n (cur s) = closure_rounds (Suc (iterator s)) R" "bag_copied get n s y z"
      using QCell cont by (simp_all add: bag_content_def)
    show ?thesis
    proof (cases "z < n")
      case True
      with QCell step have t: "t = s\<lparr>prev := put n (prev s) y z (get n (cur s) y z), boss := QCell y (Suc z)\<rparr>"
        by (simp add: boss_step_def split: if_splits)
      have "bag_copied get n t y (Suc z)"
        using c(2) inv(2) yz True by (auto simp: t bag_copied_def bag_shaped_def get_put less_Suc_eq)
      with c(1) t show ?thesis by (simp add: bag_content_def del: edges_iff closure_rounds.simps)
    next
      case False
      with QCell step have t: "t = s\<lparr>boss := QRow (Suc y)\<rparr>" by (simp add: boss_step_def split: if_splits)
      have "bag_copied get n t (Suc y) 0"
        using c(2) False yz by (auto simp: t bag_copied_def less_Suc_eq)
      with c(1) t show ?thesis by (simp add: bag_content_def del: edges_iff closure_rounds.simps)
    qed
  next
    case QSet
    with cont step inv(1) show ?thesis
      by (auto simp: boss_step_def bag_content_def both_hold_def bag_protocol_def simp del: edges_iff)
  qed (use cont step in \<open>auto simp: boss_step_def bag_content_def both_hold_def simp del: edges_iff closure_rounds.simps
    split: if_splits option.splits\<close>)
qed

lemma bag_inv_init:
  assumes "0 < N" "shape n P" "shape n C" "binary get n P" "binary get n C" "edges get n C = {}"
  shows "bag_inv shut post get shape thr N n (edges get n P) (bag_init shut (post shut) P C)"
  using assms by (simp add: bag_inv_def bag_protocol_init)
    (simp add: bag_init_def bag_shaped_def bag_content_def both_hold_def)

lemma bag_inv_step:
  assumes step: "sys_step (boss_step thr spawns post pass get put N n)
      (crew_step thr post pass get put n) N s t"
    and inv: "bag_inv shut post get shape thr N n R s" and "0 < N" and spawns: "\<And>c. c < N \<Longrightarrow> spawns c"
    and R: "R \<subseteq> {..<n} \<times> {..<n}"
  shows "bag_inv shut post get shape thr N n R t"
proof -
  from inv have i: "bag_protocol shut post thr N n s" "bag_shaped get shape n s" "bag_content get N n R s"
    by (simp_all add: bag_inv_def)
  from step show ?thesis
  proof cases
    case par
    from bag_protocol_boss_step[OF i(1) \<open>0 < N\<close> spawns par] bag_shaped_boss_step[OF i(1,2) par]
      bag_content_boss_step[OF i(1,2) \<open>0 < N\<close> R i(3) par]
    show ?thesis by (simp add: bag_inv_def)
  next
    case (chi c)
    from bag_protocol_crew_step[OF i(1) chi] bag_shaped_crew_step[OF i(1,2) chi]
      bag_content_crew_step[OF i(1,2) chi(1) R i(3) chi(2)]
    show ?thesis by (simp add: bag_inv_def)
  qed
qed

lemma bag_finished_edges:
  assumes "bag_inv shut post get shape thr N n R s" "boss s = QEnd" "R \<subseteq> {..<n} \<times> {..<n}"
  shows "edges get n (prev s) = R\<^sup>+" "edges get n (cur s) = R\<^sup>+" "binary get n (prev s)" "binary get n (cur s)"
proof -
  from assms have "both_hold get n R (iterator s) s" by (simp add: bag_inv_def bag_content_def)
  moreover from assms have "iterator s = n" by (simp add: bag_inv_def bag_protocol_def)
  moreover from assms have bin: "binary get n (prev s)" "binary get n (cur s)"
    by (simp_all add: bag_inv_def bag_shaped_def)
  ultimately have both: "edges get n (prev s) = closure_rounds n R" "edges get n (cur s) = (if n = 0 then {} else closure_rounds n R)"
    by (simp_all add: both_hold_def)
  have "closure_rounds 0 R = {}" if "n = 0" using assms(3) that by auto
  with both closure_rounds_correct[OF assms(3)]
  show "edges get n (prev s) = R\<^sup>+" "edges get n (cur s) = R\<^sup>+"
    by (auto simp del: edges_iff split: if_splits)
  show "binary get n (prev s)" "binary get n (cur s)" by (fact bin)+
qed

end

end
