(* ===== verification/BagRuns.thy ===== *)
theory BagRuns
  imports BagProofs
begin

text \<open>
  Whole runs of the bag of tasks: no row is handed out twice, a careful scheduler never blocks
  before the end, and every step uses up work, so that every run ends.
\<close>

context bag_machine begin

section \<open>No row is handed out twice\<close>

lemma has_row_dequeued: "ticket_ok q pc \<Longrightarrow> has_row pc row \<Longrightarrow> row < q"
  by (auto simp: ticket_ok_def has_row_def)

lemma rows_distinct_crew_step:
  assumes inv: "bag_protocol shut post thr N n s" and c: "c < N" and dist: "rows_distinct N s"
    and step: "crew_step thr post pass get put n c s = Some t"
  shows "rows_distinct N t"
proof -
  have tk: "ticket_ok (queue s) (crew s c')" if "c' < N" for c'
    using inv that by (simp add: bag_protocol_def member_ok_def)
  have old: "has_row (crew s c) row \<or> row = queue s" if "has_row (crew t c) row" for row
    using that step tk[OF c]
    by (auto simp: crew_step_def has_row_def ticket_ok_def split: bpc.splits option.splits if_splits)
  have other: "crew t c' = crew s c'" if "c' \<noteq> c" for c' using crew_frame(5)[OF step that] by simp
  have "\<not> has_row (crew t c') row" if "has_row (crew t c) row" "c' < N" "c' \<noteq> c" for c' row
    using old[OF that(1)] has_row_dequeued[OF tk[OF that(2)]] dist c that(2,3) other[OF that(3)]
    by (auto simp: rows_distinct_def)
  then show ?thesis
    using dist other unfolding rows_distinct_def by metis
qed

lemma rows_distinct_boss_step:
  assumes "rows_distinct N s" "boss_step thr spawns post pass get put N n s = Some t"
  shows "rows_distinct N t"
proof -
  have "crew t c = crew s c \<or> (\<forall>row. \<not> has_row (crew t c) row)" for c
    using boss_step_crits[OF assms(2), of c] by (auto simp: has_row_def)
  then show ?thesis using assms(1) unfolding rows_distinct_def by metis
qed

lemma late_ok_crew_step:
  assumes inv: "bag_protocol shut post thr N n s" and c: "c < N" and late: "late_ok shut thr N n s"
    and step: "crew_step thr post pass get put n c s = Some t"
  shows "late_ok shut thr N n t"
proof -
  note frame = crew_frame(1,2,4)[OF step]
  have ok: "up s c \<noteq> shut \<Longrightarrow> n \<le> queue s" using inv c by (simp add: bag_protocol_def member_ok_def)
  have "(up t c' \<noteq> shut \<and> iterator t = n \<longrightarrow> crew t c' \<noteq> BWait) \<and> (crew t c' = BUndef \<longrightarrow> gone t c')" if "c' < N" for c'
  proof (cases "c' = c")
    case True
    have "(up s c \<noteq> shut \<and> iterator s = n \<longrightarrow> crew s c \<noteq> BWait) \<and> (crew s c = BUndef \<longrightarrow> gone s c)"
      using late c by (simp add: late_ok_def)
    with True step ok frame show ?thesis
      by (cases "crew s c") (auto simp: crew_step_def split: option.splits if_splits)
  next
    case False
    with late that crew_frame(5)[OF step False] frame show ?thesis by (simp add: late_ok_def)
  qed
  with late frame show ?thesis by (simp add: late_ok_def)
qed

lemma late_ok_boss_step:
  assumes inv: "bag_protocol shut post thr N n s" and late: "late_ok shut thr N n s"
    and step: "boss_step thr spawns post pass get put N n s = Some t"
  shows "late_ok shut thr N n t"
  unfolding late_ok_def
proof (intro allI impI)
  fix c assume c: "c < N"
  from inv c have ok: "member_ok shut post thr n s c" and boss: "boss_ok thr N n (iterator s) (queue s) (boss s)"
    by (simp_all add: bag_protocol_def)
  from late c have wait: "up s c \<noteq> shut \<and> iterator s = n \<longrightarrow> crew s c \<noteq> BWait"
    and undef: "crew s c = BUndef \<longrightarrow> gone s c"
    and gone: "gone s c \<longrightarrow> thr \<and> (boss s = QEnd \<or> (\<exists>k\<ge>c. boss s = QJoin k \<or> boss s = QDestroy (Suc k)))"
    by (simp_all add: late_ok_def)
  have crew: "crew t c = crew s c \<or> crew t c = BOuter" using boss_step_crits[OF step] by blast
  have later: "gone t c \<and> thr \<and> (\<exists>k\<ge>c. boss t = QJoin k \<or> boss t = QDestroy (Suc k)) \<or> boss t = QEnd \<and> thr \<and> gone t c"
    if "gone s c"
    using gone that step by (auto simp: boss_step_def split: if_splits)
  have destroyed: "thr \<and> boss t = QJoin c" if "gone t c" "\<not> gone s c"
    using that step boss by (auto simp: boss_step_def split: qpc.splits option.splits if_splits)
  have "crew t c \<noteq> BWait" if "up t c \<noteq> shut" "iterator t = n"
  proof (cases "up t c = up s c \<and> iterator t = iterator s")
    case True
    with that wait crew show ?thesis by auto
  next
    case False
    then consider "boss s = QSet" | "boss s = QNext" | k where "boss s = QWait k"
      using step by (auto simp: boss_step_def split: qpc.splits option.splits if_splits)
    then show ?thesis
    proof cases
      case 1
      with ok step that(1) show ?thesis by (auto simp: boss_step_def member_ok_def split: if_splits)
    next
      case 2
      with ok step that(1) show ?thesis by (auto simp: boss_step_def member_ok_def split: if_splits)
    next
      case 3
      with boss step that(2) show ?thesis by (auto simp: boss_step_def split: option.splits if_splits)
    qed
  qed
  moreover have "crew t c = BUndef \<longrightarrow> gone t c" using crew undef later by auto
  ultimately show "(up t c \<noteq> shut \<and> iterator t = n \<longrightarrow> crew t c \<noteq> BWait) \<and> (crew t c = BUndef \<longrightarrow> gone t c) \<and>
      (gone t c \<longrightarrow> thr \<and> (boss t = QEnd \<or> (\<exists>k\<ge>c. boss t = QJoin k \<or> boss t = QDestroy (Suc k))))"
    using later destroyed by blast
qed

section \<open>Progress\<close>

lemma crew_moves:
  assumes inv: "bag_protocol shut post thr N n s" and c: "c < N"
    and live: "stage thr n (iterator s) (boss s) c = Live r"
    and pc: "crew s c \<noteq> BExit" "crew s c \<noteq> BUndef" "\<not> (up s c \<noteq> shut \<and> crew s c = BWait)"
    and boss: "\<not> boss_crit thr (boss s)"
  shows "\<exists>c' t. c' < N \<and> crew_step thr post pass get put n c' s = Some t"
proof (cases "crew_step thr post pass get put n c s")
  case None
  have ok: "member_ok shut post thr n s c" using inv c by (simp add: bag_protocol_def)
  have "crew s c \<noteq> BUnborn" using member_handshake[OF ok] live by (auto simp: resting_def working_def)
  with None pc have cases: "(crew s c = BWait \<and> pass (down s c) = None) \<or> (crew s c = BLock \<and> pass (qlock s) = None)"
    by (auto simp: crew_step_def split: bpc.splits option.splits if_splits)
  have "crew s c \<noteq> BWait"
  proof
    assume w: "crew s c = BWait"
    with member_handshake[OF ok] live have "(down s c = post shut \<and> up s c = shut) \<or> up s c = post shut"
      by (auto simp: working_def)
    with w pc(3) post_shut_neq have "down s c = post shut" by auto
    with w cases show False by (simp add: pass_post)
  qed
  with cases have "pass (qlock s) = None" by blast
  then have "qlock s \<noteq> post shut" using pass_post by auto
  then obtain c' where c': "c' < N" "crit (crew s c')"
    using inv boss by (auto simp: bag_protocol_def lock_ok_def)
  then have "\<exists>t. crew_step thr post pass get put n c' s = Some t"
    by (auto simp: crew_step_def crit_def split: bpc.splits)
  with c' show ?thesis by blast
qed (use c in blast)

lemma careful_progress:
  assumes inv: "bag_protocol shut post thr N n s" and late: "late_ok shut thr N n s" and calm: "calm thr N s"
    and unfinished: "boss s \<noteq> QEnd"
  shows "\<exists>t. sys_step (careful N (boss_step thr spawns post pass get put N n)) (crew_step thr post pass get put n) N s t"
proof (cases "careful N (boss_step thr spawns post pass get put N n) s")
  case (Some t)
  then show ?thesis by (blast intro: sys_step.par)
next
  case None
  have boss: "boss_ok thr N n (iterator s) (queue s) (boss s)"
    and ok: "\<And>c. c < N \<Longrightarrow> member_ok shut post thr n s c"
    using inv by (simp_all add: bag_protocol_def)
  have "\<exists>c t. c < N \<and> crew_step thr post pass get put n c s = Some t"
  proof (cases "boss s")
    case QLock
    with None boss have "pass (qlock s) = None"
      by (auto simp: careful_def boss_step_def split: option.splits if_splits)
    then have "qlock s \<noteq> post shut" using pass_post by auto
    then obtain c where c: "c < N" "crit (crew s c)"
      using inv QLock by (auto simp: bag_protocol_def lock_ok_def boss_crit_def)
    then have "\<exists>t. crew_step thr post pass get put n c s = Some t"
      by (auto simp: crew_step_def crit_def split: bpc.splits)
    with c show ?thesis by blast
  next
    case (QWait k)
    with None have k: "k < N" "pass (up s k) = None"
      by (auto simp: careful_def boss_step_def split: option.splits if_splits)
    have live: "stage thr n (iterator s) (boss s) k = Live (iterator s)" using QWait by simp
    have "up s k \<noteq> post shut" using k(2) pass_post by auto
    with member_handshake[OF ok[OF k(1)]] live
    have "up s k = shut" "resting n (crew s k) (iterator s) \<or> working n (queue s) (crew s k) (iterator s)" by auto
    moreover have "iterator s < n" using boss QWait by simp
    ultimately have "crew s k \<noteq> BExit" "crew s k \<noteq> BUndef" "up s k = shut"
      by (auto simp: resting_def working_def)
    with crew_moves[OF inv k(1) live] QWait show ?thesis by (simp add: boss_crit_def)
  next
    case (QDestroy k)
    with None boss obtain c where c: "c < N" "crew s c \<noteq> BExit"
      by (auto simp: careful_def boss_step_def split: if_splits)
    moreover have "crew s c \<noteq> BUndef" using calm c by (auto simp: calm_def)
    moreover have "\<not> (up s c \<noteq> shut \<and> crew s c = BWait)" using late c(1) boss QDestroy by (auto simp: late_ok_def)
    ultimately show ?thesis
      using crew_moves[OF inv c(1), of n] QDestroy by (auto simp: boss_crit_def)
  next
    case (QJoin k)
    with None boss have k: "k < N" "crew s k \<noteq> BExit" "thr"
      by (auto simp: careful_def boss_step_def split: if_splits)
    with calm QJoin show ?thesis by (auto simp: calm_def)
  qed (use None unfinished boss in \<open>auto simp: careful_def boss_step_def\<close>)
  then show ?thesis by (blast intro: sys_step.chi)
qed

lemma calm_boss_step:
  assumes "bag_protocol shut post thr N n s" "calm thr N s"
    and "careful N (boss_step thr spawns post pass get put N n) s = Some t"
  shows "calm thr N t"
proof -
  have step: "boss_step thr spawns post pass get put N n s = Some t"
    and destroy: "boss s = QDestroy k \<Longrightarrow> \<forall>c<N. crew s c = BExit" for k
    using assms(3) by (auto simp: careful_def split: qpc.splits if_splits)
  show ?thesis
  proof (cases "\<forall>c<N. crew s c = BExit")
    case True
    have "crew t c = BExit" if "c < N" for c
      using boss_step_crits[OF step, of c] True that assms(1) by (auto simp: bag_protocol_def member_ok_def resting_def)
    then show ?thesis by (simp add: calm_def)
  next
    case False
    then have "\<forall>c<N. \<not> gone s c \<and> crew s c \<noteq> BUndef" "thr \<longrightarrow> boss s \<noteq> QEnd \<and> (\<forall>k. boss s \<noteq> QJoin k)"
      using assms(2) by (auto simp: calm_def)
    moreover have "gone t = gone s" "thr \<longrightarrow> boss t \<noteq> QEnd \<and> (\<forall>k. boss t \<noteq> QJoin k)"
      using step destroy False by (auto simp: boss_step_def split: qpc.splits option.splits if_splits)
    moreover have "crew t c \<noteq> BUndef" if "c < N" for c
      using boss_step_crits[OF step, of c] calculation(1) that by auto
    ultimately show ?thesis by (simp add: calm_def)
  qed
qed

lemma calm_crew_step:
  assumes "calm thr N s" "c < N" "crew_step thr post pass get put n c s = Some t"
  shows "calm thr N t"
proof (cases "\<forall>c<N. crew s c = BExit")
  case True
  with assms(2,3) show ?thesis by (simp add: crew_step_def)
next
  case False
  then have calm: "\<forall>c<N. \<not> gone s c \<and> crew s c \<noteq> BUndef" "thr \<longrightarrow> boss s \<noteq> QEnd \<and> (\<forall>k. boss s \<noteq> QJoin k)"
    using assms(1) by (auto simp: calm_def)
  have "crew t c \<noteq> BUndef"
    using assms(2,3) calm(1) by (auto simp: crew_step_def split: bpc.splits option.splits if_splits)
  then have "crew t c' \<noteq> BUndef" if "c' < N" for c'
    using crew_frame(5)[OF assms(3)] calm(1) that by (cases "c' = c") auto
  with calm crew_frame(1,4)[OF assms(3)] show ?thesis by (simp add: calm_def)
qed

section \<open>Every step uses up work\<close>

lemma crew_work_mono: "q \<le> q' \<Longrightarrow> crew_work n q' pc \<le> crew_work n q pc"
  by (cases pc) (auto simp: crew_work_def)

lemma crew_step_pays:
  assumes tk: "ticket_ok (queue s) (crew s c)" and down: "down s c = shut \<or> down s c = post shut"
    and step: "crew_step thr post pass get put n c s = Some t"
  shows "member_work shut n t c + (n - queue t) * row_work n < member_work shut n s c + (n - queue s) * row_work n"
proof -
  consider (wait) "crew s c = BWait" "\<not> (thr \<and> gone s c)" | (store) row v where "crew s c = BStore row v"
    | (other) "queue t = queue s" "down t c = down s c" "crew_work n (queue s) (crew t c) < crew_work n (queue s) (crew s c)"
    using step tk by (cases "crew s c") (auto simp: crew_step_def crew_work_def ticket_ok_def split: option.splits if_splits)
  then show ?thesis
  proof cases
    case wait
    with step obtain g where g: "pass (down s c) = Some g"
      and t: "t = move c BInner (s\<lparr>down := (down s)(c := g)\<rparr>)"
      by (auto simp: crew_step_def split: option.splits)
    have "down s c \<noteq> shut" using g by (metis option.distinct(1) pass_shut)
    moreover from this down g have "g = shut" by (simp add: pass_post)
    ultimately show ?thesis using wait by (simp add: t member_work_def crew_work_def)
  next
    case store
    then have t: "t = move c (BUnlock row) (s\<lparr>queue := Suc v\<rparr>)" using step by (simp add: crew_step_def)
    from store tk have eq: "row = queue s" "v = queue s" by (simp_all add: ticket_ok_def)
    show ?thesis
    proof (cases "queue s < n")
      case True
      then have "n - queue s = Suc (n - Suc (queue s))" by simp
      then have "(n - queue s) * row_work n = (n - Suc (queue s)) * row_work n + (n + 40)"
        by (simp add: row_work_def)
      with True show ?thesis by (simp add: t eq store member_work_def crew_work_def)
    qed (simp add: t eq store member_work_def crew_work_def)
  qed (simp add: member_work_def)
qed

lemma member_down:
  assumes "member_ok shut post thr n s c"
  shows "down s c = shut \<or> down s c = post shut"
  using member_handshake[OF assms] by (cases "stage thr n (iterator s) (boss s) c") auto

lemma bag_work_crew_step:
  assumes inv: "bag_protocol shut post thr N n s" and c: "c < N"
    and step: "crew_step thr post pass get put n c s = Some t"
  shows "bag_work shut N n t < bag_work shut N n s"
proof -
  have ok: "member_ok shut post thr n s c" using inv c by (simp add: bag_protocol_def)
  then have tk: "ticket_ok (queue s) (crew s c)" by (simp add: member_ok_def)
  note q = crew_step_queue_mono(1)[OF step tk]
  have "member_work shut n t c' \<le> member_work shut n s c'" if "c' \<noteq> c" for c'
    using crew_frame(5)[OF step that] crew_work_mono[OF q] by (simp add: member_work_def)
  then have "(n - queue t) * row_work n + (\<Sum>c<N. member_work shut n t c)
      < (n - queue s) * row_work n + (\<Sum>c<N. member_work shut n s c)"
    using crew_step_pays[OF tk member_down[OF ok] step] by (intro sum_one_pays[OF c]) auto
  then show ?thesis using crew_frame(1,2)[OF step] by (simp add: bag_work_def)
qed

text \<open>A step of the parent that leaves the workers, their gates and the queue alone.\<close>

lemma bag_work_boss_only:
  assumes "crew t = crew s" "down t = down s" "queue t = queue s"
    and "boss_work N n (iterator t) (boss t) < boss_work N n (iterator s) (boss s)"
  shows "bag_work shut N n t < bag_work shut N n s"
  using assms by (simp add: bag_work_def member_work_def)

lemma bag_work_release:
  assumes k: "k < N" and "down s k = shut"
    and "boss_work N n (iterator s) pc + 30 < boss_work N n (iterator s) (boss s)"
  shows "bag_work shut N n (s\<lparr>down := (down s)(k := post (down s k)), boss := pc\<rparr>) < bag_work shut N n s"
proof -
  let ?t = "s\<lparr>down := (down s)(k := post (down s k)), boss := pc\<rparr>"
  have "boss_work N n (iterator s) pc + (\<Sum>c<N. member_work shut n ?t c)
      < boss_work N n (iterator s) (boss s) + (\<Sum>c<N. member_work shut n s c)"
    using assms(2,3) by (intro sum_one_pays[OF k]) (auto simp: member_work_def)
  then show ?thesis by (simp add: bag_work_def)
qed

lemma boss_work_round:
  assumes "m < n"
  shows "(n - m) * D = (n - Suc m) * D + (D::nat)"
proof -
  have "n - m = Suc (n - Suc m)" using assms by simp
  then show ?thesis by simp
qed

lemma bag_work_boss_step:
  assumes inv: "bag_protocol shut post thr N n s" and "0 < N" and spawns: "\<And>c. c < N \<Longrightarrow> spawns c"
    and step: "boss_step thr spawns post pass get put N n s = Some t"
  shows "bag_work shut N n t < bag_work shut N n s"
proof -
  from inv have boss: "boss_ok thr N n (iterator s) (queue s) (boss s)"
    and ok: "\<And>c. c < N \<Longrightarrow> member_ok shut post thr n s c"
    by (auto simp: bag_protocol_def)
  show ?thesis
  proof (cases "boss s")
    case (QFork f)
    show ?thesis
    proof (cases "f < N")
      case True
      with QFork step spawns have t: "t = (move f BOuter s)\<lparr>boss := QFork (Suc f)\<rparr>" by (simp add: boss_step_def split: if_splits)
      have unborn: "crew s f = BUnborn" using ok[OF True] QFork by (simp add: member_ok_def)
      have "boss_work N n (iterator t) (boss t) + (\<Sum>c<N. member_work shut n t c)
          < boss_work N n (iterator s) (boss s) + (\<Sum>c<N. member_work shut n s c)"
        using True QFork unborn
        by (intro sum_one_pays[OF True]) (auto simp: t member_work_def crew_work_def boss_work_def Let_def)
      then show ?thesis by (simp add: t bag_work_def)
    next
      case False
      with QFork step boss show ?thesis
        by (intro bag_work_boss_only) (auto simp: boss_step_def boss_work_def Let_def split: if_splits)
    qed
  next
    case QRound
    then have t: "t = s\<lparr>boss := (if iterator s < n then if thr then QLock else QReset else if thr then QFinal 0 else QEnd)\<rparr>"
      using step by (simp add: boss_step_def split: if_splits)
    show ?thesis
      using QRound boss boss_work_round[of "iterator s" n]
      by (intro bag_work_boss_only) (auto simp: t boss_work_def Let_def)
  next
    case QReset
    then have t: "t = s\<lparr>queue := 0, boss := (if thr then QUnlock else QPost 0)\<rparr>"
      using step by (simp add: boss_step_def split: if_splits)
    have "member_work shut n t c = member_work shut n s c" if "c < N" for c
      using member_quiet(1)[OF ok[OF that]] QReset by (auto simp: t member_work_def crew_work_def resting_def)
    then have "(\<Sum>c<N. member_work shut n t c) = (\<Sum>c<N. member_work shut n s c)" by (intro sum.cong) auto
    with QReset show ?thesis by (auto simp: t bag_work_def boss_work_def Let_def)
  next
    case (QPost k)
    show ?thesis
    proof (cases "k < N")
      case True
      have free: "down s k = shut" using member_quiet(2)[OF ok[OF True]] QPost by simp
      have "N - k = Suc (N - Suc k)" using True by simp
      then have less: "boss_work N n (iterator s) (QPost (Suc k)) + 30 < boss_work N n (iterator s) (boss s)"
        using QPost by (simp add: boss_work_def Let_def)
      have t: "t = s\<lparr>down := (down s)(k := post (down s k)), boss := QPost (Suc k)\<rparr>"
        using QPost True step by (simp add: boss_step_def split: if_splits)
      show ?thesis unfolding t by (rule bag_work_release[OF True free less])
    next
      case False
      with QPost step show ?thesis
        by (intro bag_work_boss_only) (auto simp: boss_step_def boss_work_def Let_def split: if_splits)
    qed
  next
    case (QFinal k)
    show ?thesis
    proof (cases "k < N")
      case True
      have free: "down s k = shut" using member_quiet(2)[OF ok[OF True]] QFinal by simp
      have "N - k = Suc (N - Suc k)" using True by simp
      then have less: "boss_work N n (iterator s) (QFinal (Suc k)) + 30 < boss_work N n (iterator s) (boss s)"
        using QFinal by (simp add: boss_work_def Let_def)
      have t: "t = s\<lparr>down := (down s)(k := post (down s k)), boss := QFinal (Suc k)\<rparr>"
        using QFinal True step by (simp add: boss_step_def split: if_splits)
      show ?thesis unfolding t by (rule bag_work_release[OF True free less])
    next
      case False
      with QFinal step show ?thesis
        by (intro bag_work_boss_only) (auto simp: boss_step_def boss_work_def Let_def split: if_splits)
    qed
  next
    case (QWait k)
    with step show ?thesis
      by (intro bag_work_boss_only) (auto simp: boss_step_def boss_work_def Let_def split: if_splits option.splits)
  next
    case (QRow y)
    show ?thesis
    proof (cases "y < n")
      case True
      with QRow step boss_work_round[of y n "n + 3"] show ?thesis
        by (intro bag_work_boss_only) (auto simp: boss_step_def boss_work_def Let_def split: if_splits)
    next
      case False
      with QRow step show ?thesis
        by (intro bag_work_boss_only) (auto simp: boss_step_def boss_work_def Let_def split: if_splits)
    qed
  next
    case (QCell y z)
    with step show ?thesis
      by (intro bag_work_boss_only) (auto simp: boss_step_def boss_work_def Let_def split: if_splits)
  next
    case QSet
    with step boss show ?thesis
      by (intro bag_work_boss_only) (auto simp: boss_step_def boss_work_def Let_def split: if_splits)
  next
    case QLock
    with step show ?thesis
      by (intro bag_work_boss_only) (auto simp: boss_step_def boss_work_def Let_def split: option.splits if_splits)
  next
    case QUnlock
    with step show ?thesis
      by (intro bag_work_boss_only) (auto simp: boss_step_def boss_work_def Let_def split: if_splits)
  next
    case QNext
    with step show ?thesis
      by (intro bag_work_boss_only) (auto simp: boss_step_def boss_work_def Let_def split: if_splits)
  next
    case (QDestroy k)
    with step show ?thesis
      by (intro bag_work_boss_only) (auto simp: boss_step_def boss_work_def Let_def split: if_splits)
  next
    case (QJoin k)
    with step boss show ?thesis
      by (intro bag_work_boss_only) (auto simp: boss_step_def boss_work_def Let_def split: if_splits)
  qed (use step in \<open>simp_all add: boss_step_def\<close>)
qed

section \<open>Whole runs\<close>

lemma bag_run_inv_init:
  assumes "0 < N" "shape n P" "shape n C" "binary get n P" "binary get n C" "edges get n C = {}"
  shows "bag_run_inv shut post get shape thr N n (edges get n P) (bag_init shut (post shut) P C)"
  using bag_inv_init[OF assms, of thr] by (simp add: bag_run_inv_def late_ok_def rows_distinct_def bag_init_def has_row_def)

lemma bag_run_inv_step:
  assumes step: "sys_step (boss_step thr spawns post pass get put N n) (crew_step thr post pass get put n) N s t"
    and inv: "bag_run_inv shut post get shape thr N n R s" and "0 < N" and spawns: "\<And>c. c < N \<Longrightarrow> spawns c"
    and R: "R \<subseteq> {..<n} \<times> {..<n}"
  shows "bag_run_inv shut post get shape thr N n R t" "bag_work shut N n t < bag_work shut N n s"
proof -
  from inv have i: "bag_inv shut post get shape thr N n R s" "late_ok shut thr N n s" "rows_distinct N s"
    "bag_protocol shut post thr N n s"
    by (simp_all add: bag_run_inv_def bag_inv_def)
  have "bag_inv shut post get shape thr N n R t" by (rule bag_inv_step[OF step i(1) assms(3) spawns R])
  moreover from step have "late_ok shut thr N n t \<and> rows_distinct N t \<and> bag_work shut N n t < bag_work shut N n s"
  proof cases
    case par
    from late_ok_boss_step[OF i(4,2) par] rows_distinct_boss_step[OF i(3) par]
      bag_work_boss_step[OF i(4) assms(3) spawns par]
    show ?thesis by blast
  next
    case (chi c)
    from late_ok_crew_step[OF i(4) chi(1) i(2) chi(2)] rows_distinct_crew_step[OF i(4) chi(1) i(3) chi(2)]
      bag_work_crew_step[OF i(4) chi]
    show ?thesis by blast
  qed
  ultimately show "bag_run_inv shut post get shape thr N n R t" "bag_work shut N n t < bag_work shut N n s" by (simp_all add: bag_run_inv_def)
qed

lemma bag_reach_inv:
  assumes reach: "(sys_step (boss_step thr spawns post pass get put N n) (crew_step thr post pass get put n) N)\<^sup>*\<^sup>* s t"
    and "bag_run_inv shut post get shape thr N n R s" "0 < N" "\<And>c. c < N \<Longrightarrow> spawns c" "R \<subseteq> {..<n} \<times> {..<n}"
  shows "bag_run_inv shut post get shape thr N n R t"
  using reach
proof (induction rule: rtranclp_induct)
  case (step u v)
  then show ?case by (intro bag_run_inv_step(1)[OF step(2) _ assms(3-5)])
qed (rule assms(2))

lemma careful_step:
  "careful N par s = Some t \<Longrightarrow> par s = Some t"
  by (auto simp: careful_def split: qpc.splits if_splits)

text \<open>
  A run is never longer than the work of its start, and while no worker has lost a mutex it
  can be continued to the end.
\<close>

lemma bag_completes:
  fixes thr spawns N n
  defines "par \<equiv> boss_step thr spawns post pass get put N n" and "chi \<equiv> crew_step thr post pass get put n"
  assumes run: "run_sched par chi N begun s\<^sub>0 = Some s"
    and inv: "bag_run_inv shut post get shape thr N n R s\<^sub>0" and N: "0 < N" and spawns: "\<And>c. c < N \<Longrightarrow> spawns c"
    and R: "R \<subseteq> {..<n} \<times> {..<n}"
  shows "length begun \<le> bag_work shut N n s\<^sub>0"
    and "calm thr N s \<Longrightarrow> \<exists>rest t. run_sched par chi N (begun @ rest) s\<^sub>0 = Some t \<and> boss t = QEnd"
proof -
  let ?I = "bag_run_inv shut post get shape thr N n R"
  note step = bag_run_inv_step[where thr = thr and spawns = spawns and N = N and n = n and R = R,
      folded par_def chi_def, OF _ _ N spawns R]
  have "length begun + bag_work shut N n s \<le> bag_work shut N n s\<^sub>0"
    by (rule run_length_bound[where I = ?I, OF run inv]) (use step in blast)+
  then show "length begun \<le> bag_work shut N n s\<^sub>0" by simp
  show "\<exists>rest t. run_sched par chi N (begun @ rest) s\<^sub>0 = Some t \<and> boss t = QEnd" if calm: "calm thr N s"
  proof -
    let ?par = "careful N par"
    have sub: "sys_step par chi N u v" if "sys_step ?par chi N u v" for u v
      using that
    proof cases
      case par
      then show ?thesis by (rule sys_step.par[OF careful_step])
    next
      case (chi c)
      then show ?thesis by (rule sys_step.chi)
    qed
    have I: "?I s"
      using bag_reach_inv[folded par_def chi_def, OF run_sched_reach[OF run, unfolded par_def chi_def] inv N spawns R]
      by blast
    have keeps: "calm thr N v" if "?I u" "calm thr N u" "sys_step ?par chi N u v" for u v
      using that(3)
    proof cases
      case par
      have "bag_protocol shut post thr N n u" using that(1) by (simp add: bag_run_inv_def bag_inv_def)
      then show ?thesis by (rule calm_boss_step[OF _ that(2) par[unfolded par_def]])
    next
      case (chi c)
      then show ?thesis using calm_crew_step[OF that(2)] by (simp add: chi_def)
    qed
    have moves: "\<exists>v. sys_step ?par chi N u v" if "?I u" "calm thr N u" "boss u \<noteq> QEnd" for u
      using that careful_progress[of thr N n u spawns] by (simp add: bag_run_inv_def bag_inv_def par_def chi_def)
    have "\<exists>rest t. run_sched ?par chi N rest s = Some t \<and> boss t = QEnd"
    proof (rule finishing_run_exists[where I = "\<lambda>u. ?I u \<and> calm thr N u" and m = "bag_work shut N n"])
      show "?I s \<and> calm thr N s" using I calm by blast
      show "?I v \<and> calm thr N v" if "?I u \<and> calm thr N u" "sys_step ?par chi N u v" for u v
        using that step(1)[OF sub] keeps by blast
      show "bag_work shut N n v < bag_work shut N n u" if "?I u \<and> calm thr N u" "sys_step ?par chi N u v" for u v
        using that step(2)[OF sub] by blast
      show "\<exists>v. sys_step ?par chi N u v" if "?I u \<and> calm thr N u" "boss u \<noteq> QEnd" for u
        using that moves by blast
    qed
    then obtain rest t where rest: "run_sched ?par chi N rest s = Some t" "boss t = QEnd" by blast
    have "run_sched par chi N rest s = Some t"
      by (rule run_sched_restrict[OF _ rest(1)]) (rule careful_step)
    with run rest(2) show ?thesis by (auto simp: run_sched_append)
  qed
qed

end

end
