(* ===== verification/WtcBtproc.thy ===== *)
theory WtcBtproc
  imports WtcProc BagRuns
begin

text \<open>
  \<open>wtc_btproc.c\<close>: the bag of tasks with processes. \<open>queue\<close>, \<open>iterator\<close> and the semaphore
  \<open>queueSem\<close> live in shared memory beside the two matrices; the environment is that of
  \<open>wtc_proc\<close>, with index \<open>numProcs\<close> of \<open>init_ok\<close> for \<open>queueSem\<close>.
\<close>

type_synonym btproc_state = "(nat, int list) bag"

section \<open>The worker process\<close>

definition childProcess_cell :: "nat \<Rightarrow> int list \<Rightarrow> int list \<Rightarrow> nat \<Rightarrow> nat \<Rightarrow> nat \<Rightarrow> int list" where
  "childProcess_cell numVerts old new iter row j =
     (if (old ! (iter * numVerts + j) = 1 \<and> old ! (row * numVerts + iter) \<noteq> 0)
         \<or> old ! (row * numVerts + j) = 1
      then new[row * numVerts + j := 1] else new)"

definition childProcess_step :: "nat \<Rightarrow> nat \<Rightarrow> btproc_state \<Rightarrow> btproc_state option" where
  "childProcess_step numVerts p s = (case crew s p of
     BOuter \<Rightarrow> Some (if queue s < numVerts then move p BWait s else move p BAgain s)
   | BAgain \<Rightarrow> Some (if iterator s < numVerts then move p BWait s else move p BExit s)
   | BWait \<Rightarrow> (case sem_wait (down s p) of
        None \<Rightarrow> None
      | Some v \<Rightarrow> Some (move p BInner (s\<lparr>down := (down s)(p := v)\<rparr>)))
   | BInner \<Rightarrow> Some (if queue s < numVerts then move p BLock s else move p BPost s)
   | BLock \<Rightarrow> (case sem_wait (qlock s) of
        None \<Rightarrow> None
      | Some v \<Rightarrow> Some (move p BDeq (s\<lparr>qlock := v\<rparr>)))
   | BDeq \<Rightarrow> Some (move p (BIncr (queue s)) s)
   | BIncr row \<Rightarrow> Some (move p (BStore row (queue s)) s)
   | BStore row v \<Rightarrow> Some (move p (BUnlock row) (s\<lparr>queue := v + 1\<rparr>))
   | BUnlock row \<Rightarrow> Some (move p (BTest row) (s\<lparr>qlock := sem_post (qlock s)\<rparr>))
   | BTest row \<Rightarrow> Some (if row < numVerts then move p (BCell row 0) s else move p BInner s)
   | BCell row j \<Rightarrow>
        Some (if j < numVerts
          then move p (BCell row (j + 1))
            (s\<lparr>cur := childProcess_cell numVerts (prev s) (cur s) (iterator s) row j\<rparr>)
          else move p BInner s)
   | BPost \<Rightarrow> Some (move p BOuter (s\<lparr>up := (up s)(p := sem_post (up s p))\<rparr>))
   | _ \<Rightarrow> None)"

section \<open>The parent process\<close>

definition wtc_btproc_step :: "os_env \<Rightarrow> nat \<Rightarrow> nat \<Rightarrow> btproc_state \<Rightarrow> btproc_state option" where
  "wtc_btproc_step env numProcs numVerts s = (case boss s of
     QFork k \<Rightarrow>
        Some (if k < numProcs
          then (if create_ok env k then move k BOuter s else s)\<lparr>boss := QFork (k + 1)\<rparr>
          else s\<lparr>boss := QRound\<rparr>)
   | QRound \<Rightarrow> Some (if iterator s < numVerts then s\<lparr>boss := QReset\<rparr> else s\<lparr>boss := QEnd\<rparr>)
   | QReset \<Rightarrow> Some (s\<lparr>queue := 0, boss := QPost 0\<rparr>)
   | QPost k \<Rightarrow>
        Some (if k < numProcs
          then s\<lparr>down := (down s)(k := sem_post (down s k)), boss := QPost (k + 1)\<rparr>
          else s\<lparr>boss := QWait 0\<rparr>)
   | QWait k \<Rightarrow>
        (if k < numProcs
         then (case sem_wait (up s k) of
            None \<Rightarrow> None
          | Some v \<Rightarrow> Some (s\<lparr>up := (up s)(k := v), boss := QWait (k + 1)\<rparr>))
         else Some (s\<lparr>boss := QRow 0\<rparr>))
   | QRow y \<Rightarrow> Some (if y < numVerts then s\<lparr>boss := QCell y 0\<rparr> else s\<lparr>boss := QNext\<rparr>)
   | QCell y z \<Rightarrow>
        Some (if z < numVerts
          then s\<lparr>prev := (prev s)[y * numVerts + z := cur s ! (y * numVerts + z)], boss := QCell y (z + 1)\<rparr>
          else s\<lparr>boss := QRow (y + 1)\<rparr>)
   | QNext \<Rightarrow> Some (s\<lparr>iterator := iterator s + 1, boss := QRound\<rparr>)
   | _ \<Rightarrow> None)"

definition wtc_btproc_start :: "nat \<Rightarrow> int list list \<Rightarrow> btproc_state" where
  "wtc_btproc_start numVerts matrix =
     \<lparr>boss = QFork 0, crew = (\<lambda>_. BUnborn), down = (\<lambda>_. 0), up = (\<lambda>_. 0), gone = (\<lambda>_. False),
      qlock = 1, queue = 0, iterator = 0,
      prev = copy_to_shared numVerts matrix (zeroed numVerts), cur = zeroed numVerts\<rparr>"

definition wtc_btproc ::
  "os_env \<Rightarrow> actor list \<Rightarrow> nat \<Rightarrow> nat \<Rightarrow> int list list \<Rightarrow> wtc_result option" where
  "wtc_btproc env sched numProcs numVerts matrix =
     (if \<not> (\<forall>k \<in> set [0..<numProcs]. init_ok env k) \<or> \<not> init_ok env numProcs
      then Some (Exit 1 ''sem_init failed'')
      else case run_sched (wtc_btproc_step env numProcs numVerts) (childProcess_step numVerts)
               numProcs sched (wtc_btproc_start numVerts matrix) of
        None \<Rightarrow> None
      | Some s \<Rightarrow>
          (if boss s \<noteq> QEnd then None
           else if \<not> (\<forall>k \<in> set [0..<numProcs]. destroy_ok env k) then Some (Exit 1 ''sem_destroy failed'')
           else Some (Output (''Output:'' @ [newline] @ printArrayMatrix (cur s) numVerts))))"

section \<open>The program is an instance of the bag machine\<close>

interpretation btproc: bag_machine 0 sem_post sem_wait flat_get flat_put flat_wf
  by unfold_locales

lemma childProcess_step_bag:
  "childProcess_step = crew_step False sem_post sem_wait flat_get flat_put"
proof (intro ext)
  fix n c and s :: btproc_state
  show "childProcess_step n c s = crew_step False sem_post sem_wait flat_get flat_put n c s"
    by (cases "crew s c")
      (simp_all add: childProcess_step_def crew_step_def childProcess_cell_def merge_cell_def flat_get_def flat_put_def)
qed

lemma wtc_btproc_step_bag:
  "wtc_btproc_step env = boss_step False (create_ok env) sem_post sem_wait flat_get flat_put"
proof (intro ext)
  fix N n and s :: btproc_state
  show "wtc_btproc_step env N n s =
      boss_step False (create_ok env) sem_post sem_wait flat_get flat_put N n s"
    by (cases "boss s")
      (auto simp: wtc_btproc_step_def boss_step_def flat_get_def flat_put_def split: option.splits)
qed

definition btproc_reachable :: "os_env \<Rightarrow> nat \<Rightarrow> nat \<Rightarrow> int list list \<Rightarrow> btproc_state \<Rightarrow> bool" where
  "btproc_reachable env N n A s \<longleftrightarrow>
     (sys_step (wtc_btproc_step env N n) (childProcess_step n) N)\<^sup>*\<^sup>* (wtc_btproc_start n A) s"

abbreviation btproc_inv :: "nat \<Rightarrow> nat \<Rightarrow> int list list \<Rightarrow> btproc_state \<Rightarrow> bool" where
  "btproc_inv N n A \<equiv> bag_run_inv 0 sem_post flat_get flat_wf False N n (edges rows_get n A)"

lemma btproc_start_inv:
  assumes "0 < N" "binary rows_get n A"
  shows "btproc_inv N n A (wtc_btproc_start n A)"
proof -
  let ?P = "copy_to_shared n A (zeroed n)" and ?C = "zeroed n"
  have E: "edges flat_get n ?P = edges rows_get n A" "edges flat_get n ?C = {}"
    by (auto simp: edges_def shared_input(3,4))
  moreover have "binary flat_get n ?P" "binary flat_get n ?C"
    using assms(2) by (simp_all add: binary_def shared_input(3,4))
  ultimately have "btproc_inv N n A (bag_init 0 (sem_post 0) ?P ?C)"
    using btproc.bag_run_inv_init[of N n ?P ?C False] assms(1) shared_input(1,2) by simp
  then show ?thesis by (simp add: bag_init_def wtc_btproc_start_def sem_post_def)
qed

lemma btproc_reachable_inv:
  assumes "btproc_reachable env N n A s" "0 < N" "binary rows_get n A" "\<And>k. k < N \<Longrightarrow> create_ok env k"
  shows "btproc_inv N n A s"
  using assms(1) unfolding btproc_reachable_def childProcess_step_bag wtc_btproc_step_bag
  by (rule btproc.bag_reach_inv[OF _ btproc_start_inv[OF assms(2,3)] assms(2,4) edges_square])

lemma wtc_btproc_Output:
  assumes "wtc_btproc env sched N n A = Some (Output out)"
  obtains s where "btproc_reachable env N n A s" "boss s = QEnd"
    "out = ''Output:'' @ [newline] @ printArrayMatrix (cur s) n"
  using assms
  by (auto simp: wtc_btproc_def btproc_reachable_def split: option.splits if_splits dest: run_sched_reach)

text \<open>A printed result is the closure of the matrix, whatever the schedule was.\<close>

lemma btproc_output_closure:
  assumes "0 < numProcs" and "binary rows_get numVerts matrix"
    and "\<And>k. k < numProcs \<Longrightarrow> create_ok env k"
    and "wtc_btproc env sched numProcs numVerts matrix = Some (Output out)"
  shows "out = ''Output:'' @ [newline] @ render_relation numVerts ((edges rows_get numVerts matrix)\<^sup>+)"
proof -
  from assms(4) obtain s where s: "btproc_reachable env numProcs numVerts matrix s" "boss s = QEnd"
    "out = ''Output:'' @ [newline] @ printArrayMatrix (cur s) numVerts"
    by (rule wtc_btproc_Output)
  have "bag_inv 0 sem_post flat_get flat_wf False numProcs numVerts (edges rows_get numVerts matrix) s"
    using btproc_reachable_inv[OF s(1) assms(1-3)] by (simp add: bag_run_inv_def)
  from btproc.bag_finished_edges[OF this s(2) edges_square] s(3) show ?thesis
    by (simp add: printArrayMatrix_relation)
qed

section \<open>Properties\<close>

text \<open>
  C11: however the processes share the rows out, what \<open>wtc_btproc\<close> prints is the transitive
  closure of the input graph.
\<close>

theorem wtc_btproc_prints_closure:
  assumes "0 < numProcs" and "binary rows_get numVerts matrix"
    and "\<And>k. k < numProcs \<Longrightarrow> create_ok env k"
    and "wtc_btproc env sched numProcs numVerts matrix = Some (Output out)"
  shows "out = ''Output:'' @ [newline] @ render_relation numVerts ((edges rows_get numVerts matrix)\<^sup>+)"
  using assms by (rule btproc_output_closure)

definition btproc_schedule :: "actor list" where
  "btproc_schedule =
     [Parent, Child 0, Parent, Child 1, Parent, Parent, Parent, Parent, Child 0, Parent, Child 0,
     Child 1, Parent, Child 0, Child 1, Child 0, Child 0, Child 0, Child 0, Child 1, Child 0, Child
     1, Child 0, Child 1, Child 0, Child 1, Child 0, Child 1, Child 0, Child 1, Child 0, Child 1,
     Parent, Child 0, Child 1, Child 0, Child 1, Child 1, Child 1, Parent, Child 1, Parent, Child
     1, Parent, Parent, Parent, Parent, Parent, Parent, Parent, Parent, Parent, Parent, Parent,
     Parent, Parent, Child 0, Parent, Child 0, Child 1, Parent, Child 0, Child 1, Child 0, Child 0,
     Child 0, Child 0, Child 1, Child 0, Child 1, Child 0, Child 1, Child 0, Child 1, Child 0,
     Child 1, Child 0, Child 1, Child 0, Child 1, Parent, Child 0, Child 1, Child 0, Child 1, Child
     1, Child 1, Parent, Child 1, Parent, Child 1, Parent, Parent, Parent, Parent, Parent, Parent,
     Parent, Parent, Parent, Parent, Parent]"

lemma btproc_demo_run:
  "wtc_btproc kind_env btproc_schedule 2 2 [[0, 1], [1, 0]] =
     Some (Output (''Output:'' @ [newline] @ '' 1 1 '' @ [newline] @ '' 1 1 '' @ [newline] @ '' '' @ [newline]))"
  by code_simp

theorem wtc_btproc_prints_closure_witness:
  "wtc_btproc kind_env btproc_schedule 2 2 [[0, 1], [1, 0]] =
     Some (Output (''Output:'' @ [newline] @ render_relation 2 ((edges rows_get 2 [[0, 1], [1, 0]])\<^sup>+)))"
proof -
  have bin: "binary rows_get 2 [[0, 1], [1, 0]]" by (simp add: binary_def rows_get_def less_2_cases_iff)
  show ?thesis
    using wtc_btproc_prints_closure[OF _ bin _ btproc_demo_run] btproc_demo_run by (simp add: kind_env_def)
qed

text \<open>
  C37: \<open>wtc_btproc\<close> always prints: no schedule is longer than the work bound of the start state, and
  every run, however it began, can be continued until the parent prints.
\<close>

theorem wtc_btproc_completes:
  assumes "0 < numProcs" and "binary rows_get numVerts matrix"
    and ok: "\<And>k. init_ok env k \<and> create_ok env k \<and> destroy_ok env k"
    and run: "run_sched (wtc_btproc_step env numProcs numVerts) (childProcess_step numVerts) numProcs
      begun (wtc_btproc_start numVerts matrix) = Some s"
  shows "length begun \<le> bag_work 0 numProcs numVerts (wtc_btproc_start numVerts matrix) \<and>
    (\<exists>rest out. wtc_btproc env (begun @ rest) numProcs numVerts matrix = Some (Output out))"
proof -
  note complete = btproc.bag_completes[OF run[unfolded childProcess_step_bag wtc_btproc_step_bag]
      btproc_start_inv[OF assms(1,2)] assms(1) _ edges_square, folded childProcess_step_bag wtc_btproc_step_bag]
  have "btproc_reachable env numProcs numVerts matrix s"
    using run_sched_reach[OF run] by (simp add: btproc_reachable_def)
  from btproc_reachable_inv[OF this assms(1,2)] ok
  have "late_ok 0 False numProcs numVerts s" by (simp add: bag_run_inv_def)
  then have "calm False numProcs s" by (auto simp: late_ok_def calm_def)
  with complete ok obtain rest t where
    "run_sched (wtc_btproc_step env numProcs numVerts) (childProcess_step numVerts) numProcs
       (begun @ rest) (wtc_btproc_start numVerts matrix) = Some t" "boss t = QEnd" by blast
  then have "wtc_btproc env (begun @ rest) numProcs numVerts matrix =
      Some (Output (''Output:'' @ [newline] @ printArrayMatrix (cur t) numVerts))"
    using ok by (simp add: wtc_btproc_def)
  with complete(1) ok show ?thesis by blast
qed

theorem wtc_btproc_completes_witness:
  "\<exists>rest out. wtc_btproc kind_env ([Parent, Child 0] @ rest) 2 3 [[0,1,0],[0,0,1],[0,0,0]] = Some (Output out)"
proof -
  have bin: "binary rows_get 3 [[0,1,0],[0,0,1],[0,0,0]]"
    by (auto simp: binary_def rows_get_def numeral_3_eq_3 less_Suc_eq)
  obtain s where "run_sched (wtc_btproc_step kind_env 2 3) (childProcess_step 3) 2 [Parent, Child 0]
      (wtc_btproc_start 3 [[0,1,0],[0,0,1],[0,0,0]]) = Some s"
    by (simp add: wtc_btproc_start_def wtc_btproc_step_def childProcess_step_def kind_env_def)
  from wtc_btproc_completes[OF _ bin _ this] show ?thesis by (simp add: kind_env_def)
qed

text \<open>
  C35: the queue of \<open>wtc_btproc\<close> hands every row out once: the value a process writes back to
  \<open>queue\<close> is the successor of the current one, no two processes are between \<open>sem_wait(queueSem)\<close>
  and \<open>sem_post(queueSem)\<close>, no two processes compute the same row, and the row and the
  iteration they use are inside the matrix.
\<close>

theorem wtc_btproc_rows_once:
  assumes "0 < numProcs" and "binary rows_get numVerts matrix"
    and "\<And>k. k < numProcs \<Longrightarrow> create_ok env k"
    and "btproc_reachable env numProcs numVerts matrix s"
    and p: "p < numProcs" "p' < numProcs" "p \<noteq> p'"
  shows "(crew s p = BStore row v \<longrightarrow> row = queue s \<and> v = queue s)
    \<and> \<not> (crit (crew s p) \<and> crit (crew s p'))
    \<and> (crew s p = BCell row j \<longrightarrow> crew s p' \<noteq> BCell row j'
        \<and> row < numVerts \<and> iterator s < numVerts \<and> row < queue s)"
proof -
  have "btproc_inv numProcs numVerts matrix s" by (rule btproc_reachable_inv[OF assms(4,1-3)])
  then have prot: "bag_protocol 0 sem_post False numProcs numVerts s" and dist: "rows_distinct numProcs s"
    by (simp_all add: bag_run_inv_def bag_inv_def)
  then have "ticket_ok (queue s) (crew s p)" "lock_ok 0 sem_post False numProcs s"
    using p by (simp_all add: bag_protocol_def member_ok_def)
  moreover have "crew s p' \<noteq> BCell row j'" if "crew s p = BCell row j"
    using dist p that by (auto simp: rows_distinct_def has_row_def)
  ultimately show ?thesis
    using btproc.lock_exclusive[of False numProcs s p p'] btproc.cell_writer(1,2)[OF prot p(1)] p
    by (auto simp: ticket_ok_def)
qed

definition btproc_prefix :: "actor list" where
  "btproc_prefix = replicate 8 Parent @ replicate 3 (Child 0) @ replicate 3 (Child 1) @ replicate 6 (Child 0)
     @ replicate 5 (Child 1)"

theorem wtc_btproc_rows_once_witness:
  "\<exists>s. btproc_reachable kind_env 2 2 [[0, 1], [1, 0]] s \<and> crew s 0 = BCell 0 0 \<and> crew s 1 = BTest 1
    \<and> iterator s < 2"
proof -
  let ?run = "run_sched (wtc_btproc_step kind_env 2 2) (childProcess_step 2) 2 btproc_prefix
      (wtc_btproc_start 2 [[0, 1], [1, 0]])"
  have "(case ?run of Some s \<Rightarrow> crew s 0 = BCell 0 0 \<and> crew s 1 = BTest 1 | None \<Rightarrow> False)"
    by code_simp
  then obtain s where run: "?run = Some s" and pc: "crew s 0 = BCell 0 0" "crew s 1 = BTest 1"
    by (auto split: option.splits)
  have reach: "btproc_reachable kind_env 2 2 [[0, 1], [1, 0]] s"
    using run_sched_reach[OF run] by (simp add: btproc_reachable_def)
  have "binary rows_get 2 [[0, 1], [1, 0]]" by (simp add: binary_def rows_get_def less_2_cases_iff)
  from wtc_btproc_rows_once[OF _ this _ reach, of 0 1 0 0 0 0] pc have "iterator s < 2"
    by (simp add: kind_env_def)
  with reach pc show ?thesis by blast
qed

text \<open>Nobody posts a worker any more once the parent has left its loop.\<close>

lemma waits_for_ever:
  assumes "(sys_step (wtc_btproc_step env N n) (childProcess_step n) N)\<^sup>*\<^sup>* s t"
    and "boss s = QEnd" "crew s p = BWait" "down s p = 0"
  shows "boss t = QEnd \<and> crew t p = BWait \<and> down t p = 0"
  using assms(1)
proof (induction rule: rtranclp_induct)
  case (step u v)
  from step(2) show ?case
  proof cases
    case par
    with step(3) show ?thesis by (simp add: wtc_btproc_step_def)
  next
    case (chi c)
    have "c \<noteq> p" using chi step(3) by (auto simp: childProcess_step_def sem_wait_def)
    with chi step(3) show ?thesis
      by (auto simp: childProcess_step_def split: bpc.splits option.splits if_splits)
  qed
qed (use assms in simp)

text \<open>
  The worker processes leak: a worker that reported its last round and tested the loop
  condition before the parent's last increment of \<open>iterator\<close> waits on a semaphore that nobody
  posts again: once the parent has left its loop, that process never takes another step.
\<close>

theorem wtc_btproc_orphans:
  assumes "0 < numProcs" and "binary rows_get numVerts matrix"
    and "\<And>k. k < numProcs \<Longrightarrow> create_ok env k"
    and "btproc_reachable env numProcs numVerts matrix s"
    and "p < numProcs" "boss s = QEnd" "crew s p = BWait"
    and "(sys_step (wtc_btproc_step env numProcs numVerts) (childProcess_step numVerts) numProcs)\<^sup>*\<^sup>* s t"
  shows "crew t p = BWait \<and> childProcess_step numVerts p t = None"
proof -
  have "btproc_inv numProcs numVerts matrix s" by (rule btproc_reachable_inv[OF assms(4,1-3)])
  then have "member_ok 0 sem_post False numVerts s p"
    using assms(5) by (simp add: bag_run_inv_def bag_inv_def bag_protocol_def)
  then have "down s p = 0" using assms(6) by (simp add: member_ok_def)
  from waits_for_ever[OF assms(8,6,7) this] show ?thesis
    by (simp add: childProcess_step_def sem_wait_def)
qed

definition btproc_leak_schedule :: "actor list" where
  "btproc_leak_schedule =
     [Parent, Child 0, Parent, Parent, Parent, Parent, Child 0, Parent, Child 0, Child 0, Child 0,
     Child 0, Child 0, Child 0, Child 0, Child 0, Child 0, Child 0, Child 0, Parent, Child 0,
     Parent, Child 0, Parent, Parent, Parent, Parent, Parent, Parent]"

theorem wtc_btproc_orphans_witness:
  "\<exists>s. btproc_reachable kind_env 1 1 [[1]] s \<and> boss s = QEnd \<and> crew s 0 = BWait
    \<and> childProcess_step 1 0 s = None"
proof -
  let ?run = "run_sched (wtc_btproc_step kind_env 1 1) (childProcess_step 1) 1 btproc_leak_schedule
      (wtc_btproc_start 1 [[1]])"
  have "(case ?run of Some s \<Rightarrow> boss s = QEnd \<and> crew s 0 = BWait | None \<Rightarrow> False)"
    by code_simp
  then obtain s where run: "?run = Some s" and pc: "boss s = QEnd" "crew s 0 = BWait"
    by (auto split: option.splits)
  have reach: "btproc_reachable kind_env 1 1 [[1]] s"
    using run_sched_reach[OF run] by (simp add: btproc_reachable_def)
  have "binary rows_get 1 [[1]]" by (simp add: binary_def rows_get_def)
  from wtc_btproc_orphans[OF _ this _ reach _ pc] have "childProcess_step 1 0 s = None"
    by (simp add: kind_env_def)
  with reach pc show ?thesis by blast
qed

end
