(* ===== verification/WtcBtthr.thy ===== *)
theory WtcBtthr
  imports WtcThr WtcBtproc
begin

text \<open>
  \<open>wtc_btthr.c\<close>: the bag of tasks with threads. \<open>head\<close>, \<open>iterator\<close> and \<open>queueLock\<close> are globals.
  After the rounds the main thread unlocks every \<open>p2c\<close> once more, and then destroys the
  mutexes of a thread before it joins it. \<open>pthread_mutex_destroy\<close> refuses a locked mutex
  (\<open>EBUSY\<close>, ignored) and invalidates an unlocked one: \<open>gone\<close> records the threads whose \<open>p2c\<close>
  was destroyed, and locking it afterwards is undefined behaviour, where the thread stops.
\<close>

type_synonym btthr_state = "(bool, int list list) bag"

section \<open>The worker thread\<close>

definition thread_cell :: "int list list \<Rightarrow> int list list \<Rightarrow> nat \<Rightarrow> nat \<Rightarrow> nat \<Rightarrow> int list list" where
  "thread_cell old new iter i j =
     (if old ! i ! j = 1 \<or> (old ! iter ! j = 1 \<and> old ! i ! iter = 1)
      then new[i := (new ! i)[j := 1]] else new)"

definition thread_step :: "nat \<Rightarrow> nat \<Rightarrow> btthr_state \<Rightarrow> btthr_state option" where
  "thread_step numVerts tid s = (case crew s tid of
     BOuter \<Rightarrow> Some (if iterator s < numVerts then move tid BAgain s else move tid BExit s)
   | BAgain \<Rightarrow> Some (if iterator s \<ge> numVerts then move tid BExit s else move tid BWait s)
   | BWait \<Rightarrow>
        (if gone s tid then Some (move tid BUndef s)
         else case mutex_lock (down s tid) of
            None \<Rightarrow> None
          | Some b \<Rightarrow> Some (move tid BInner (s\<lparr>down := (down s)(tid := b)\<rparr>)))
   | BInner \<Rightarrow> Some (if queue s < numVerts then move tid BLock s else move tid BPost s)
   | BLock \<Rightarrow> (case mutex_lock (qlock s) of
        None \<Rightarrow> None
      | Some b \<Rightarrow> Some (move tid BDeq (s\<lparr>qlock := b\<rparr>)))
   | BDeq \<Rightarrow> Some (move tid (BIncr (queue s)) s)
   | BIncr i \<Rightarrow> Some (move tid (BStore i (queue s)) s)
   | BStore i v \<Rightarrow> Some (move tid (BUnlock i) (s\<lparr>queue := v + 1\<rparr>))
   | BUnlock i \<Rightarrow> Some (move tid (BTest i) (s\<lparr>qlock := mutex_unlock (qlock s)\<rparr>))
   | BTest i \<Rightarrow> Some (if i \<ge> numVerts then move tid BPost s else move tid (BCell i 0) s)
   | BCell i j \<Rightarrow>
        Some (if j < numVerts
          then move tid (BCell i (j + 1)) (s\<lparr>cur := thread_cell (prev s) (cur s) (iterator s) i j\<rparr>)
          else move tid BInner s)
   | BPost \<Rightarrow> Some (move tid BOuter (s\<lparr>up := (up s)(tid := mutex_unlock (up s tid))\<rparr>))
   | _ \<Rightarrow> None)"

section \<open>The main thread\<close>

definition wtc_btthr_step :: "os_env \<Rightarrow> nat \<Rightarrow> nat \<Rightarrow> btthr_state \<Rightarrow> btthr_state option" where
  "wtc_btthr_step env numThr numVerts s = (case boss s of
     QFork k \<Rightarrow>
        Some (if k < numThr
          then (if create_ok env k then (move k BOuter s)\<lparr>boss := QFork (k + 1)\<rparr> else s\<lparr>boss := QAbort\<rparr>)
          else s\<lparr>boss := QSet\<rparr>)
   | QSet \<Rightarrow> Some (s\<lparr>iterator := 0, boss := QRound\<rparr>)
   | QRound \<Rightarrow> Some (if iterator s < numVerts then s\<lparr>boss := QLock\<rparr> else s\<lparr>boss := QFinal 0\<rparr>)
   | QLock \<Rightarrow> (case mutex_lock (qlock s) of
        None \<Rightarrow> None
      | Some b \<Rightarrow> Some (s\<lparr>qlock := b, boss := QReset\<rparr>))
   | QReset \<Rightarrow> Some (s\<lparr>queue := 0, boss := QUnlock\<rparr>)
   | QUnlock \<Rightarrow> Some (s\<lparr>qlock := mutex_unlock (qlock s), boss := QPost 0\<rparr>)
   | QPost y \<Rightarrow>
        Some (if y < numThr
          then s\<lparr>down := (down s)(y := mutex_unlock (down s y)), boss := QPost (y + 1)\<rparr>
          else s\<lparr>boss := QWait 0\<rparr>)
   | QWait y \<Rightarrow>
        (if y < numThr
         then (case mutex_lock (up s y) of
            None \<Rightarrow> None
          | Some b \<Rightarrow> Some (s\<lparr>up := (up s)(y := b), boss := QWait (y + 1)\<rparr>))
         else Some (s\<lparr>boss := QRow 0\<rparr>))
   | QRow k \<Rightarrow> Some (if k < numVerts then s\<lparr>boss := QCell k 0\<rparr> else s\<lparr>boss := QNext\<rparr>)
   | QCell k i \<Rightarrow>
        Some (if i < numVerts
          then s\<lparr>prev := (prev s)[k := (prev s ! k)[i := cur s ! k ! i]], boss := QCell k (i + 1)\<rparr>
          else s\<lparr>boss := QRow (k + 1)\<rparr>)
   | QNext \<Rightarrow> Some (s\<lparr>iterator := iterator s + 1, boss := QRound\<rparr>)
   | QFinal y \<Rightarrow>
        Some (if y < numThr
          then s\<lparr>down := (down s)(y := mutex_unlock (down s y)), boss := QFinal (y + 1)\<rparr>
          else s\<lparr>boss := QDestroy 0\<rparr>)
   | QDestroy k \<Rightarrow>
        Some (if k < numThr
          then s\<lparr>gone := (gone s)(k := (mutex_lock (down s k) \<noteq> None)), boss := QJoin k\<rparr>
          else s\<lparr>boss := QEnd\<rparr>)
   | QJoin k \<Rightarrow> (if crew s k = BExit then Some (s\<lparr>boss := QDestroy (k + 1)\<rparr>) else None)
   | _ \<Rightarrow> None)"

definition wtc_btthr_start :: "nat \<Rightarrow> int list list \<Rightarrow> btthr_state" where
  "wtc_btthr_start numVerts matrix =
     \<lparr>boss = QFork 0, crew = (\<lambda>_. BUnborn), down = (\<lambda>_. True), up = (\<lambda>_. True), gone = (\<lambda>_. False),
      qlock = False, queue = 0, iterator = 0, prev = matrix, cur = zero_rows numVerts\<rparr>"

definition wtc_btthr ::
  "os_env \<Rightarrow> actor list \<Rightarrow> nat \<Rightarrow> nat \<Rightarrow> int list list \<Rightarrow> wtc_result option" where
  "wtc_btthr env sched numThr numVerts matrix =
     (case run_sched (wtc_btthr_step env numThr numVerts) (thread_step numVerts) numThr sched
             (wtc_btthr_start numVerts matrix) of
        None \<Rightarrow> None
      | Some s \<Rightarrow>
          (if boss s = QAbort then Some (Exit 255 [])
           else if boss s \<noteq> QEnd then None
           else Some (Output (''Output:'' @ [newline] @ printMatrix (prev s) numVerts))))"

section \<open>The program is an instance of the bag machine\<close>

interpretation btthr: bag_machine True mutex_unlock mutex_lock rows_get rows_put rows_wf
  by unfold_locales

text \<open>The test \<open>M_prev[i][iterator] == 1\<close> and the truth value of the other programs agree on 0 and 1.\<close>

lemma thread_cell_merge:
  assumes "binary rows_get n P" "i < n" "m < n"
  shows "thread_cell P C m i j = merge_cell rows_get rows_put n P C m i j"
  using binaryD[OF assms] by (auto simp: thread_cell_def merge_cell_def rows_get_def rows_put_def)

lemma thread_step_bag:
  assumes "\<And>i j. crew s c = BCell i j \<Longrightarrow> binary rows_get n (prev s) \<and> i < n \<and> iterator s < n"
  shows "thread_step n c s = crew_step True mutex_unlock mutex_lock rows_get rows_put n c s"
  using assms by (cases "crew s c") (simp_all add: thread_step_def crew_step_def thread_cell_merge)

lemma wtc_btthr_step_bag:
  assumes "\<And>k. k < N \<Longrightarrow> create_ok env k"
  shows "wtc_btthr_step env N n = boss_step True (\<lambda>_. True) mutex_unlock mutex_lock rows_get rows_put N n"
proof
  fix s :: btthr_state
  show "wtc_btthr_step env N n s =
      boss_step True (\<lambda>_. True) mutex_unlock mutex_lock rows_get rows_put N n s"
    using assms by (cases "boss s")
      (auto simp: wtc_btthr_step_def boss_step_def rows_get_def rows_put_def split: option.splits)
qed

abbreviation btthr_inv :: "nat \<Rightarrow> nat \<Rightarrow> int list list \<Rightarrow> btthr_state \<Rightarrow> bool" where
  "btthr_inv N n A \<equiv> bag_run_inv True mutex_unlock rows_get rows_wf True N n (edges rows_get n A)"

lemma btthr_start_inv:
  assumes "0 < N" "rows_wf n A" "binary rows_get n A"
  shows "btthr_inv N n A (wtc_btthr_start n A)"
proof -
  have "btthr_inv N n A (bag_init True (mutex_unlock True) A (zero_rows n))"
    using btthr.bag_run_inv_init[of N n A "zero_rows n" True] assms zero_rows by simp
  then show ?thesis by (simp add: bag_init_def wtc_btthr_start_def mutex_unlock_def)
qed

text \<open>From a state that satisfies the invariant the program and the machine take the same steps.\<close>

lemma btthr_actor_step:
  assumes inv: "btthr_inv N n A s" and ok: "\<And>k. k < N \<Longrightarrow> create_ok env k"
  shows "actor_step (wtc_btthr_step env N n) (thread_step n) N a s =
    actor_step (boss_step True (\<lambda>_. True) mutex_unlock mutex_lock rows_get rows_put N n)
      (crew_step True mutex_unlock mutex_lock rows_get rows_put n) N a s"
proof (cases a)
  case Parent
  have "wtc_btthr_step env N n = boss_step True (\<lambda>_. True) mutex_unlock mutex_lock rows_get rows_put N n"
    by (rule wtc_btthr_step_bag) (rule ok)
  with Parent show ?thesis by simp
next
  case (Child c)
  have "thread_step n c s = crew_step True mutex_unlock mutex_lock rows_get rows_put n c s" if "c < N"
  proof (rule thread_step_bag)
    fix i j assume pc: "crew s c = BCell i j"
    from inv have "bag_protocol True mutex_unlock True N n s" "bag_shaped rows_get rows_wf n s"
      by (simp_all add: bag_run_inv_def bag_inv_def)
    with btthr.cell_writer(1,2)[OF this(1) that pc] show "binary rows_get n (prev s) \<and> i < n \<and> iterator s < n"
      by (simp add: bag_shaped_def)
  qed
  with Child show ?thesis by simp
qed

lemma btthr_run:
  assumes N: "0 < N" and ok: "\<And>k. k < N \<Longrightarrow> create_ok env k"
  shows "btthr_inv N n A s \<Longrightarrow> run_sched (wtc_btthr_step env N n) (thread_step n) N as s =
    run_sched (boss_step True (\<lambda>_. True) mutex_unlock mutex_lock rows_get rows_put N n)
      (crew_step True mutex_unlock mutex_lock rows_get rows_put n) N as s"
proof (induction as arbitrary: s)
  case (Cons a as)
  let ?par = "boss_step True (\<lambda>_. True) mutex_unlock mutex_lock rows_get rows_put N n"
  let ?chi = "crew_step True mutex_unlock mutex_lock rows_get rows_put n"
  have eq: "actor_step (wtc_btthr_step env N n) (thread_step n) N a s = actor_step ?par ?chi N a s"
    by (rule btthr_actor_step[OF Cons.prems ok])
  show ?case
  proof (cases "actor_step ?par ?chi N a s")
    case None
    with eq show ?thesis by simp
  next
    case (Some t)
    have "btthr_inv N n A t"
      by (rule btthr.bag_run_inv_step(1)[OF actor_step_sys_step[OF Some] Cons.prems N _ edges_square]) simp
    with Cons.IH eq Some show ?thesis by simp
  qed
qed simp

definition btthr_reachable :: "os_env \<Rightarrow> nat \<Rightarrow> nat \<Rightarrow> int list list \<Rightarrow> btthr_state \<Rightarrow> bool" where
  "btthr_reachable env N n A s \<longleftrightarrow>
     (sys_step (wtc_btthr_step env N n) (thread_step n) N)\<^sup>*\<^sup>* (wtc_btthr_start n A) s"

lemma btthr_reachable_inv:
  assumes reach: "btthr_reachable env N n A s" and A: "0 < N" "rows_wf n A" "binary rows_get n A"
    and ok: "\<And>k. k < N \<Longrightarrow> create_ok env k"
  shows "btthr_inv N n A s"
proof -
  note start = btthr_start_inv[OF A]
  from reach obtain as where "run_sched (wtc_btthr_step env N n) (thread_step n) N as (wtc_btthr_start n A) = Some s"
    using reach_run_sched[OF reach[unfolded btthr_reachable_def]] by blast
  then have "run_sched (boss_step True (\<lambda>_. True) mutex_unlock mutex_lock rows_get rows_put N n)
      (crew_step True mutex_unlock mutex_lock rows_get rows_put n) N as (wtc_btthr_start n A) = Some s"
    using btthr_run[OF A(1) ok start] by simp
  then show ?thesis
    by (rule btthr.bag_reach_inv[OF run_sched_reach start A(1) _ edges_square]) simp
qed

lemma wtc_btthr_Output:
  assumes "wtc_btthr env sched N n A = Some (Output out)"
  obtains s where "btthr_reachable env N n A s" "boss s = QEnd"
    "out = ''Output:'' @ [newline] @ printMatrix (prev s) n"
  using assms
  by (auto simp: wtc_btthr_def btthr_reachable_def split: option.splits if_splits dest: run_sched_reach)

text \<open>A printed result is the closure of the matrix, whatever the schedule was.\<close>

lemma btthr_output_closure:
  assumes "0 < numThr" and "rows_wf numVerts matrix" and "binary rows_get numVerts matrix"
    and "\<And>k. k < numThr \<Longrightarrow> create_ok env k"
    and "wtc_btthr env sched numThr numVerts matrix = Some (Output out)"
  shows "out = ''Output:'' @ [newline] @ render_relation numVerts ((edges rows_get numVerts matrix)\<^sup>+)"
proof -
  from assms(5) obtain s where s: "btthr_reachable env numThr numVerts matrix s" "boss s = QEnd"
    "out = ''Output:'' @ [newline] @ printMatrix (prev s) numVerts"
    by (rule wtc_btthr_Output)
  have "bag_inv True mutex_unlock rows_get rows_wf True numThr numVerts (edges rows_get numVerts matrix) s"
    using btthr_reachable_inv[OF s(1) assms(1-4)] by (simp add: bag_run_inv_def)
  from btthr.bag_finished_edges[OF this s(2) edges_square] s(3) show ?thesis
    by (simp add: printMatrix_relation)
qed

section \<open>Properties\<close>

text \<open>
  C15: however the threads share the rows out, what \<open>wtc_btthr\<close> prints from \<open>matrix\<close> is the
  transitive closure of the input graph.
\<close>

theorem wtc_btthr_prints_closure:
  assumes "0 < numThr" and "rows_wf numVerts matrix" and "binary rows_get numVerts matrix"
    and "\<And>k. k < numThr \<Longrightarrow> create_ok env k"
    and "wtc_btthr env sched numThr numVerts matrix = Some (Output out)"
  shows "out = ''Output:'' @ [newline] @ render_relation numVerts ((edges rows_get numVerts matrix)\<^sup>+)"
  using assms by (rule btthr_output_closure)

definition btthr_schedule :: "actor list" where
  "btthr_schedule =
     [Parent, Child 0, Parent, Child 0, Child 1, Parent, Child 1, Parent, Parent, Parent, Parent,
     Parent, Parent, Child 0, Parent, Child 0, Child 1, Parent, Child 0, Child 1, Child 0, Child 0,
     Child 0, Child 0, Child 1, Child 0, Child 1, Child 0, Child 1, Child 0, Child 1, Child 0,
     Child 1, Child 0, Child 1, Child 0, Child 1, Parent, Child 0, Child 1, Child 0, Child 1, Child
     1, Child 1, Parent, Child 1, Parent, Child 1, Parent, Parent, Parent, Parent, Parent, Parent,
     Parent, Parent, Parent, Parent, Parent, Parent, Parent, Parent, Parent, Child 0, Parent, Child
     0, Child 1, Parent, Child 0, Child 1, Child 0, Child 0, Child 0, Child 0, Child 1, Child 0,
     Child 1, Child 0, Child 1, Child 0, Child 1, Child 0, Child 1, Child 0, Child 1, Child 0,
     Child 1, Parent, Child 0, Child 1, Child 0, Child 1, Child 1, Child 1, Parent, Child 1,
     Parent, Child 1, Parent, Parent, Parent, Parent, Parent, Parent, Parent, Parent, Parent,
     Parent, Parent, Parent, Child 0, Parent, Child 0, Child 1, Parent, Child 0, Child 1, Child 0,
     Child 1, Child 1, Parent, Parent, Parent, Parent, Parent]"

lemma btthr_demo_run:
  "wtc_btthr kind_env btthr_schedule 2 2 [[0, 1], [1, 0]] =
     Some (Output (''Output:'' @ [newline] @ '' 1 1 '' @ [newline] @ '' 1 1 '' @ [newline] @ '' '' @ [newline]))"
  by code_simp

theorem wtc_btthr_prints_closure_witness:
  "wtc_btthr kind_env btthr_schedule 2 2 [[0, 1], [1, 0]] =
     Some (Output (''Output:'' @ [newline] @ render_relation 2 ((edges rows_get 2 [[0, 1], [1, 0]])\<^sup>+)))"
proof -
  have A: "rows_wf 2 [[0, 1], [1, 0]]" "binary rows_get 2 [[0, 1], [1, 0]]"
    by (auto simp: rows_wf_def binary_def rows_get_def less_2_cases_iff)
  show ?thesis
    using wtc_btthr_prints_closure[OF _ A _ btthr_demo_run] btthr_demo_run by (simp add: kind_env_def)
qed

text \<open>
  C38: no schedule of \<open>wtc_btthr\<close> is longer than the work bound of the start state, and a run in which
  the main thread has not begun to destroy mutexes can always be continued until it prints.
\<close>

theorem wtc_btthr_completes:
  assumes "0 < numThr" and "rows_wf numVerts matrix" and "binary rows_get numVerts matrix"
    and ok: "\<And>k. create_ok env k"
    and run: "run_sched (wtc_btthr_step env numThr numVerts) (thread_step numVerts) numThr
      begun (wtc_btthr_start numVerts matrix) = Some s"
  shows "length begun \<le> bag_work True numThr numVerts (wtc_btthr_start numVerts matrix) \<and>
    ((\<forall>k. boss s \<noteq> QDestroy k \<and> boss s \<noteq> QJoin k) \<and> boss s \<noteq> QEnd \<longrightarrow>
      (\<exists>rest out. wtc_btthr env (begun @ rest) numThr numVerts matrix = Some (Output out)))"
proof -
  note start = btthr_start_inv[OF assms(1-3)]
  note eq = btthr_run[OF assms(1) ok start]
  note complete = btthr.bag_completes[OF run[unfolded eq] start assms(1) _ edges_square, folded eq]
  have bound: "length begun \<le> bag_work True numThr numVerts (wtc_btthr_start numVerts matrix)"
    using complete(1) by blast
  have "\<exists>rest out. wtc_btthr env (begun @ rest) numThr numVerts matrix = Some (Output out)"
    if "\<forall>k. boss s \<noteq> QDestroy k \<and> boss s \<noteq> QJoin k" "boss s \<noteq> QEnd"
  proof -
    have "btthr_reachable env numThr numVerts matrix s"
      using run_sched_reach[OF run] by (simp add: btthr_reachable_def)
    from btthr_reachable_inv[OF this assms(1-3)] ok
    have "late_ok True True numThr numVerts s" by (simp add: bag_run_inv_def)
    with that have "calm True numThr s" by (auto simp: late_ok_def calm_def)
    with complete(2) obtain rest t where
      "run_sched (wtc_btthr_step env numThr numVerts) (thread_step numVerts) numThr
         (begun @ rest) (wtc_btthr_start numVerts matrix) = Some t" "boss t = QEnd" by blast
    then have "wtc_btthr env (begun @ rest) numThr numVerts matrix =
        Some (Output (''Output:'' @ [newline] @ printMatrix (prev t) numVerts))"
      by (simp add: wtc_btthr_def)
    then show ?thesis by blast
  qed
  with bound show ?thesis by blast
qed

theorem wtc_btthr_completes_witness:
  "\<exists>rest out. wtc_btthr kind_env ([Parent, Child 0] @ rest) 3 2 [[0, 1], [0, 0]] = Some (Output out)"
proof -
  have A: "rows_wf 2 [[0, 1], [0, 0]]" "binary rows_get 2 [[0, 1], [0, 0]]"
    by (auto simp: rows_wf_def binary_def rows_get_def less_2_cases_iff)
  obtain s where s: "run_sched (wtc_btthr_step kind_env 3 2) (thread_step 2) 3 [Parent, Child 0]
      (wtc_btthr_start 2 [[0, 1], [0, 0]]) = Some s" "boss s = QFork 1"
    by (simp add: wtc_btthr_start_def wtc_btthr_step_def thread_step_def kind_env_def)
  from wtc_btthr_completes[OF _ A _ s(1)] s(2) show ?thesis by (simp add: kind_env_def)
qed

text \<open>
  Every row of a round of \<open>wtc_btthr\<close> is handed out once: the head written back is the successor
  of the current one, no two threads hold \<open>queueLock\<close>, the main thread resets \<open>head\<close> only when
  no thread is in the critical section, and no two threads compute the same row.
\<close>

theorem wtc_btthr_rows_once:
  assumes "0 < numThr" and "rows_wf numVerts matrix" and "binary rows_get numVerts matrix"
    and "\<And>k. k < numThr \<Longrightarrow> create_ok env k"
    and "btthr_reachable env numThr numVerts matrix s"
    and t: "t < numThr" "t' < numThr" "t \<noteq> t'"
  shows "(crew s t = BStore i v \<longrightarrow> i = queue s \<and> v = queue s)
    \<and> \<not> (crit (crew s t) \<and> crit (crew s t')) \<and> (boss s = QReset \<longrightarrow> \<not> crit (crew s t))
    \<and> (crew s t = BCell i j \<longrightarrow> crew s t' \<noteq> BCell i j' \<and> i < numVerts \<and> iterator s < numVerts)"
proof -
  have "btthr_inv numThr numVerts matrix s" by (rule btthr_reachable_inv[OF assms(5,1-4)])
  then have prot: "bag_protocol True mutex_unlock True numThr numVerts s" and dist: "rows_distinct numThr s"
    by (simp_all add: bag_run_inv_def bag_inv_def)
  then have "ticket_ok (queue s) (crew s t)" "lock_ok True mutex_unlock True numThr s"
    using t by (simp_all add: bag_protocol_def member_ok_def)
  moreover have "crew s t' \<noteq> BCell i j'" if "crew s t = BCell i j"
    using dist t that by (auto simp: rows_distinct_def has_row_def)
  ultimately show ?thesis
    using btthr.lock_exclusive[of True numThr s t t'] btthr.cell_writer(1,2)[OF prot t(1)] t
      btthr.boss_crit_quiet[OF prot _ t(1)]
    by (auto simp: ticket_ok_def boss_crit_def)
qed

definition btthr_prefix :: "actor list" where
  "btthr_prefix = replicate 11 Parent @ replicate 4 (Child 0) @ replicate 4 (Child 1) @ replicate 6 (Child 0)
     @ replicate 5 (Child 1)"

theorem wtc_btthr_rows_once_witness:
  "\<exists>s. btthr_reachable kind_env 2 2 [[0, 1], [1, 0]] s \<and> crew s 0 = BCell 0 0 \<and> crew s 1 = BTest 1
    \<and> iterator s < 2"
proof -
  let ?run = "run_sched (wtc_btthr_step kind_env 2 2) (thread_step 2) 2 btthr_prefix
      (wtc_btthr_start 2 [[0, 1], [1, 0]])"
  have "(case ?run of Some s \<Rightarrow> crew s 0 = BCell 0 0 \<and> crew s 1 = BTest 1 | None \<Rightarrow> False)"
    by code_simp
  then obtain s where run: "?run = Some s" and pc: "crew s 0 = BCell 0 0" "crew s 1 = BTest 1"
    by (auto split: option.splits)
  have reach: "btthr_reachable kind_env 2 2 [[0, 1], [1, 0]] s"
    using run_sched_reach[OF run] by (simp add: btthr_reachable_def)
  have A: "rows_wf 2 [[0, 1], [1, 0]]" "binary rows_get 2 [[0, 1], [1, 0]]"
    by (auto simp: rows_wf_def binary_def rows_get_def less_2_cases_iff)
  from wtc_btthr_rows_once[OF _ A _ reach, of 0 1 0 0 0 0] pc have "iterator s < 2"
    by (simp add: kind_env_def)
  with reach pc show ?thesis by blast
qed

definition btthr_late_schedule :: "actor list" where
  "btthr_late_schedule =
     [Parent, Child 0, Parent, Child 0, Parent, Parent, Parent, Parent, Parent, Parent, Child 0,
     Parent, Child 0, Child 0, Child 0, Child 0, Child 0, Child 0, Child 0, Child 0, Child 0, Child
     0, Child 0, Child 0, Child 0, Parent, Parent, Parent, Parent, Parent, Parent, Parent, Parent,
     Parent, Parent, Parent]"

text \<open>
  The main thread of \<open>wtc_btthr\<close> destroys mutexes before it joins their thread, and a thread can
  be late: there is a run, with one thread and one vertex, in which the main thread has
  destroyed \<open>p2c[0]\<close> while thread 0 is about to lock it, so that its next step is undefined.
\<close>

theorem wtc_btthr_locks_destroyed_mutex:
  "\<exists>s t. btthr_reachable kind_env 1 1 [[1]] s \<and> boss s = QJoin 0 \<and> crew s 0 = BWait \<and> gone s 0
    \<and> thread_step 1 0 s = Some t \<and> crew t 0 = BUndef"
proof -
  let ?run = "run_sched (wtc_btthr_step kind_env 1 1) (thread_step 1) 1 btthr_late_schedule
      (wtc_btthr_start 1 [[1]])"
  have "(case ?run of Some s \<Rightarrow> boss s = QJoin 0 \<and> crew s 0 = BWait \<and> gone s 0 | None \<Rightarrow> False)"
    by code_simp
  then obtain s where run: "?run = Some s" and s: "boss s = QJoin 0" "crew s 0 = BWait" "gone s 0"
    by (auto split: option.splits)
  have "btthr_reachable kind_env 1 1 [[1]] s"
    using run_sched_reach[OF run] by (simp add: btthr_reachable_def)
  moreover have "thread_step 1 0 s = Some (move 0 BUndef s)" using s by (simp add: thread_step_def)
  ultimately show ?thesis using s by (metis fun_upd_same move_sel(2))
qed

end
