(* ===== verification/Warshall.thy ===== *)
theory Warshall
  imports CMatrix
begin

text \<open>
  The sequential in-place algorithm of \<open>wtc_raw.c\<close>, the reference the four parallel programs
  are measured against. The three nested loops are folds over the loop indices, and every read
  sees the matrix as the earlier iterations left it.
\<close>

definition algorithm_cell :: "nat \<Rightarrow> nat \<Rightarrow> nat \<Rightarrow> int list list \<Rightarrow> int list list" where
  "algorithm_cell k i j mat = (if mat ! k ! j = 1 then mat[i := (mat ! i)[j := 1]] else mat)"

definition algorithm_row :: "nat \<Rightarrow> nat \<Rightarrow> nat \<Rightarrow> int list list \<Rightarrow> int list list" where
  "algorithm_row n k i mat = (if mat ! i ! k = 1 then fold (algorithm_cell k i) [0..<n] mat else mat)"

definition algorithm_round :: "nat \<Rightarrow> nat \<Rightarrow> int list list \<Rightarrow> int list list" where
  "algorithm_round n k mat = fold (algorithm_row n k) [0..<n] mat"

definition algorithm :: "nat \<Rightarrow> int list list \<Rightarrow> int list list" where
  "algorithm n mat = fold (algorithm_round n) [0..<n] mat"

section \<open>What one loop does to the edge relation\<close>

abbreviation row_edges :: "nat \<Rightarrow> int list list \<Rightarrow> (nat \<times> nat) set" where
  "row_edges n M \<equiv> edges rows_get n M"

lemma algorithm_cell_edges:
  assumes "rows_wf n mat" "i < n" "j < n" "k < n"
  shows "rows_wf n (algorithm_cell k i j mat)"
    and "row_edges n (algorithm_cell k i j mat) =
      row_edges n mat \<union> (if (k, j) \<in> row_edges n mat then {(i, j)} else {})"
proof -
  have cell: "algorithm_cell k i j mat = (if (k, j) \<in> row_edges n mat then rows_put n mat i j 1 else mat)"
    using assms by (simp add: algorithm_cell_def rows_put_def rows_get_def)
  show "rows_wf n (algorithm_cell k i j mat)"
    unfolding cell using assms by (simp add: rows.shape_put)
  show "row_edges n (algorithm_cell k i j mat) =
      row_edges n mat \<union> (if (k, j) \<in> row_edges n mat then {(i, j)} else {})"
    unfolding cell using rows.edges_put_1[OF assms(1-3)] by auto
qed

lemma algorithm_cells_edges:
  assumes "rows_wf n mat" "i < n" "k < n" "set js \<subseteq> {..<n}"
  shows "rows_wf n (fold (algorithm_cell k i) js mat)
    \<and> row_edges n (fold (algorithm_cell k i) js mat) =
      row_edges n mat \<union> {i} \<times> {j \<in> set js. (k, j) \<in> row_edges n mat}"
  using assms(1,4)
proof (induction js arbitrary: mat)
  case (Cons j js)
  from Cons.prems have j: "j < n" "set js \<subseteq> {..<n}" by auto
  note cell = algorithm_cell_edges[OF Cons.prems(1) assms(2) j(1) assms(3)]
  have "(k, j') \<in> row_edges n (algorithm_cell k i j mat) \<longleftrightarrow> (k, j') \<in> row_edges n mat" for j'
    unfolding cell(2) by (auto simp del: edges_iff)
  with Cons.IH[OF cell(1) j(2)] cell(2) show ?case by (auto simp del: edges_iff)
qed simp

lemma algorithm_row_edges:
  assumes "rows_wf n mat" "i < n" "k < n"
  shows "rows_wf n (algorithm_row n k i mat)
    \<and> row_edges n (algorithm_row n k i mat) =
      row_edges n mat \<union> {(i', j). i' = i \<and> (i, k) \<in> row_edges n mat \<and> (k, j) \<in> row_edges n mat}"
proof -
  have "mat ! i ! k = 1 \<longleftrightarrow> (i, k) \<in> row_edges n mat"
    using assms by (simp add: rows_get_def)
  moreover have "set [0..<n] \<subseteq> {..<n}" by auto
  note algorithm_cells_edges[OF assms this]
  ultimately show ?thesis
    using assms(1) by (auto simp: algorithm_row_def)
qed

lemma algorithm_round_edges:
  assumes "rows_wf n mat" "k < n" "set is \<subseteq> {..<n}"
  shows "rows_wf n (fold (algorithm_row n k) is mat)
    \<and> row_edges n (fold (algorithm_row n k) is mat) =
      row_edges n mat \<union> {(i, j). i \<in> set is \<and> (i, k) \<in> row_edges n mat \<and> (k, j) \<in> row_edges n mat}"
  using assms(1,3)
proof (induction "is" arbitrary: mat)
  case (Cons i "is")
  from Cons.prems have i: "i < n" "set is \<subseteq> {..<n}" by auto
  note row = algorithm_row_edges[OF Cons.prems(1) i(1) assms(2)]
  let ?E = "row_edges n mat" and ?E' = "row_edges n (algorithm_row n k i mat)"
  have E': "?E' = ?E \<union> {(i', j). i' = i \<and> (i, k) \<in> ?E \<and> (k, j) \<in> ?E}" using row by blast
  have "(i', k) \<in> ?E' \<longleftrightarrow> (i', k) \<in> ?E" "(k, j) \<in> ?E' \<longleftrightarrow> (k, j) \<in> ?E" for i' j
    unfolding E' by (auto simp del: edges_iff)
  with Cons.IH[of "algorithm_row n k i mat"] row i(2) show ?case
    unfolding E' by (auto simp del: edges_iff)
qed simp

lemma algorithm_rounds_edges:
  assumes "rows_wf n mat" "m \<le> n"
  shows "rows_wf n (fold (algorithm_round n) [0..<m] mat)
    \<and> row_edges n (fold (algorithm_round n) [0..<m] mat) = closure_rounds m (row_edges n mat)"
  using assms(2)
proof (induction m)
  case (Suc m)
  then have IH: "rows_wf n (fold (algorithm_round n) [0..<m] mat)"
    "row_edges n (fold (algorithm_round n) [0..<m] mat) = closure_rounds m (row_edges n mat)" by auto
  let ?mat = "fold (algorithm_round n) [0..<m] mat"
  have sub: "closure_rounds m (row_edges n mat) \<subseteq> {..<n} \<times> {..<n}"
    by (intro closure_rounds_square edges_square)
  have "rows_wf n (algorithm_round n m ?mat) \<and> row_edges n (algorithm_round n m ?mat) =
      row_edges n ?mat \<union> {(i, j). i < n \<and> (i, m) \<in> row_edges n ?mat \<and> (m, j) \<in> row_edges n ?mat}"
    using algorithm_round_edges[OF IH(1), of m "[0..<n]"] Suc.prems
    by (auto simp: algorithm_round_def atLeast0LessThan)
  then show ?case
    using sub unfolding IH(2) by (auto simp: closure_round_def)
qed (use assms in simp)

text \<open>
  C2: the sequential algorithm computes the transitive closure in place: on every n by n matrix
  the cells that hold 1 at the end are exactly the pairs connected by a non-empty path of the
  input graph, and the matrix keeps its shape.
\<close>

theorem algorithm_transitive_closure:
  assumes "rows_wf n mat"
  shows "edges rows_get n (algorithm n mat) = (edges rows_get n mat)\<^sup>+ \<and> rows_wf n (algorithm n mat)"
  using algorithm_rounds_edges[OF assms, of n] closure_rounds_correct[OF edges_square, of n rows_get mat]
  by (simp add: algorithm_def)

theorem algorithm_transitive_closure_witness:
  "edges rows_get 3 (algorithm 3 [[0,1,0],[0,0,1],[0,0,0]]) = (edges rows_get 3 [[0,1,0],[0,0,1],[0,0,0]])\<^sup>+
    \<and> algorithm 3 [[0,1,0],[0,0,1],[0,0,0]] = [[0,1,1],[0,0,1],[0,0,0]]"
proof
  have shape: "rows_wf 3 [[0,1,0],[0,0,1],[0,0,0]]" by (simp add: rows_wf_def)
  show "edges rows_get 3 (algorithm 3 [[0,1,0],[0,0,1],[0,0,0]]) = (edges rows_get 3 [[0,1,0],[0,0,1],[0,0,0]])\<^sup>+"
    using algorithm_transitive_closure[OF shape] by blast
  show "algorithm 3 [[0,1,0],[0,0,1],[0,0,0]] = [[0,1,1],[0,0,1],[0,0,0]]" by code_simp
qed

end
