(* ===== verification/WtcMain.thy ===== *)
theory WtcMain
  imports WtcBtthr Warshall
begin

text \<open>
  \<open>main\<close> of \<open>wtc.c\<close>: the checks of the arguments, the reader of the input file and the choice
  among the four algorithms. The file system is a function from file names to contents. The
  read loop ends only at the end of the file, so it is a partial function: \<open>None\<close> is a loop
  that never ends. An edge outside the matrix is a write outside the allocated rows.
\<close>

section \<open>Reading a number\<close>

datatype scanned = Eof | Mismatch string | Number int string

text \<open>
  \<open>fscanf(fp, "%d", &v)\<close>: the value and the rest of the stream, or the stream from the first
  character that does not fit (a sign is consumed).
\<close>

definition fscanf_d :: "string \<Rightarrow> scanned" where
  "fscanf_d s = (case skip_spaces s of
     [] \<Rightarrow> Eof
   | c # cs \<Rightarrow>
       (case scan_number (c # cs) of
          Some (v, rest) \<Rightarrow> Number (to_int32 (clamp_long v)) rest
        | None \<Rightarrow> Mismatch (if c = CHR ''-'' \<or> c = CHR ''+'' then cs else c # cs)))"

text \<open>The variable and the stream after the call: the variable keeps its value when nothing fits.\<close>

definition scan_into :: "int \<Rightarrow> string \<Rightarrow> int \<times> string" where
  "scan_into v s = (case fscanf_d s of Eof \<Rightarrow> (v, []) | Mismatch t \<Rightarrow> (v, t) | Number w t \<Rightarrow> (w, t))"

section \<open>The input file\<close>

datatype wild = Wild_write

definition in_matrix :: "int \<Rightarrow> int \<Rightarrow> int \<Rightarrow> bool" where
  "in_matrix n i j \<longleftrightarrow> 1 \<le> i \<and> i \<le> n \<and> 1 \<le> j \<and> j \<le> n"

definition set_edge :: "int list list \<Rightarrow> int \<Rightarrow> int \<Rightarrow> int list list" where
  "set_edge A i j = A[nat (i - 1) := (A ! nat (i - 1))[nat (j - 1) := 1]]"

partial_function (option) read_edges ::
  "int \<Rightarrow> int \<Rightarrow> int \<Rightarrow> int list list \<Rightarrow> string \<Rightarrow> (wild + int list list) option" where
  "read_edges num_ver i j A s =
     (if fscanf_d s = Eof then Some (Inr A)
      else let (i', s') = scan_into i s in
        if fscanf_d s' = Eof then Some (Inr A)
        else let (j', s'') = scan_into j s' in
          if in_matrix num_ver i' j' then read_edges num_ver i' j' (set_edge A i' j') s''
          else Some (Inl Wild_write))"

text \<open>The adjacency matrix of the file: after the loops that clear it, \<open>i\<close> and \<open>j\<close> are \<open>num_ver\<close>.\<close>

definition read_graph :: "string \<Rightarrow> int \<times> int \<times> (wild + int list list) option" where
  "read_graph text =
     (let (num_pt, s) = scan_into 0 text; (num_ver, s') = scan_into 0 s
      in (num_pt, num_ver, read_edges num_ver num_ver num_ver (zero_rows (nat num_ver)) s'))"

section \<open>The program\<close>

datatype main_result = Refused string | Wild | Ran wtc_result

definition wtc_main ::
  "os_env \<Rightarrow> actor list \<Rightarrow> (string \<Rightarrow> string option) \<Rightarrow> string list \<Rightarrow> main_result option" where
  "wtc_main env sched fopen argv =
     (if length argv \<noteq> 3 then Some (Refused ''Invalid number of arguments!'')
      else let choice = atoi (argv ! 1) in
        if choice < 1 \<or> choice > 4 then Some (Refused ''Invalid choice!'')
        else case fopen (argv ! 2) of
          None \<Rightarrow> Some (Refused ''Error opening file!'')
        | Some text \<Rightarrow>
            (let (num_pt, num_ver, r) = read_graph text in
             case r of
               None \<Rightarrow> None
             | Some (Inl _) \<Rightarrow> Some Wild
             | Some (Inr A) \<Rightarrow>
                 map_option Ran
                   (if choice = 1 then wtc_proc env sched (nat num_pt) (nat num_ver) A
                    else if choice = 2 then wtc_thr env sched (nat num_pt) (nat num_ver) A
                    else if choice = 3 then wtc_btproc env sched (nat num_pt) (nat num_ver) A
                    else wtc_btthr env sched (nat num_pt) (nat num_ver) A)))"

section \<open>Reading what was written\<close>

lemma skip_spaces_blank: "is_space c \<Longrightarrow> skip_spaces (c # s) = skip_spaces s"
  by simp

lemma fscanf_d_render:
  assumes "- (2 ^ 31) \<le> v" "v < 2 ^ 31" and "rest = [] \<or> \<not> is_digit (hd rest)"
  shows "fscanf_d (render_int v @ rest) = Number v rest"
proof -
  have "clamp_long v = v" using assms by (intro clamp_long_id) auto
  moreover obtain c cs where r: "render_int v = c # cs" by (cases "render_int v") auto
  moreover have "skip_spaces (render_int v @ rest) = render_int v @ rest" by simp
  moreover have "scan_number (render_int v @ rest) = Some (v, rest)" by (rule scan_number_render[OF assms(3)])
  ultimately show ?thesis using assms(1,2) by (simp add: fscanf_d_def to_int32_id)
qed

lemma fscanf_d_blank: "is_space c \<Longrightarrow> fscanf_d (c # s) = fscanf_d s"
  by (simp add: fscanf_d_def)

lemma scan_into_blank: "is_space c \<Longrightarrow> scan_into v (c # s) = scan_into v s"
  by (simp add: scan_into_def fscanf_d_blank)

lemma blanks: "is_space newline" "is_space CHR '' ''" "\<not> is_digit newline" "\<not> is_digit CHR '' ''"
  by (simp_all add: is_space_def is_digit_def newline_def)

fun edge_lines :: "(int \<times> int) list \<Rightarrow> string" where
  "edge_lines [] = []"
| "edge_lines ((i, j) # es) = render_int i @ '' '' @ render_int j @ [newline] @ edge_lines es"

definition graph_file :: "int \<Rightarrow> int \<Rightarrow> (int \<times> int) list \<Rightarrow> string" where
  "graph_file num_pt num_ver es =
     render_int num_pt @ [newline] @ render_int num_ver @ [newline] @ edge_lines es"

definition edges_ok :: "int \<Rightarrow> (int \<times> int) list \<Rightarrow> bool" where
  "edges_ok n es \<longleftrightarrow> (\<forall>(i, j) \<in> set es. in_matrix n i j)"

lemma read_edge_lines:
  assumes "n < 2 ^ 31" "edges_ok n es"
  shows "read_edges n i j A (newline # edge_lines es) = Some (Inr (fold (\<lambda>(i, j) A. set_edge A i j) es A))"
  using assms(2)
proof (induction es arbitrary: i j A)
  case Nil
  have "fscanf_d [newline] = Eof" by (simp add: fscanf_d_blank blanks) (simp add: fscanf_d_def)
  then show ?case by (subst read_edges.simps) simp
next
  case (Cons e es)
  obtain a b where e: "e = (a, b)" by (cases e)
  with Cons.prems have ab: "in_matrix n a b" "edges_ok n es" by (simp_all add: edges_ok_def)
  have r: "- (2 ^ 31) \<le> a" "a < 2 ^ 31" "- (2 ^ 31) \<le> b" "b < 2 ^ 31"
    using ab(1) assms(1) by (auto simp: in_matrix_def)
  let ?s' = "CHR '' '' # render_int b @ newline # edge_lines es"
  have "fscanf_d (render_int a @ ?s') = Number a ?s'" by (rule fscanf_d_render) (use r blanks in auto)
  then have 1: "fscanf_d (newline # render_int a @ ?s') = Number a ?s'"
    by (simp add: fscanf_d_blank blanks)
  have "fscanf_d (render_int b @ newline # edge_lines es) = Number b (newline # edge_lines es)"
    by (rule fscanf_d_render) (use r blanks in auto)
  then have 2: "fscanf_d ?s' = Number b (newline # edge_lines es)" by (simp add: fscanf_d_blank blanks)
  show ?case
    by (subst read_edges.simps) (simp add: scan_into_def 1 2 ab(1) Cons.IH[OF ab(2)] e)
qed

text \<open>The graph of a file: vertices are numbered from 1 there and from 0 in the matrix.\<close>

definition file_graph :: "(int \<times> int) list \<Rightarrow> (nat \<times> nat) set" where
  "file_graph es = set (map (\<lambda>(i, j). (nat (i - 1), nat (j - 1))) es)"

text \<open>The relation the matrix of the edges stores.\<close>

lemma set_edge_put: "set_edge A i j = rows_put n A (nat (i - 1)) (nat (j - 1)) 1"
  by (simp add: set_edge_def rows_put_def)

lemma fold_set_edges:
  assumes "edges_ok n es" "rows_wf (nat n) A" "binary rows_get (nat n) A"
  shows "rows_wf (nat n) (fold (\<lambda>(i, j) A. set_edge A i j) es A)
    \<and> binary rows_get (nat n) (fold (\<lambda>(i, j) A. set_edge A i j) es A)
    \<and> edges rows_get (nat n) (fold (\<lambda>(i, j) A. set_edge A i j) es A) =
      edges rows_get (nat n) A \<union> file_graph es"
  using assms
proof (induction es arbitrary: A)
  case (Cons e es)
  obtain a b where e: "e = (a, b)" by (cases e)
  with Cons.prems have ab: "in_matrix n a b" "edges_ok n es" by (simp_all add: edges_ok_def)
  then have less: "nat (a - 1) < nat n" "nat (b - 1) < nat n" by (auto simp: in_matrix_def)
  let ?A = "rows_put (nat n) A (nat (a - 1)) (nat (b - 1)) 1"
  have A: "rows_wf (nat n) ?A" "binary rows_get (nat n) ?A"
    "edges rows_get (nat n) ?A = insert (nat (a - 1), nat (b - 1)) (edges rows_get (nat n) A)"
    using rows.shape_put[OF Cons.prems(2) less] rows.binary_put[OF Cons.prems(2) less Cons.prems(3)]
      rows.edges_put_1[OF Cons.prems(2) less] by simp_all
  have step: "fold (\<lambda>(i, j) A. set_edge A i j) (e # es) A = fold (\<lambda>(i, j) A. set_edge A i j) es ?A"
    by (simp add: e set_edge_put[of A a b "nat n"])
  show ?case
    using Cons.IH[OF ab(2) A(1,2)] unfolding step A(3) by (auto simp: e file_graph_def simp del: edges_iff)
qed (simp add: file_graph_def)

lemma read_graph_file:
  assumes "- (2 ^ 31) \<le> p" "p < 2 ^ 31" "- (2 ^ 31) \<le> n" "n < 2 ^ 31" "edges_ok n es"
  shows "\<exists>A. read_graph (graph_file p n es) = (p, n, Some (Inr A)) \<and> rows_wf (nat n) A
    \<and> binary rows_get (nat n) A \<and> edges rows_get (nat n) A = file_graph es"
proof -
  let ?A = "fold (\<lambda>(i, j) A. set_edge A i j) es (zero_rows (nat n))"
  have p: "fscanf_d (graph_file p n es) = Number p (newline # render_int n @ newline # edge_lines es)"
    unfolding graph_file_def append.simps
    by (rule fscanf_d_render[OF assms(1,2)]) (simp add: blanks)
  have "fscanf_d (render_int n @ newline # edge_lines es) = Number n (newline # edge_lines es)"
    by (rule fscanf_d_render[OF assms(3,4)]) (simp add: blanks)
  then have n: "fscanf_d (newline # render_int n @ newline # edge_lines es) = Number n (newline # edge_lines es)"
    by (simp add: fscanf_d_blank blanks)
  have "read_graph (graph_file p n es) = (p, n, Some (Inr ?A))"
    by (simp add: read_graph_def scan_into_def p n read_edge_lines[OF assms(4,5)])
  with fold_set_edges[OF assms(5) zero_rows(1,2)] show ?thesis
    by (simp add: zero_rows(3))
qed

section \<open>Properties\<close>

text \<open>
  C1: from the command line to the output: for a graph file in the format of \<open>filegenerator.py\<close>
  with at least one worker, each of the four choices prints the transitive closure of the graph
  of the file whenever it prints a result, whatever the schedule.
\<close>

theorem wtc_main_prints_closure:
  assumes "1 \<le> num_pt" "num_pt < 2 ^ 31" "0 \<le> num_ver" "num_ver < 2 ^ 31" "edges_ok num_ver es"
    and "fopen file = Some (graph_file num_pt num_ver es)"
    and "\<And>k. create_ok env k"
    and "1 \<le> choice" "choice \<le> 4"
    and "wtc_main env sched fopen [prog, render_int choice, file] = Some (Ran (Output out))"
  shows "out = ''Output:'' @ [newline] @ render_relation (nat num_ver) ((file_graph es)\<^sup>+)"
proof -
  obtain A where read: "read_graph (graph_file num_pt num_ver es) = (num_pt, num_ver, Some (Inr A))"
    and A: "rows_wf (nat num_ver) A" "binary rows_get (nat num_ver) A" "edges rows_get (nat num_ver) A = file_graph es"
    using read_graph_file[of num_pt num_ver es] assms by auto
  have "atoi (render_int choice) = choice" by (rule atoi_render_int) (use assms in auto)
  then have run: "(if choice = 1 then wtc_proc env sched (nat num_pt) (nat num_ver) A
      else if choice = 2 then wtc_thr env sched (nat num_pt) (nat num_ver) A
      else if choice = 3 then wtc_btproc env sched (nat num_pt) (nat num_ver) A
      else wtc_btthr env sched (nat num_pt) (nat num_ver) A) = Some (Output out)"
    using assms read by (simp add: wtc_main_def)
  have N: "0 < nat num_pt" using assms(1) by simp
  have split: "choice = 1 \<or> choice = 2 \<or> choice = 3 \<or> choice = 4" using assms(8,9) by linarith
  have "out = ''Output:'' @ [newline] @ render_relation (nat num_ver) ((edges rows_get (nat num_ver) A)\<^sup>+)"
    using split run proc_output_closure[OF N A(2) assms(7)] thr_output_closure[OF N A(1,2) assms(7)]
      btproc_output_closure[OF N A(2) assms(7)] btthr_output_closure[OF N A(1,2) assms(7)]
    by (auto split: if_splits)
  then show ?thesis by (simp only: A(3))
qed

lemma zero_rows_step: "zero_rows 0 = []" "zero_rows (Suc n) = replicate (Suc n) (0 # replicate n 0)"
  by (simp_all add: zero_rows_def)

text \<open>A run of the whole program on the file with two workers, two vertices and the edges 1-2, 2-1.\<close>

lemma main_demo_run:
  "wtc_main kind_env demo_schedule (\<lambda>_. Some (graph_file 2 2 [(1, 2), (2, 1)])) [''wtc'', render_int 1, ''g''] =
     Some (Ran (Output (''Output:'' @ [newline] @ '' 1 1 '' @ [newline] @ '' 1 1 '' @ [newline] @ '' '' @ [newline])))"
proof -
  have "read_edges 2 2 2 (zero_rows 2) (newline # edge_lines [(1, 2), (2, 1)]) =
      Some (Inr (fold (\<lambda>(i, j) A. set_edge A i j) [(1, 2), (2, 1)] (zero_rows 2)))"
    by (rule read_edge_lines) (simp_all add: edges_ok_def in_matrix_def)
  also have "fold (\<lambda>(i, j) A. set_edge A i j) [(1, 2), (2, 1)] (zero_rows 2) = [[0, 1], [1, 0]]" by code_simp
  finally have r: "read_edges 2 2 2 (zero_rows 2) (newline # edge_lines [(1, 2), (2, 1)]) = Some (Inr [[0, 1], [1, 0]])" .
  have "scan_into 0 (graph_file 2 2 [(1, 2), (2, 1)]) = (2, newline # render_int 2 @ newline # edge_lines [(1, 2), (2, 1)])"
    "scan_into 0 (newline # render_int 2 @ newline # edge_lines [(1, 2), (2, 1)]) = (2, newline # edge_lines [(1, 2), (2, 1)])"
    by code_simp+
  with r have "read_graph (graph_file 2 2 [(1, 2), (2, 1)]) = (2, 2, Some (Inr [[0, 1], [1, 0]]))"
    by (simp add: read_graph_def)
  moreover have "atoi (render_int 1) = 1" by (rule atoi_render_int) simp_all
  ultimately show ?thesis using demo_run by (simp add: wtc_main_def)
qed

theorem wtc_main_prints_closure_witness:
  "wtc_main kind_env demo_schedule (\<lambda>_. Some (graph_file 2 2 [(1, 2), (2, 1)])) [''wtc'', render_int 1, ''g''] =
     Some (Ran (Output (''Output:'' @ [newline] @ render_relation (nat 2) ((file_graph [(1, 2), (2, 1)])\<^sup>+))))"
proof -
  note run = main_demo_run
  have "edges_ok 2 [(1, 2), (2, 1)]" by (simp add: edges_ok_def in_matrix_def)
  from wtc_main_prints_closure[OF _ _ _ _ this refl _ _ _ run] run show ?thesis by (simp add: kind_env_def)
qed

text \<open>
  C23: the reader takes the whole file and nothing else: for a file of two header numbers and edge
  lines, all in the range of \<open>int\<close> and of the matrix, the loop ends at the end of the file with
  a square 0/1 matrix that holds exactly the edges of the file.
\<close>

theorem read_graph_roundtrip:
  assumes "- (2 ^ 31) \<le> num_pt" "num_pt < 2 ^ 31" "- (2 ^ 31) \<le> num_ver" "num_ver < 2 ^ 31"
    and "edges_ok num_ver es"
  shows "\<exists>A. read_graph (graph_file num_pt num_ver es) = (num_pt, num_ver, Some (Inr A))
    \<and> rows_wf (nat num_ver) A \<and> binary rows_get (nat num_ver) A
    \<and> edges rows_get (nat num_ver) A = file_graph es"
  by (rule read_graph_file[OF assms])

theorem read_graph_roundtrip_witness:
  "\<exists>A. read_graph (graph_file 2 3 [(1, 2), (3, 3)]) = (2, 3, Some (Inr A))
    \<and> edges rows_get 3 A = {(0, 1), (2, 2)}"
proof -
  have "edges_ok 3 [(1, 2), (3, 3)]" by (simp add: edges_ok_def in_matrix_def)
  from read_graph_roundtrip[OF _ _ _ _ this, of 2] obtain A where
    "read_graph (graph_file 2 3 [(1, 2), (3, 3)]) = (2, 3, Some (Inr A))"
    "edges rows_get 3 A = file_graph [(1, 2), (3, 3)]" by auto
  moreover have "file_graph [(1, 2), (3, 3)] = {(0, 1), (2, 2)}" by (simp add: file_graph_def)
  ultimately show ?thesis by auto
qed

text \<open>An edge with a vertex outside \<open>1 .. num_ver\<close> is written outside the matrix.\<close>

lemma read_edge_wild:
  assumes "- (2 ^ 31) \<le> a" "a < 2 ^ 31" "- (2 ^ 31) \<le> b" "b < 2 ^ 31" "\<not> in_matrix n a b"
  shows "read_edges n i j A (newline # edge_lines ((a, b) # es)) = Some (Inl Wild_write)"
proof -
  let ?s' = "CHR '' '' # render_int b @ newline # edge_lines es"
  have "fscanf_d (render_int a @ ?s') = Number a ?s'" by (rule fscanf_d_render) (use assms blanks in auto)
  then have 1: "fscanf_d (newline # render_int a @ ?s') = Number a ?s'"
    by (simp add: fscanf_d_blank blanks)
  have "fscanf_d (render_int b @ newline # edge_lines es) = Number b (newline # edge_lines es)"
    by (rule fscanf_d_render) (use assms blanks in auto)
  then have 2: "fscanf_d ?s' = Number b (newline # edge_lines es)" by (simp add: fscanf_d_blank blanks)
  show ?thesis by (subst read_edges.simps) (simp add: scan_into_def 1 2 assms(5))
qed

text \<open>
  The indices of the file are not checked: after the two numbers of the header, an edge with a
  vertex number that is 0, negative or larger than \<open>num_ver\<close> makes the program write outside the
  matrix, whichever algorithm was chosen.
\<close>

theorem wtc_main_wild_edge:
  assumes "- (2 ^ 31) \<le> p" "p < 2 ^ 31" "- (2 ^ 31) \<le> n" "n < 2 ^ 31"
    and "- (2 ^ 31) \<le> a" "a < 2 ^ 31" "- (2 ^ 31) \<le> b" "b < 2 ^ 31" "\<not> in_matrix n a b"
    and "fopen file = Some (graph_file p n ((a, b) # es))" "1 \<le> choice" "choice \<le> 4"
  shows "wtc_main env sched fopen [prog, render_int choice, file] = Some Wild"
proof -
  have p: "fscanf_d (graph_file p n ((a, b) # es)) = Number p (newline # render_int n @ newline # edge_lines ((a, b) # es))"
    unfolding graph_file_def append.simps
    by (rule fscanf_d_render[OF assms(1,2)]) (simp add: blanks)
  have "fscanf_d (render_int n @ newline # edge_lines ((a, b) # es)) = Number n (newline # edge_lines ((a, b) # es))"
    by (rule fscanf_d_render[OF assms(3,4)]) (simp add: blanks)
  then have n: "fscanf_d (newline # render_int n @ newline # edge_lines ((a, b) # es)) = Number n (newline # edge_lines ((a, b) # es))"
    by (simp add: fscanf_d_blank blanks)
  have "atoi (render_int choice) = choice" by (rule atoi_render_int) (use assms in auto)
  moreover have "read_graph (graph_file p n ((a, b) # es)) = (p, n, Some (Inl Wild_write))"
    unfolding read_graph_def scan_into_def p
    using n read_edge_wild[OF assms(5-9)] by (simp del: edge_lines.simps)
  ultimately show ?thesis using assms(10-12) by (simp add: wtc_main_def)
qed

theorem wtc_main_wild_edge_witness:
  "wtc_main kind_env [] (\<lambda>_. Some (graph_file 2 2 [(0, 1)])) [''wtc'', render_int 4, ''g''] = Some Wild"
  by (rule wtc_main_wild_edge[of 2 2 0 1]) (simp_all add: in_matrix_def)

text \<open>A character that is no blank, sign or digit stops the stream: every later call fails on it.\<close>

definition blocks :: "char \<Rightarrow> bool" where
  "blocks c \<longleftrightarrow> \<not> is_space c \<and> \<not> is_digit c \<and> c \<noteq> CHR ''-'' \<and> c \<noteq> CHR ''+''"

lemma fscanf_d_blocked: "blocks c \<Longrightarrow> fscanf_d (c # cs) = Mismatch (c # cs)"
  by (simp add: blocks_def fscanf_d_def scan_number_def)

lemma read_edges_blocked:
  assumes "read_edges n i j A s = Some r"
  shows "\<forall>c cs. s = c # cs \<and> blocks c \<and> in_matrix n i j \<longrightarrow> False"
proof (rule read_edges.raw_induct[OF _ assms,
      where P = "\<lambda>n i j A s r. \<forall>c cs. s = c # cs \<and> blocks c \<and> in_matrix n i j \<longrightarrow> False"])
  fix f n i j A s r
  assume IH: "\<And>n i j A s r. f n i j A s = Some r \<Longrightarrow>
      \<forall>c cs. s = c # cs \<and> blocks c \<and> in_matrix n i j \<longrightarrow> False"
    and step: "(if fscanf_d s = Eof then Some (Inr A)
      else let (i', s') = scan_into i s in
        if fscanf_d s' = Eof then Some (Inr A)
        else let (j', s'') = scan_into j s' in
          if in_matrix n i' j' then f n i' j' (set_edge A i' j') s'' else Some (Inl Wild_write)) = Some r"
  show "\<forall>c cs. s = c # cs \<and> blocks c \<and> in_matrix n i j \<longrightarrow> False"
  proof (intro allI impI)
    fix c cs assume stuck: "s = c # cs \<and> blocks c \<and> in_matrix n i j"
    with step have "f n i j (set_edge A i j) (c # cs) = Some r"
      by (simp add: scan_into_def fscanf_d_blocked)
    from IH[OF this] stuck show False by blast
  qed
qed

text \<open>
  The loop condition tests only for the end of the file. When the edge list of a non-empty graph
  has a character that cannot begin a number, \<open>fscanf\<close> keeps failing without consuming it, and
  \<open>main\<close> sets the same matrix cell for ever.
\<close>

theorem read_graph_diverges:
  assumes "0 \<le> num_pt" "num_pt < 2 ^ 31" "1 \<le> num_ver" "num_ver < 2 ^ 31" "blocks c"
  shows "read_graph (render_int num_pt @ [newline] @ render_int num_ver @ c # cs) = (num_pt, num_ver, None)"
proof -
  have p: "fscanf_d (render_int num_pt @ newline # render_int num_ver @ c # cs) =
      Number num_pt (newline # render_int num_ver @ c # cs)"
    by (rule fscanf_d_render) (use assms blanks in auto)
  have "fscanf_d (render_int num_ver @ c # cs) = Number num_ver (c # cs)"
    by (rule fscanf_d_render) (use assms in \<open>auto simp: blocks_def\<close>)
  then have n: "fscanf_d (newline # render_int num_ver @ c # cs) = Number num_ver (c # cs)"
    by (simp add: fscanf_d_blank blanks)
  have "in_matrix num_ver num_ver num_ver" using assms(3) by (simp add: in_matrix_def)
  then have "read_edges num_ver num_ver num_ver (zero_rows (nat num_ver)) (c # cs) = None"
    using read_edges_blocked[of num_ver num_ver num_ver "zero_rows (nat num_ver)" "c # cs"] assms(5)
    by (cases "read_edges num_ver num_ver num_ver (zero_rows (nat num_ver)) (c # cs)") auto
  then show ?thesis by (simp add: read_graph_def scan_into_def p n)
qed

theorem read_graph_diverges_witness:
  "read_graph (render_int 2 @ [newline] @ render_int 3 @ CHR ''x'' # []) = (2, 3, None)"
  by (rule read_graph_diverges) (simp_all add: blocks_def is_space_def is_digit_def)

section \<open>The sizes of the shared memory\<close>

text \<open>
  \<open>int size2 = sizeof(int)*numVerts*numVerts\<close> is truncated to \<open>int\<close>, and \<open>size2*2\<close> is computed in
  \<open>int\<close>; the file behind each matrix gets that many bytes.
\<close>

definition matrix_bytes :: "nat \<Rightarrow> int" where
  "matrix_bytes numVerts =
     (let size2 = to_int32 (4 * int numVerts * int numVerts) in to_int32 (size2 * 2))"

text \<open>
  The size computed for a shared matrix is that of the array the model uses exactly when the
  graph has at most 16383 vertices; then every row-major index of the program also fits an
  \<open>int\<close>.
\<close>

theorem matrix_bytes_exact:
  "(matrix_bytes n = 4 * int (length (zeroed n)) \<longleftrightarrow> n \<le> 16383)
    \<and> (n \<le> 16383 \<and> i < n \<and> j < n \<longrightarrow> int (i * n + j) < 2 ^ 31)"
proof
  have len: "4 * int (length (zeroed n)) = 8 * (int n * int n)" by (simp add: zeroed_def)
  show "matrix_bytes n = 4 * int (length (zeroed n)) \<longleftrightarrow> n \<le> 16383"
  proof
    assume "n \<le> 16383"
    then have n: "int n * int n \<le> 16383 * 16383" by (intro mult_mono) auto
    have "to_int32 (4 * m) = 4 * m \<and> to_int32 (4 * m * 2) = 8 * m" if "0 \<le> m" "m \<le> 16383 * 16383" for m
      using that by (auto intro!: to_int32_id[THEN trans])
    from this[OF _ n] show "matrix_bytes n = 4 * int (length (zeroed n))" by (simp add: matrix_bytes_def Let_def len mult.assoc)
  next
    assume eq: "matrix_bytes n = 4 * int (length (zeroed n))"
    show "n \<le> 16383"
    proof (rule ccontr)
      assume "\<not> n \<le> 16383"
      then have "16384 * 16384 \<le> int n * int n" by (intro mult_mono) auto
      then have "2 ^ 31 \<le> 4 * int (length (zeroed n))" by (simp add: len)
      moreover have "matrix_bytes n < 2 ^ 31" unfolding matrix_bytes_def Let_def by (rule to_int32_range)
      ultimately show False using eq by linarith
    qed
  qed
next
  show "n \<le> 16383 \<and> i < n \<and> j < n \<longrightarrow> int (i * n + j) < 2 ^ 31"
  proof
    assume a: "n \<le> 16383 \<and> i < n \<and> j < n"
    then have "i * n + j < n * n" by (intro row_major_less) auto
    moreover have "n * n \<le> 16383 * 16383" using a by (intro mult_mono) auto
    ultimately have "i * n + j < 16383 * 16383 + 1" by linarith
    then have "int (i * n + j) < int (16383 * 16383 + 1)" by (simp only: of_nat_less_iff)
    then show "int (i * n + j) < 2 ^ 31" by simp
  qed
qed

theorem matrix_bytes_exact_witness:
  "matrix_bytes 1000 = 4 * int (length (zeroed 1000)) \<and> int (999 * 1000 + 999) < (2 ^ 31 :: int)
    \<and> matrix_bytes 16384 \<noteq> 4 * int (length (zeroed 16384))"
  using matrix_bytes_exact[of 1000 999 999] matrix_bytes_exact[of 16384 0 0] by auto

end
