(* ===== verification/WtcAttempt.thy ===== *)
theory WtcAttempt
  imports WtcThr Warshall
begin

text \<open>
  The two drafts of the transitive closure that the assignment keeps: \<open>wtc_proc_old.c\<close>, where a fork
  follows the sequential algorithm, and \<open>wtc_thr_cond_var_attempt.c\<close>, where threads report by
  condition variables. In the second, a signal wakes the main thread if it waits at that moment and
  is lost otherwise; there are no spurious wake-ups. The code initialises only the first mutex and
  the first condition (\<open>nThr\<close> times) and never locks a mutex; the model takes all of them as
  initialised and operations on mutexes that no one else uses as without effect.
\<close>

section \<open>The fork after the algorithm\<close>

text \<open>\<open>parent\<close>: 1 is \<open>EXIT_FAILURE\<close>; otherwise the return values in the processes that there are then.\<close>

definition parent_old :: "bool \<Rightarrow> bool \<Rightarrow> nat + int list" where
  "parent_old semget_ok fork_ok = (if \<not> semget_ok then Inl 1 else Inr (if fork_ok then [0, 0] else [0]))"

definition algorithm_old :: "bool \<Rightarrow> bool \<Rightarrow> nat \<Rightarrow> int list list \<Rightarrow> nat + int list list list" where
  "algorithm_old semget_ok fork_ok n mat =
     (let mat = algorithm n mat in
      case parent_old semget_ok fork_ok of Inl e \<Rightarrow> Inl e | Inr rets \<Rightarrow> Inr (map (\<lambda>_. mat) rets))"

lemma algorithm_old_returns_twice:
  "algorithm_old True True n mat = Inr [algorithm n mat, algorithm n mat]"
  by (simp add: algorithm_old_def parent_old_def Let_def)

section \<open>Threads and condition variables\<close>

datatype attempt_pc = AUnborn | AK nat | ARow nat nat | ACell nat nat nat | ASignal | AExit

datatype attempt_main =
  MCreate nat | MRound nat | MUnlock nat nat | MWait nat nat | MBlocked nat nat
| MRow nat nat | MCell nat nat nat | MJoin nat | MEnd | MAbort

text \<open>\<open>M_prev\<close> and \<open>M_curr\<close> both point to the matrix that the caller passed.\<close>

record attempt =
  main :: attempt_main
  worker :: "nat \<Rightarrow> attempt_pc"
  mat :: "int list list"







section \<open>Lost signals\<close>






section \<open>What the threads compute\<close>














end
