(* ===== verification/SnfsServer.thy ===== *)
theory SnfsServer
  imports CString
begin

text \<open>
  \<open>serverSNFS.c\<close>: the request handler and the remote file operations. The operating system below
  the server is a record of functions over a world \<open>'w\<close>; what the server makes of it is the
  model. A response is the content of the buffer the C function returns, \<open>None\<close> is the null
  pointer, and an access outside a buffer, through a null pointer or of an uninitialised pointer
  is a fault of the handler.
\<close>

datatype fault = Null_deref | Overflow | Overread | Uninitialised

type_synonym ('a, 'w) outcome = "(fault + 'a) \<times> 'w"

section \<open>The operating system\<close>

record file_stat =
  st_mode :: int
  st_ino :: int
  st_dev :: int
  st_uid :: int
  st_gid :: int
  st_atime :: int
  st_ctime :: int
  st_mtime :: int
  st_nlink :: int
  st_size :: int

text \<open>
  The system calls with their results; \<open>os_opendir\<close> gives the address of the stream, 0 on failure,
  and \<open>os_names\<close> the names that \<open>opendir\<close>, \<open>readdir\<close> and \<open>closedir\<close> produce. \<open>os_stale\<close> is the
  memory that \<open>malloc\<close> returns for a \<open>struct stat\<close>.
\<close>

record 'w os =
  os_creat :: "string \<Rightarrow> int \<Rightarrow> 'w \<Rightarrow> int \<times> 'w"
  os_open :: "string \<Rightarrow> int \<Rightarrow> 'w \<Rightarrow> int \<times> 'w"
  os_close :: "int \<Rightarrow> 'w \<Rightarrow> 'w"
  os_pread :: "int \<Rightarrow> nat \<Rightarrow> int \<Rightarrow> 'w \<Rightarrow> string \<times> 'w"
  os_pwrite :: "int \<Rightarrow> string \<Rightarrow> int \<Rightarrow> 'w \<Rightarrow> int \<times> 'w"
  os_truncate :: "string \<Rightarrow> int \<Rightarrow> 'w \<Rightarrow> int \<times> 'w"
  os_mkdir :: "string \<Rightarrow> int \<Rightarrow> 'w \<Rightarrow> int \<times> 'w"
  os_opendir :: "string \<Rightarrow> 'w \<Rightarrow> nat \<times> 'w"
  os_closedir :: "nat \<Rightarrow> 'w \<Rightarrow> 'w"
  os_names :: "string \<Rightarrow> 'w \<Rightarrow> string list option"
  os_lstat :: "string \<Rightarrow> 'w \<Rightarrow> file_stat option"
  os_unlink :: "string \<Rightarrow> 'w \<Rightarrow> int \<times> 'w"
  os_stale :: file_stat

section \<open>Buffers\<close>

abbreviation NUL :: char where
  "NUL \<equiv> CHR 0x00"

text \<open>\<open>sprintf\<close> of a text into a buffer of \<open>cap\<close> bytes.\<close>

definition put_text :: "nat \<Rightarrow> string \<Rightarrow> fault + string option" where
  "put_text cap text = (if length text < cap then Inr (Some (text @ [NUL])) else Inl Overflow)"

definition to_uint32 :: "int \<Rightarrow> int" where
  "to_uint32 v = v mod 2 ^ 32"

text \<open>\<open>full_path\<close>: \<open>root_path\<close> is a null pointer until \<open>-mount\<close> sets it.\<close>

definition with_path :: "string option \<Rightarrow> string \<Rightarrow> (string \<Rightarrow> 'w \<Rightarrow> ('a, 'w) outcome) \<Rightarrow> 'w \<Rightarrow> ('a, 'w) outcome" where
  "with_path root path f w = (case root of None \<Rightarrow> (Inl Null_deref, w) | Some r \<Rightarrow> f (r @ path) w)"

section \<open>The remote operations\<close>

definition remote_create :: "'w os \<Rightarrow> string option \<Rightarrow> string \<Rightarrow> int \<Rightarrow> 'w \<Rightarrow> (string option, 'w) outcome" where
  "remote_create os root path mode =
     with_path root path (\<lambda>full_path w.
       let (fd, w') = os_creat os full_path mode w in (put_text 4 (render_int fd), w'))"

definition remote_truncate :: "'w os \<Rightarrow> string option \<Rightarrow> string \<Rightarrow> int \<Rightarrow> 'w \<Rightarrow> (string option, 'w) outcome" where
  "remote_truncate os root path newsize =
     with_path root path (\<lambda>full_path w.
       let (retstat, w') = os_truncate os full_path newsize w in (put_text 5 (render_int retstat), w'))"

text \<open>
  \<open>strchr\<close> on \<open>NULL + 1\<close> faults; with only the fourth comma missing \<open>pwrite\<close> gets an address that
  the kernel refuses. The bytes behind the terminating NUL are not the program's to read.
\<close>

definition remote_write ::
  "'w os \<Rightarrow> string \<Rightarrow> int \<Rightarrow> int \<Rightarrow> string \<Rightarrow> 'w \<Rightarrow> (string option, 'w) outcome" where
  "remote_write os pointer sz offset buffer w =
     (case after_comma buffer of None \<Rightarrow> (Inl Null_deref, w) | Some b1 \<Rightarrow>
      case after_comma b1 of None \<Rightarrow> (Inl Null_deref, w) | Some b2 \<Rightarrow>
      case after_comma b2 of None \<Rightarrow> (Inl Null_deref, w) | Some b3 \<Rightarrow>
      case after_comma b3 of
        None \<Rightarrow> (if sz = 0
          then let (x, w') = os_pwrite os (atoi pointer) [] offset w in (put_text 5 (render_int x), w')
          else (put_text 5 (render_int (- 1)), w))
      | Some data \<Rightarrow>
          (if 0 \<le> sz \<and> sz \<le> int (length data + 1)
           then let (x, w') = os_pwrite os (atoi pointer) (take (nat sz) (data @ [NUL])) offset w
                in (put_text 5 (render_int x), w')
           else (Inl Overread, w)))"

definition remote_release :: "'w os \<Rightarrow> string \<Rightarrow> 'w \<Rightarrow> (string option, 'w) outcome" where
  "remote_release os pointer w = (Inr (Some [NUL]), os_close os (atoi pointer) w)"

text \<open>A negative size is huge as a \<open>size_t\<close>: \<open>calloc\<close> returns a null pointer and \<open>pread\<close> fails on it.\<close>

definition remote_read :: "'w os \<Rightarrow> string \<Rightarrow> int \<Rightarrow> int \<Rightarrow> 'w \<Rightarrow> (string option, 'w) outcome" where
  "remote_read os pointer sz offset w =
     (if sz < 0 then (Inr None, w)
      else let (bytes, w') = os_pread os (atoi pointer) (nat sz) offset w
           in (Inr (Some (bytes @ replicate (nat sz - length bytes) NUL)), w'))"

definition remote_mkdir :: "'w os \<Rightarrow> string option \<Rightarrow> string \<Rightarrow> int \<Rightarrow> 'w \<Rightarrow> (string option, 'w) outcome" where
  "remote_mkdir os root path mode =
     with_path root path (\<lambda>full_path w.
       let (retstat, w') = os_mkdir os full_path mode w in (put_text 5 (render_int retstat), w'))"

definition remote_releasedir :: "'w os \<Rightarrow> string \<Rightarrow> 'w \<Rightarrow> (string option, 'w) outcome" where
  "remote_releasedir os pointer w = (Inr (Some [NUL]), os_closedir os (strtoull pointer) w)"

definition remote_opendir :: "'w os \<Rightarrow> string option \<Rightarrow> string \<Rightarrow> 'w \<Rightarrow> (string option, 'w) outcome" where
  "remote_opendir os root path =
     with_path root path (\<lambda>full_path w.
       let (dp, w') = os_opendir os full_path w in (put_text 8 (render_nat dp), w'))"

definition status_text :: "file_stat \<Rightarrow> string" where
  "status_text st =
     (let d = (\<lambda>v. render_int (to_int32 v)) in
      d (st_mode st) @ '', '' @ d (st_ino st) @ '', '' @ d (st_dev st) @ '', '' @ d (st_uid st)
      @ '', '' @ d (st_gid st) @ '', '' @ d (st_atime st) @ '', '' @ d (st_ctime st)
      @ '', '' @ d (st_mtime st) @ '', '' @ d (st_nlink st) @ '', '' @ d (st_size st))"

text \<open>\<open>sizeof(struct stat)\<close> is 144; the result of \<open>lstat\<close> is not looked at.\<close>

definition remote_getattr :: "'w os \<Rightarrow> string option \<Rightarrow> string \<Rightarrow> 'w \<Rightarrow> (string option, 'w) outcome" where
  "remote_getattr os root path =
     with_path root path (\<lambda>full_path w.
       let stat_buf = (case os_lstat os full_path w of Some st \<Rightarrow> st | None \<Rightarrow> os_stale os)
       in (put_text 144 (status_text stat_buf), w))"

text \<open>\<open>FILENAME_MAX\<close> is 4096; the list grows by the two \<open>strcat\<close> of each entry.\<close>

fun list_entries :: "string list \<Rightarrow> string \<Rightarrow> nat \<Rightarrow> fault + string" where
  "list_entries [] entry_list cap = Inr entry_list"
| "list_entries (d_name # ents) entry_list cap =
     (let cap' = (if 0 < length d_name then length entry_list + 4096 + 2 else cap) in
      if length entry_list + 2 + length d_name < cap'
      then list_entries ents (entry_list @ '', '' @ d_name) cap'
      else Inl Overflow)"

definition remote_readdir :: "'w os \<Rightarrow> string option \<Rightarrow> string \<Rightarrow> 'w \<Rightarrow> (string option, 'w) outcome" where
  "remote_readdir os root path =
     with_path root path (\<lambda>full_path w.
       case os_names os full_path w of
         None \<Rightarrow> (Inr None, w)
       | Some names \<Rightarrow>
           (case list_entries names [] 1 of
              Inl f \<Rightarrow> (Inl f, w) | Inr entry_list \<Rightarrow> (Inr (Some (entry_list @ [NUL])), w)))"

definition remote_open :: "'w os \<Rightarrow> string option \<Rightarrow> string \<Rightarrow> int \<Rightarrow> 'w \<Rightarrow> (string option, 'w) outcome" where
  "remote_open os root path flags =
     with_path root path (\<lambda>full_path w.
       let (fd, w') = os_open os full_path flags w in (put_text 4 (render_int fd), w'))"

definition remote_unlink :: "'w os \<Rightarrow> string option \<Rightarrow> string \<Rightarrow> 'w \<Rightarrow> (string option, 'w) outcome" where
  "remote_unlink os root path =
     with_path root path (\<lambda>full_path w. (Inr (Some [NUL]), snd (os_unlink os full_path w)))"

section \<open>The request handler\<close>

text \<open>Using a token: \<open>strcmp\<close>, \<open>strlen\<close>, \<open>atoi\<close> and \<open>strtoull\<close> fault on the null pointer.\<close>

definition arg :: "string option list \<Rightarrow> nat \<Rightarrow> (string \<Rightarrow> 'w \<Rightarrow> ('a, 'w) outcome) \<Rightarrow> 'w \<Rightarrow> ('a, 'w) outcome" where
  "arg toks k f w = (case toks ! k of None \<Rightarrow> (Inl Null_deref, w) | Some t \<Rightarrow> f t w)"

text \<open>The chain of \<open>strcmp\<close> over the successive results of \<open>strtok\<close>.\<close>

definition perform ::
  "'w os \<Rightarrow> string option \<Rightarrow> string \<Rightarrow> string option list \<Rightarrow> 'w \<Rightarrow> (string option, 'w) outcome" where
  "perform os root request_copy toks =
     arg toks 0 (\<lambda>firstarg.
       if firstarg = ''readdir'' then arg toks 1 (remote_readdir os root)
       else if firstarg = ''getattr'' then arg toks 1 (remote_getattr os root)
       else if firstarg = ''opendir'' then arg toks 1 (remote_opendir os root)
       else if firstarg = ''releasedir'' then arg toks 1 (remote_releasedir os)
       else if firstarg = ''mkdir'' then
         arg toks 2 (\<lambda>mode. arg toks 1 (\<lambda>p. remote_mkdir os root p (to_uint32 (atoi mode))))
       else if firstarg = ''read'' then
         arg toks 2 (\<lambda>sz. arg toks 3 (\<lambda>offset. arg toks 1 (\<lambda>p. remote_read os p (atoi sz) (atoi offset))))
       else if firstarg = ''open'' then
         arg toks 2 (\<lambda>flags. arg toks 1 (\<lambda>p. remote_open os root p (atoi flags)))
       else if firstarg = ''release'' then arg toks 1 (remote_release os)
       else if firstarg = ''write'' then
         arg toks 2 (\<lambda>sz. arg toks 3 (\<lambda>offset. arg toks 1 (\<lambda>p.
           remote_write os p (atoi sz) (atoi offset) request_copy)))
       else if firstarg = ''truncate'' then
         arg toks 2 (\<lambda>newsize. arg toks 1 (\<lambda>p. remote_truncate os root p (atoi newsize)))
       else if firstarg = ''create'' then
         arg toks 2 (\<lambda>mode. arg toks 1 (\<lambda>p. remote_create os root p (to_uint32 (atoi mode))))
       else if firstarg = ''unlink'' then arg toks 1 (remote_unlink os root)
       else (\<lambda>w. (Inl Uninitialised, w)))"

fun strtok_calls :: "nat \<Rightarrow> string \<Rightarrow> string option list" where
  "strtok_calls 0 s = []"
| "strtok_calls (Suc n) s = (let (t, rest) = strtok s in t # strtok_calls n rest)"

text \<open>
  \<open>send(connected, response, 4096, 0)\<close> always takes 4096 bytes from the response on, whatever the
  heap holds behind it; from a null pointer nothing is sent.
\<close>

definition sent_bytes :: "string \<Rightarrow> string option \<Rightarrow> string" where
  "sent_bytes heap response = (case response of None \<Rightarrow> [] | Some b \<Rightarrow> take 4096 (b @ heap))"

text \<open>
  \<open>received\<close> is what \<open>recv\<close> returned, \<open>None\<close> for -1: \<open>rec_data[bytes_recieved]\<close> is inside the
  array of 4096 bytes for 0 to 4095 bytes only.
\<close>

definition request_handler ::
  "'w os \<Rightarrow> string option \<Rightarrow> string \<Rightarrow> string option \<Rightarrow> 'w \<Rightarrow> (string, 'w) outcome" where
  "request_handler os root heap received w =
     (case received of
        None \<Rightarrow> (Inl Overflow, w)
      | Some msg \<Rightarrow>
          (if 4096 \<le> length msg then (Inl Overflow, w)
           else let rec_data = c_string msg in
             case perform os root rec_data (strtok_calls 4 rec_data) w of
               (Inl f, w') \<Rightarrow> (Inl f, w')
             | (Inr response, w') \<Rightarrow> (Inr (sent_bytes heap response), w')))"

section \<open>The main program\<close>

record socket_env =
  socket_ok :: bool
  setsockopt_ok :: bool
  bind_ok :: bool
  listen_ok :: bool

datatype server_start = Stopped int string | Listening nat "string option"

definition server_flag :: "string \<Rightarrow> string \<Rightarrow> int \<times> string option \<Rightarrow> (int \<times> string option) option" where
  "server_flag flag value st =
     (case st of (port, root) \<Rightarrow>
        if flag = ''-port'' then Some (atoi value, root)
        else if flag = ''-mount'' then Some (port, Some value)
        else None)"

text \<open>\<open>htons\<close> keeps 16 bits of the port. \<open>port\<close> and \<open>root_path\<close> are globals, zero at the start.\<close>

definition server_main :: "socket_env \<Rightarrow> string list \<Rightarrow> server_start" where
  "server_main env argv =
     (if length argv \<noteq> 5 then Stopped (- 1) ''Invalid number of arguments!''
      else case server_flag (argv ! 1) (argv ! 2) (0, None) of
        None \<Rightarrow> Stopped (- 1) ''Incorrect arguments!''
      | Some st \<Rightarrow>
          (case server_flag (argv ! 3) (argv ! 4) st of
             None \<Rightarrow> Stopped (- 1) ''Incorrect arguments!''
           | Some (port, root) \<Rightarrow>
               if \<not> socket_ok env then Stopped 1 ''Socket''
               else if \<not> setsockopt_ok env then Stopped 1 ''Setsockopt''
               else if \<not> bind_ok env then Stopped 1 ''Unable to bind''
               else if \<not> listen_ok env then Stopped 1 ''Listen''
               else Listening (nat (port mod 65536)) root))"

section \<open>How a well-formed request is read\<close>

lemma strtok_calls_word:
  assumes "word_of t" "delim d"
  shows "strtok_calls (Suc n) (t @ d # s) = Some t # strtok_calls n s"
  using strtok_word(2)[OF assms] by simp

lemma strtok_calls_delim: "delim d \<Longrightarrow> strtok_calls n (d # s) = strtok_calls n s"
  by (cases n) simp_all

lemma strtok_calls_last: "word_of t \<Longrightarrow> strtok_calls (Suc n) t = Some t # strtok_calls n []"
  using strtok_word(1)[of t] by simp

lemma strtok_calls_Nil: "strtok_calls n [] = replicate n None"
  by (induction n) simp_all

lemmas strtok_calls_simps = strtok_calls_word strtok_calls_delim strtok_calls_last strtok_calls_Nil

text \<open>The requests of the client: a name, then fields separated by a comma and a blank.\<close>

lemma tokens_1:
  assumes "word_of c" "word_of a"
  shows "strtok_calls 4 (c @ '', '' @ a) = [Some c, Some a, None, None]"
  using assms by (simp add: eval_nat_numeral strtok_calls_simps del: strtok_calls.simps)

lemma tokens_2:
  assumes "word_of c" "word_of a" "word_of b"
  shows "strtok_calls 4 (c @ '', '' @ a @ '', '' @ b) = [Some c, Some a, Some b, None]"
  using assms by (simp add: eval_nat_numeral strtok_calls_simps del: strtok_calls.simps)

lemma tokens_3:
  assumes "word_of c" "word_of a" "word_of b" "word_of d"
  shows "strtok_calls 4 (c @ '', '' @ a @ '', '' @ b @ '', '' @ d) = [Some c, Some a, Some b, Some d]"
  using assms by (simp add: eval_nat_numeral strtok_calls_simps del: strtok_calls.simps)

lemma tokens_write:
  assumes "word_of c" "word_of a" "word_of b" "word_of d"
  shows "strtok_calls 4 (c @ '', '' @ a @ '', '' @ b @ '', '' @ d @ '', '' @ data) = [Some c, Some a, Some b, Some d]"
  using assms by (simp add: eval_nat_numeral strtok_calls_simps del: strtok_calls.simps(2))

end
