(* ===== verification/SnfsService.thy ===== *)
theory SnfsService
  imports SnfsServer
begin

text \<open>
  The contract between the client and the server: the requests as a datatype, their encoding on
  the wire, the text that answers each of them, and the interface that the client relies on.
  The server model is shown to provide it.
\<close>

section \<open>Requests and answers\<close>

text \<open>File and directory handles are the \<open>fi->fh\<close> of FUSE, 64-bit numbers.\<close>

datatype file_request =
    Getattr string | Readdir string | Opendir string | Releasedir nat | Mkdir string int
  | Read nat int int | Open string int | Release nat | Write nat int int string
  | Truncate string int | Create string int | Unlink string

definition encode :: "file_request \<Rightarrow> string" where
  "encode r = (case r of
     Getattr p \<Rightarrow> ''getattr'' @ '', '' @ p
   | Readdir p \<Rightarrow> ''readdir'' @ '', '' @ p
   | Opendir p \<Rightarrow> ''opendir'' @ '', '' @ p
   | Releasedir h \<Rightarrow> ''releasedir'' @ '', '' @ render_nat h
   | Mkdir p mode \<Rightarrow> ''mkdir'' @ '', '' @ p @ '', '' @ render_int mode
   | Read h sz off \<Rightarrow> ''read'' @ '', '' @ render_nat h @ '', '' @ render_int sz @ '', '' @ render_int off
   | Open p flags \<Rightarrow> ''open'' @ '', '' @ p @ '', '' @ render_int flags
   | Release h \<Rightarrow> ''release'' @ '', '' @ render_nat h
   | Write h sz off data \<Rightarrow> ''write'' @ '', '' @ render_nat h @ '', '' @ render_int sz @ '', ''
       @ render_int off @ '', '' @ data
   | Truncate p sz \<Rightarrow> ''truncate'' @ '', '' @ p @ '', '' @ render_int sz
   | Create p mode \<Rightarrow> ''create'' @ '', '' @ p @ '', '' @ render_int mode
   | Unlink p \<Rightarrow> ''unlink'' @ '', '' @ p)"

definition int32 :: "int \<Rightarrow> bool" where
  "int32 v \<longleftrightarrow> - (2 ^ 31) \<le> v \<and> v < 2 ^ 31"

text \<open>
  The requests the text protocol can carry: paths without blank, comma or NUL, numbers in the range
  of \<open>int\<close>, written data without NUL.
\<close>

definition carried :: "file_request \<Rightarrow> bool" where
  "carried r = (case r of
     Getattr p \<Rightarrow> word_of p
   | Readdir p \<Rightarrow> word_of p
   | Opendir p \<Rightarrow> word_of p
   | Releasedir h \<Rightarrow> h < 2 ^ 64
   | Mkdir p mode \<Rightarrow> word_of p \<and> int32 mode
   | Read h sz off \<Rightarrow> int32 sz \<and> int32 off
   | Open p flags \<Rightarrow> word_of p \<and> int32 flags
   | Release h \<Rightarrow> True
   | Write h sz off data \<Rightarrow> int32 sz \<and> int32 off \<and> NUL \<notin> set data
   | Truncate p sz \<Rightarrow> word_of p \<and> int32 sz
   | Create p mode \<Rightarrow> word_of p \<and> int32 mode
   | Unlink p \<Rightarrow> word_of p)"

text \<open>The descriptor that the server recovers from a handle with \<open>atoi\<close>.\<close>

definition fd_of :: "nat \<Rightarrow> int" where
  "fd_of h = to_int32 (clamp_long (int h))"

definition fits :: "nat \<Rightarrow> string \<Rightarrow> 'w \<Rightarrow> (string \<times> 'w) option" where
  "fits cap text w = (if length text < cap then Some (text, w) else None)"

text \<open>
  The answer to a request: which system call it stands for and the text that is sent back. There is
  none when a response buffer is too small, or when the data read fill the buffer without a NUL.
\<close>

definition answer :: "'w os \<Rightarrow> string \<Rightarrow> file_request \<Rightarrow> 'w \<Rightarrow> (string \<times> 'w) option" where
  "answer os root r w = (case r of
     Getattr p \<Rightarrow>
       Some (status_text (case os_lstat os (root @ p) w of Some st \<Rightarrow> st | None \<Rightarrow> os_stale os), w)
   | Readdir p \<Rightarrow> (case os_names os (root @ p) w of
       None \<Rightarrow> Some ([], w)
     | Some names \<Rightarrow> (case list_entries names [] 1 of Inl _ \<Rightarrow> None | Inr text \<Rightarrow> Some (c_string text, w)))
   | Opendir p \<Rightarrow> (let (dp, w') = os_opendir os (root @ p) w in fits 8 (render_nat dp) w')
   | Releasedir h \<Rightarrow> Some ([], os_closedir os h w)
   | Mkdir p mode \<Rightarrow> (let (x, w') = os_mkdir os (root @ p) (to_uint32 mode) w in fits 5 (render_int x) w')
   | Read h sz off \<Rightarrow>
       (if sz < 0 then Some ([], w)
        else let (bytes, w') = os_pread os (fd_of h) (nat sz) off w in
          if NUL \<in> set bytes \<or> length bytes < nat sz then Some (c_string bytes, w') else None)
   | Open p flags \<Rightarrow> (let (fd, w') = os_open os (root @ p) flags w in fits 4 (render_int fd) w')
   | Release h \<Rightarrow> Some ([], os_close os (fd_of h) w)
   | Write h sz off data \<Rightarrow>
       (if 0 \<le> sz \<and> sz \<le> int (length data + 2)
        then let (x, w') = os_pwrite os (fd_of h) (take (nat sz) (CHR '' '' # data @ [NUL])) off w
             in fits 5 (render_int x) w'
        else None)
   | Truncate p sz \<Rightarrow> (let (x, w') = os_truncate os (root @ p) sz w in fits 5 (render_int x) w')
   | Create p mode \<Rightarrow> (let (fd, w') = os_creat os (root @ p) (to_uint32 mode) w in fits 4 (render_int fd) w')
   | Unlink p \<Rightarrow> Some ([], snd (os_unlink os (root @ p) w)))"

section \<open>The server answers\<close>

lemma atoi_render_nat: "rest = [] \<or> \<not> is_digit (hd rest) \<Longrightarrow> atoi (render_nat n @ rest) = fd_of n"
proof -
  assume rest: "rest = [] \<or> \<not> is_digit (hd rest)"
  have r: "render_nat n = render_int (int n)" by (simp add: render_int_def)
  show ?thesis unfolding r atoi_def by (simp add: scan_number_render[OF rest] fd_of_def)
qed

lemma atoi_render_nat_all [simp]: "atoi (render_nat n) = fd_of n"
  using atoi_render_nat[of "[]" n] by simp

lemma atoi_int32 [simp]: "int32 v \<Longrightarrow> atoi (render_int v) = v"
  by (simp add: int32_def)

lemma words [simp]:
  "word_of ''getattr''" "word_of ''readdir''" "word_of ''opendir''" "word_of ''releasedir''"
  "word_of ''mkdir''" "word_of ''read''" "word_of ''open''" "word_of ''release''" "word_of ''write''"
  "word_of ''truncate''" "word_of ''create''" "word_of ''unlink''"
  by (auto simp: word_of_def delim_def)

lemma after_comma_word: "word_of t \<Longrightarrow> after_comma (t @ CHR '','' # s) = Some s"
  by (simp add: after_comma_skip word_of_no_comma)

lemma after_comma_blank: "after_comma (CHR '' '' # s) = after_comma s"
  by simp

lemma write_data:
  assumes "word_of a" "word_of b" "word_of c" "word_of d"
  shows "remote_write os pointer sz off (a @ '', '' @ b @ '', '' @ c @ '', '' @ d @ '', '' @ data) w =
    (if 0 \<le> sz \<and> sz \<le> int (length data + 2)
     then let (x, w') = os_pwrite os (atoi pointer) (take (nat sz) (CHR '' '' # data @ [NUL])) off w
          in (put_text 5 (render_int x), w')
     else (Inl Overread, w))"
  using assms by (simp add: remote_write_def after_comma_word after_comma_blank del: after_comma.simps)

definition replied :: "string option \<Rightarrow> string \<Rightarrow> bool" where
  "replied response text \<longleftrightarrow> (case response of
     None \<Rightarrow> text = []
   | Some b \<Rightarrow> NUL \<in> set b \<and> c_string b = text)"

lemma c_string_pad [simp]: "c_string (bs @ replicate k NUL) = c_string bs"
  by (induction bs) (auto simp: c_string_def takeWhile_eq_Nil_iff)

lemma c_string_ends [simp]: "c_string (bs @ [NUL]) = c_string bs" "c_string [] = []" "c_string (NUL # bs) = []"
  using c_string_pad[of bs 1] by (simp_all add: c_string_def)

lemma replied_text: "NUL \<notin> set text \<Longrightarrow> replied (Some (text @ [NUL])) text"
  by (simp add: replied_def)

lemma encode_tokens:
  "word_of p \<Longrightarrow> strtok_calls 4 (encode (Getattr p)) = [Some ''getattr'', Some p, None, None]"
  "word_of p \<Longrightarrow> strtok_calls 4 (encode (Readdir p)) = [Some ''readdir'', Some p, None, None]"
  "word_of p \<Longrightarrow> strtok_calls 4 (encode (Opendir p)) = [Some ''opendir'', Some p, None, None]"
  "word_of p \<Longrightarrow> strtok_calls 4 (encode (Unlink p)) = [Some ''unlink'', Some p, None, None]"
  "strtok_calls 4 (encode (Releasedir h)) = [Some ''releasedir'', Some (render_nat h), None, None]"
  "strtok_calls 4 (encode (Release h)) = [Some ''release'', Some (render_nat h), None, None]"
  "word_of p \<Longrightarrow> strtok_calls 4 (encode (Mkdir p v)) = [Some ''mkdir'', Some p, Some (render_int v), None]"
  "word_of p \<Longrightarrow> strtok_calls 4 (encode (Open p v)) = [Some ''open'', Some p, Some (render_int v), None]"
  "word_of p \<Longrightarrow> strtok_calls 4 (encode (Create p v)) = [Some ''create'', Some p, Some (render_int v), None]"
  "word_of p \<Longrightarrow> strtok_calls 4 (encode (Truncate p v)) = [Some ''truncate'', Some p, Some (render_int v), None]"
  "strtok_calls 4 (encode (Read h v u)) = [Some ''read'', Some (render_nat h), Some (render_int v), Some (render_int u)]"
  "strtok_calls 4 (encode (Write h v u data)) =
     [Some ''write'', Some (render_nat h), Some (render_int v), Some (render_int u)]"
  unfolding encode_def file_request.case
  by (rule tokens_1 tokens_2 tokens_3 tokens_write; simp)+

lemma length_status_text: "length (status_text st) < 144"
proof -
  have "length (render_int (to_int32 v)) \<le> 11" for v
    by (rule length_render_int32) (rule to_int32_range)+
  from this[of "st_mode st"] this[of "st_ino st"] this[of "st_dev st"] this[of "st_uid st"] this[of "st_gid st"]
    this[of "st_atime st"] this[of "st_ctime st"] this[of "st_mtime st"] this[of "st_nlink st"] this[of "st_size st"]
  show ?thesis by (simp add: status_text_def Let_def)
qed

lemma status_text_no_NUL: "NUL \<notin> set (status_text st)"
  by (simp add: status_text_def Let_def)

text \<open>The handler performs the call the request stands for and sends the text of the answer.\<close>

lemma perform_answer:
  assumes c: "carried r" and ans: "answer os root r w = Some (text, w')"
  shows "\<exists>resp. perform os (Some root) (encode r) (strtok_calls 4 (encode r)) w = (Inr resp, w')
    \<and> replied resp text"
proof (cases r)
  case (Getattr p)
  with c ans show ?thesis
    by (auto simp: perform_def arg_def remote_getattr_def with_path_def answer_def carried_def encode_tokens
        put_text_def length_status_text replied_text status_text_no_NUL)
next
  case (Readdir p)
  with c ans show ?thesis
    by (auto simp: perform_def arg_def remote_readdir_def with_path_def answer_def carried_def encode_tokens
        replied_def split: option.splits sum.splits)
next
  case (Opendir p)
  with c ans show ?thesis
    by (auto simp: perform_def arg_def remote_opendir_def with_path_def answer_def carried_def encode_tokens
        replied_text fits_def put_text_def split: prod.splits if_splits)
next
  case (Releasedir h)
  with c ans show ?thesis
    by (auto simp: perform_def arg_def remote_releasedir_def answer_def carried_def encode_tokens
        replied_def c_string_def strtoull_render)
next
  case (Mkdir p mode)
  with c ans show ?thesis
    by (auto simp: perform_def arg_def remote_mkdir_def with_path_def answer_def carried_def encode_tokens
        replied_text fits_def put_text_def split: prod.splits if_splits)
next
  case (Read h sz off)
  with c ans show ?thesis
    by (auto simp: perform_def arg_def remote_read_def answer_def replied_def carried_def encode_tokens
        split: prod.splits if_splits)
next
  case (Open p flags)
  with c ans show ?thesis
    by (auto simp: perform_def arg_def remote_open_def with_path_def answer_def carried_def encode_tokens
        replied_text fits_def put_text_def split: prod.splits if_splits)
next
  case (Release h)
  with c ans show ?thesis
    by (auto simp: perform_def arg_def remote_release_def answer_def carried_def encode_tokens
        replied_def c_string_def)
next
  case (Write h sz off data)
  have "remote_write os (render_nat h) sz off (encode r) w =
    (if 0 \<le> sz \<and> sz \<le> int (length data + 2)
     then let (x, w') = os_pwrite os (fd_of h) (take (nat sz) (CHR '' '' # data @ [NUL])) off w
          in (put_text 5 (render_int x), w')
     else (Inl Overread, w))"
    unfolding Write encode_def file_request.case by (subst write_data) simp_all
  with Write ans c show ?thesis
    by (auto simp: perform_def arg_def answer_def carried_def encode_tokens replied_text
        fits_def put_text_def split: prod.splits if_splits)
next
  case (Truncate p sz)
  with c ans show ?thesis
    by (auto simp: perform_def arg_def remote_truncate_def with_path_def answer_def carried_def encode_tokens
        replied_text fits_def put_text_def split: prod.splits if_splits)
next
  case (Create p mode)
  with c ans show ?thesis
    by (auto simp: perform_def arg_def remote_create_def with_path_def answer_def carried_def encode_tokens
        replied_text fits_def put_text_def split: prod.splits if_splits)
next
  case (Unlink p)
  with c ans show ?thesis
    by (auto simp: perform_def arg_def remote_unlink_def with_path_def answer_def carried_def encode_tokens
        replied_def c_string_def)
qed

lemma encode_no_NUL:
  assumes "carried r"
  shows "NUL \<notin> set (encode r)"
proof -
  have "word_of p \<Longrightarrow> NUL \<notin> set p" for p by (auto simp: word_of_def)
  with assms show ?thesis by (cases r) (auto simp: encode_def carried_def)
qed

section \<open>The interface of the client\<close>

text \<open>
  What \<open>sendRequestToServer\<close> meets: no address for the host, no socket or connection, an error
  of \<open>recv\<close>, or the bytes of one \<open>recv\<close>.
\<close>

datatype net = No_host | No_connection | Recv_error | Received string

text \<open>
  One request over one connection: the server takes what its single \<open>recv\<close> of 4096 bytes returns,
  the client the first \<open>seg\<close> bytes of what was sent. A fault kills the server process and
  resets the connection.
\<close>

definition server_link :: "'w os \<Rightarrow> string option \<Rightarrow> string \<Rightarrow> nat \<Rightarrow> string \<Rightarrow> 'w \<Rightarrow> net \<times> 'w" where
  "server_link os root heap seg request w =
     (case request_handler os root heap (Some (take 4096 request)) w of
        (Inl _, w') \<Rightarrow> (Recv_error, w')
      | (Inr bytes, w') \<Rightarrow> (Received (take seg bytes), w'))"

locale file_service =
  fixes serve :: "string \<Rightarrow> 'w \<Rightarrow> net \<times> 'w"
    and ans :: "file_request \<Rightarrow> 'w \<Rightarrow> (string \<times> 'w) option"
    and seg :: nat
  assumes serve_answer: "carried r \<Longrightarrow> length (encode r) < 4096 \<Longrightarrow> ans r w = Some (text, w') \<Longrightarrow>
    length text < seg \<Longrightarrow> seg < 4096 \<Longrightarrow>
    \<exists>bytes. serve (encode r) w = (Received bytes, w') \<and> c_string bytes = text \<and> length bytes < 4096"

lemma c_string_prefix:
  assumes "NUL \<in> set b" "length (c_string b) < n"
  shows "c_string (take n (b @ heap)) = c_string b"
proof -
  from assms(1) obtain s rest where b: "b = s @ NUL # rest" "NUL \<notin> set s"
    by (meson split_list_first)
  then have s: "c_string b = s" by simp
  have "take n (b @ heap) = s @ NUL # take (n - Suc (length s)) (rest @ heap)"
    using assms(2) b(1) s by (simp add: take_Cons')
  then show ?thesis using b(2) s by simp
qed

interpretation server: file_service "server_link os (Some root) heap seg" "answer os root" seg
  for os root heap seg
proof
  fix r w w' reply
  assume c: "carried r" and len: "length (encode r) < 4096" and ans: "answer os root r w = Some (reply, w')"
    and seg: "length reply < seg" "seg < 4096"
  from perform_answer[OF c ans] obtain resp where
    p: "perform os (Some root) (encode r) (strtok_calls 4 (encode r)) w = (Inr resp, w')" "replied resp reply"
    by blast
  have "c_string (encode r) = encode r" by (rule c_string_id[OF encode_no_NUL[OF c]])
  with p(1) len have link: "server_link os (Some root) heap seg (encode r) w = (Received (take seg (sent_bytes heap resp)), w')"
    by (simp add: server_link_def request_handler_def)
  have "c_string (take seg (sent_bytes heap resp)) = reply"
  proof (cases resp)
    case None
    with p(2) show ?thesis by (simp add: replied_def sent_bytes_def)
  next
    case (Some b)
    with p(2) have b: "NUL \<in> set b" "c_string b = reply" by (simp_all add: replied_def)
    have "min seg 4096 = seg" using seg(2) by simp
    then have "take seg (sent_bytes heap resp) = take seg (b @ heap)"
      by (simp only: Some sent_bytes_def option.case take_take)
    with c_string_prefix[of b seg heap] b seg(1) show ?thesis by simp
  qed
  moreover have "length (take seg (sent_bytes heap resp)) < 4096" using seg by simp
  ultimately show "\<exists>bytes. server_link os (Some root) heap seg (encode r) w = (Received bytes, w') \<and>
      c_string bytes = reply \<and> length bytes < 4096"
    using link by blast
qed

end
