(* ===== verification/SnfsClient.thy ===== *)
theory SnfsClient
  imports SnfsService
begin

text \<open>
  \<open>clientSNFS.c\<close>: the FUSE callbacks. Each one builds its request in a buffer of a fixed surplus,
  exchanges it for the text of the response and decodes that. The network and the server behind
  it are the function \<open>serve\<close>. A callback returns its \<open>retstat\<close> with what it stores for FUSE.
\<close>

section \<open>Sending a request\<close>

text \<open>\<open>ENOENT\<close> is 2. A text built by \<open>strcpy\<close>, \<open>strcat\<close> or \<open>sprintf\<close> in a buffer of \<open>cap\<close> bytes.\<close>

definition ENOENT :: int where
  "ENOENT = 2"

definition in_buffer :: "nat \<Rightarrow> string \<Rightarrow> fault + string" where
  "in_buffer cap text = (if length text < cap then Inr text else Inl Overflow)"

text \<open>
  \<open>sendRequestToServer\<close> returns early when there is no connection, with the buffer as \<open>calloc\<close>
  left it. \<open>buf[bytes_recieved]\<close> is in the buffer when fewer than \<open>sz\<close> bytes arrived.
\<close>

definition sendRequestToServer ::
  "(string \<Rightarrow> 'w \<Rightarrow> net \<times> 'w) \<Rightarrow> string \<Rightarrow> nat \<Rightarrow> 'w \<Rightarrow> (string, 'w) outcome" where
  "sendRequestToServer serve request_data sz w =
     (case serve request_data w of
        (No_host, w') \<Rightarrow> (Inl Null_deref, w')
      | (No_connection, w') \<Rightarrow> (Inr [], w')
      | (Recv_error, w') \<Rightarrow> (Inl Overflow, w')
      | (Received bytes, w') \<Rightarrow> (if length bytes < sz then Inr (c_string bytes) else Inl Overflow, w'))"

text \<open>A callback: the buffers it fills, the exchange, and what it makes of the response.\<close>

definition exchange ::
  "(string \<Rightarrow> 'w \<Rightarrow> net \<times> 'w) \<Rightarrow> (fault + string) \<Rightarrow> (string \<Rightarrow> fault + 'a) \<Rightarrow> 'w \<Rightarrow> ('a, 'w) outcome" where
  "exchange serve request decode w = (case request of
     Inl f \<Rightarrow> (Inl f, w)
   | Inr request_data \<Rightarrow>
       (case sendRequestToServer serve request_data 4096 w of
          (Inl f, w') \<Rightarrow> (Inl f, w') | (Inr response, w') \<Rightarrow> (decode response, w')))"

definition also_in :: "(fault + string) \<Rightarrow> (string \<Rightarrow> fault + string) \<Rightarrow> fault + string" where
  "also_in part f = (case part of Inl e \<Rightarrow> Inl e | Inr s \<Rightarrow> f s)"

section \<open>The callbacks\<close>

text \<open>Unsigned 64-bit fields.\<close>

definition to_uint64 :: "int \<Rightarrow> int" where
  "to_uint64 v = v mod 2 ^ 64"

definition decode_stat :: "string \<Rightarrow> fault + file_stat" where
  "decode_stat response =
     (let toks = strtok_calls 10 response in
      if None \<in> set toks then Inl Null_deref
      else let v = (\<lambda>k. atoi (the (toks ! k))) in
        Inr \<lparr>st_mode = to_uint32 (v 0), st_ino = to_uint64 (v 1), st_dev = to_uint64 (v 2),
             st_uid = to_uint32 (v 3), st_gid = to_uint32 (v 4), st_atime = v 5, st_ctime = v 6,
             st_mtime = v 7, st_nlink = to_uint64 (v 8), st_size = v 9\<rparr>)"

definition SNFS_getattr ::
  "(string \<Rightarrow> 'w \<Rightarrow> net \<times> 'w) \<Rightarrow> string \<Rightarrow> 'w \<Rightarrow> (int \<times> file_stat, 'w) outcome" where
  "SNFS_getattr serve path =
     exchange serve (in_buffer (10 + length path) (''getattr, '' @ path))
       (\<lambda>response. case decode_stat response of
          Inl f \<Rightarrow> Inl f
        | Inr stbuf \<Rightarrow>
            Inr (if st_mode stbuf \<le> 0 \<or> st_uid stbuf \<le> 0 \<or> st_gid stbuf \<le> 0 then - ENOENT else 0, stbuf))"

lemma strtok_shorter: "strtok s = (Some t, rest) \<Longrightarrow> length rest < length s"
proof -
  assume s: "strtok s = (Some t, rest)"
  let ?d = "dropWhile delim s"
  let ?e = "dropWhile (\<lambda>c. \<not> delim c) ?d"
  from s have d: "?d \<noteq> []" and rest: "rest = drop 1 ?e"
    by (auto simp: strtok_def Let_def split: if_splits)
  have "length rest = length ?e - 1" by (simp only: rest length_drop)
  moreover have "length ?e \<le> length ?d" "length ?d \<le> length s" by (rule length_dropWhile_le)+
  moreover from d have "0 < length ?d" by (simp only: length_greater_0_conv not_False_eq_True)
  ultimately show ?thesis by linarith
qed

text \<open>The loop of \<open>SNFS_readdir\<close>: one call of \<open>filler\<close> for every token.\<close>

function filler_names :: "string \<Rightarrow> string list" where
  "filler_names s = (case strtok s of (None, _) \<Rightarrow> [] | (Some t, rest) \<Rightarrow> t # filler_names rest)"
  by pat_completeness auto
termination
  by (relation "measure length") (auto dest: strtok_shorter[OF sym])

declare filler_names.simps [simp del]

definition SNFS_readdir ::
  "(string \<Rightarrow> 'w \<Rightarrow> net \<times> 'w) \<Rightarrow> string \<Rightarrow> 'w \<Rightarrow> (int \<times> string list, 'w) outcome" where
  "SNFS_readdir serve path =
     exchange serve (in_buffer (10 + length path) (''readdir, '' @ path))
       (\<lambda>response. Inr (0, filler_names response))"

text \<open>The handle of a file is the \<open>int\<close> of the response, converted to 64 bits unsigned.\<close>

definition file_handle :: "string \<Rightarrow> nat" where
  "file_handle response = nat (to_uint64 (atoi response))"

definition SNFS_open ::
  "(string \<Rightarrow> 'w \<Rightarrow> net \<times> 'w) \<Rightarrow> string \<Rightarrow> int \<Rightarrow> 'w \<Rightarrow> (int \<times> nat, 'w) outcome" where
  "SNFS_open serve path flags =
     exchange serve
       (also_in (in_buffer 32 ('', '' @ render_int flags)) (\<lambda>flag_string.
          in_buffer (42 + length path) (''open, '' @ path @ flag_string)))
       (\<lambda>response. Inr (if atoi response = 0 then - ENOENT else 0, file_handle response))"

text \<open>\<open>buf\<close> of FUSE has room for \<open>sz\<close> bytes; \<open>strcpy\<close> writes the terminating NUL too.\<close>

definition SNFS_read ::
  "(string \<Rightarrow> 'w \<Rightarrow> net \<times> 'w) \<Rightarrow> nat \<Rightarrow> nat \<Rightarrow> int \<Rightarrow> 'w \<Rightarrow> (int \<times> string, 'w) outcome" where
  "SNFS_read serve fh sz off =
     exchange serve
       (also_in (in_buffer 64 (render_nat fh @ '', '' @ render_int (to_int32 (int sz)) @ '', ''
            @ render_int (to_int32 off)))
          (\<lambda>info. in_buffer 74 (''read, '' @ info)))
       (\<lambda>response. if length response < sz then Inr (int (length response), response) else Inl Overflow)"

definition SNFS_opendir ::
  "(string \<Rightarrow> 'w \<Rightarrow> net \<times> 'w) \<Rightarrow> string \<Rightarrow> 'w \<Rightarrow> (int \<times> nat, 'w) outcome" where
  "SNFS_opendir serve path =
     exchange serve (in_buffer (10 + length path) (''opendir, '' @ path))
       (\<lambda>response. Inr (if atoi response = 0 then - ENOENT else 0, strtoull response))"

definition SNFS_releasedir :: "(string \<Rightarrow> 'w \<Rightarrow> net \<times> 'w) \<Rightarrow> nat \<Rightarrow> 'w \<Rightarrow> (int, 'w) outcome" where
  "SNFS_releasedir serve fh =
     exchange serve
       (also_in (in_buffer 32 (render_nat fh)) (\<lambda>h. in_buffer 47 (''releasedir, '' @ h)))
       (\<lambda>response. Inr 0)"

definition SNFS_mkdir :: "(string \<Rightarrow> 'w \<Rightarrow> net \<times> 'w) \<Rightarrow> string \<Rightarrow> int \<Rightarrow> 'w \<Rightarrow> (int, 'w) outcome" where
  "SNFS_mkdir serve path mode =
     exchange serve
       (also_in (in_buffer 32 ('', '' @ render_int (to_int32 mode))) (\<lambda>mode_string.
          in_buffer (42 + length path) (''mkdir, '' @ path @ mode_string)))
       (\<lambda>response. Inr (atoi response))"

definition SNFS_release :: "(string \<Rightarrow> 'w \<Rightarrow> net \<times> 'w) \<Rightarrow> nat \<Rightarrow> 'w \<Rightarrow> (int, 'w) outcome" where
  "SNFS_release serve fh =
     exchange serve
       (also_in (in_buffer 32 (render_nat fh)) (\<lambda>h. in_buffer 42 (''release, '' @ h)))
       (\<lambda>response. Inr 0)"

text \<open>\<open>buf\<close> is the memory behind the pointer FUSE passes; \<open>strlen\<close> and \<open>strcat\<close> stop at its first NUL.\<close>

definition SNFS_write ::
  "(string \<Rightarrow> 'w \<Rightarrow> net \<times> 'w) \<Rightarrow> nat \<Rightarrow> string \<Rightarrow> nat \<Rightarrow> int \<Rightarrow> 'w \<Rightarrow> (int, 'w) outcome" where
  "SNFS_write serve fh buf sz off =
     exchange serve
       (if NUL \<notin> set buf then Inl Overread
        else also_in (in_buffer 64 (render_nat fh @ '', '' @ render_int (to_int32 (int sz)) @ '', ''
            @ render_int (to_int32 off) @ '', ''))
          (\<lambda>info. in_buffer (74 + length (c_string buf)) (''write, '' @ info @ c_string buf)))
       (\<lambda>response. Inr (atoi response))"

definition SNFS_truncate :: "(string \<Rightarrow> 'w \<Rightarrow> net \<times> 'w) \<Rightarrow> string \<Rightarrow> int \<Rightarrow> 'w \<Rightarrow> (int, 'w) outcome" where
  "SNFS_truncate serve path newsize =
     exchange serve
       (also_in (in_buffer 32 ('', '' @ render_int (to_int32 newsize))) (\<lambda>off.
          in_buffer (42 + length path) (''truncate, '' @ path @ off)))
       (\<lambda>response. Inr (atoi response))"

definition SNFS_create ::
  "(string \<Rightarrow> 'w \<Rightarrow> net \<times> 'w) \<Rightarrow> string \<Rightarrow> int \<Rightarrow> 'w \<Rightarrow> (int \<times> nat, 'w) outcome" where
  "SNFS_create serve path mode =
     exchange serve
       (also_in (in_buffer 32 ('', '' @ render_int (to_int32 mode))) (\<lambda>mode_string.
          in_buffer (42 + length path) (''create, '' @ path @ mode_string)))
       (\<lambda>response. Inr (if atoi response = 0 then - ENOENT else 0, file_handle response))"

definition SNFS_unlink :: "(string \<Rightarrow> 'w \<Rightarrow> net \<times> 'w) \<Rightarrow> string \<Rightarrow> 'w \<Rightarrow> (int, 'w) outcome" where
  "SNFS_unlink serve path =
     exchange serve (in_buffer (10 + length path) (''unlink, '' @ path)) (\<lambda>response. Inr 0)"

section \<open>The main program\<close>

record client_args =
  c_port :: int
  c_ip :: string
  c_mount :: "string option"

datatype client_start = Usage string | Died fault | Mounted int string string

text \<open>\<open>char ip[17]\<close> takes an address of at most 16 characters.\<close>

definition client_flag :: "string \<Rightarrow> string \<Rightarrow> client_args \<Rightarrow> client_start + client_args" where
  "client_flag flag value st =
     (if flag = ''-port'' then Inr (st\<lparr>c_port := atoi value\<rparr>)
      else if flag = ''-address'' then
        (if length value < 17 then Inr (st\<lparr>c_ip := value\<rparr>) else Inl (Died Overflow))
      else if flag = ''-mount'' then Inr (st\<lparr>c_mount := Some value\<rparr>)
      else Inl (Usage ''Incorrect arguments!''))"

definition client_main :: "string list \<Rightarrow> client_start" where
  "client_main argv =
     (if length argv \<noteq> 7 then Usage ''Invalid number of arguments!''
      else case client_flag (argv ! 1) (argv ! 2) \<lparr>c_port = 0, c_ip = [], c_mount = None\<rparr> of
        Inl r \<Rightarrow> r
      | Inr st1 \<Rightarrow>
          (case client_flag (argv ! 3) (argv ! 4) st1 of
             Inl r \<Rightarrow> r
           | Inr st2 \<Rightarrow>
               (case client_flag (argv ! 5) (argv ! 6) st2 of
                  Inl r \<Rightarrow> r
                | Inr st \<Rightarrow>
                    (case c_mount st of
                       None \<Rightarrow> Died Null_deref
                     | Some mount_path \<Rightarrow> Mounted (c_port st) (c_ip st) mount_path))))"

section \<open>The requests fit their buffers\<close>

lemma length_int32_text: "length (render_int (to_int32 v)) \<le> 11"
  by (rule length_render_int32) (rule to_int32_range)+

lemma length_handle_text: "h < 2 ^ 64 \<Longrightarrow> length (render_nat h) \<le> 20"
  by (subst length_render_nat_le) auto

lemma int32_id: "int32 v \<Longrightarrow> to_int32 v = v"
  by (simp add: int32_def to_int32_id)

lemma length_int32_arg: "int32 v \<Longrightarrow> length (render_int v) \<le> 11"
  using length_int32_text[of v] by (simp add: int32_id)

lemma exchange_request:
  "exchange serve (Inr req) decode w =
     (case sendRequestToServer serve req 4096 w of
        (Inl f, w') \<Rightarrow> (Inl f, w') | (Inr response, w') \<Rightarrow> (decode response, w'))"
  by (simp add: exchange_def)

text \<open>Every callback sends the encoding of its request, whatever its arguments are.\<close>

lemma request_texts:
  "in_buffer (10 + length path) (''getattr, '' @ path) = Inr (encode (Getattr path))"
  "in_buffer (10 + length path) (''readdir, '' @ path) = Inr (encode (Readdir path))"
  "in_buffer (10 + length path) (''opendir, '' @ path) = Inr (encode (Opendir path))"
  "in_buffer (10 + length path) (''unlink, '' @ path) = Inr (encode (Unlink path))"
  by (simp_all add: in_buffer_def encode_def)

lemma request_texts_number:
  assumes "length (render_int v) \<le> 11"
  shows "also_in (in_buffer 32 ('', '' @ render_int v)) (\<lambda>s. in_buffer (42 + length path) (''open, '' @ path @ s))
      = Inr (encode (Open path v))"
    and "also_in (in_buffer 32 ('', '' @ render_int v)) (\<lambda>s. in_buffer (42 + length path) (''mkdir, '' @ path @ s))
      = Inr (encode (Mkdir path v))"
    and "also_in (in_buffer 32 ('', '' @ render_int v)) (\<lambda>s. in_buffer (42 + length path) (''create, '' @ path @ s))
      = Inr (encode (Create path v))"
    and "also_in (in_buffer 32 ('', '' @ render_int v)) (\<lambda>s. in_buffer (42 + length path) (''truncate, '' @ path @ s))
      = Inr (encode (Truncate path v))"
  using assms by (simp_all add: in_buffer_def also_in_def encode_def)

lemma request_texts_handle:
  assumes "h < 2 ^ 64"
  shows "also_in (in_buffer 32 (render_nat h)) (\<lambda>s. in_buffer 47 (''releasedir, '' @ s)) = Inr (encode (Releasedir h))"
    and "also_in (in_buffer 32 (render_nat h)) (\<lambda>s. in_buffer 42 (''release, '' @ s)) = Inr (encode (Release h))"
    and "also_in (in_buffer 64 (render_nat h @ '', '' @ render_int (to_int32 a) @ '', '' @ render_int (to_int32 b)))
        (\<lambda>s. in_buffer 74 (''read, '' @ s)) = Inr (encode (Read h (to_int32 a) (to_int32 b)))"
    and "also_in (in_buffer 64 (render_nat h @ '', '' @ render_int (to_int32 a) @ '', '' @ render_int (to_int32 b) @ '', ''))
        (\<lambda>s. in_buffer (74 + length data) (''write, '' @ s @ data)) = Inr (encode (Write h (to_int32 a) (to_int32 b) data))"
  using length_handle_text[OF assms] length_int32_text[of a] length_int32_text[of b]
  by (simp_all add: in_buffer_def also_in_def encode_def)

end
