(* ===== verification/SnfsProps.thy ===== *)
theory SnfsProps
  imports SnfsClient
begin

text \<open>
  What the client and the server achieve together: lemmas about the client over any file service,
  the properties of the composed system, and the faults of its buffers and of \<open>strtok\<close>.
\<close>

section \<open>The client over any file service\<close>

context file_service begin

lemma exchange_answer:
  assumes "carried r" "length (encode r) < 4096" "ans r w = Some (reply, w')" "length reply < seg" "seg < 4096"
  shows "exchange serve (Inr (encode r)) decode w = (decode reply, w')"
proof -
  from serve_answer[OF assms] obtain bytes where
    "serve (encode r) w = (Received bytes, w')" "c_string bytes = reply" "length bytes < 4096" by blast
  then show ?thesis by (simp add: exchange_request sendRequestToServer_def)
qed

lemma client_getattr:
  assumes "word_of path" "length path \<le> 4000" "ans (Getattr path) w = Some (reply, w')"
    and "length reply < seg" "seg < 4096" "decode_stat reply = Inr st"
  shows "SNFS_getattr serve path w =
    (Inr (if st_mode st \<le> 0 \<or> st_uid st \<le> 0 \<or> st_gid st \<le> 0 then - ENOENT else 0, st), w')"
proof -
  have "carried (Getattr path)" "length (encode (Getattr path)) < 4096"
    using assms by (simp_all add: carried_def encode_def)
  note ex = exchange_answer[OF this assms(3-5)]
  show ?thesis
    unfolding SNFS_getattr_def request_texts ex by (simp add: assms(6))
qed

lemma client_readdir:
  assumes "word_of path" "length path \<le> 4000" "ans (Readdir path) w = Some (reply, w')"
    and "length reply < seg" "seg < 4096"
  shows "SNFS_readdir serve path w = (Inr (0, filler_names reply), w')"
proof -
  have "carried (Readdir path)" "length (encode (Readdir path)) < 4096"
    using assms by (simp_all add: carried_def encode_def)
  note ex = exchange_answer[OF this assms(3-5)]
  show ?thesis
    unfolding SNFS_readdir_def request_texts ex ..
qed

lemma client_open:
  assumes "word_of path" "length path \<le> 4000" "int32 flags" "ans (Open path flags) w = Some (reply, w')"
    and "length reply < seg" "seg < 4096"
  shows "SNFS_open serve path flags w = (Inr (if atoi reply = 0 then - ENOENT else 0, file_handle reply), w')"
proof -
  note len = length_int32_arg[OF assms(3)]
  have "carried (Open path flags)" "length (encode (Open path flags)) < 4096"
    using assms len by (simp_all add: carried_def encode_def)
  note ex = exchange_answer[OF this assms(4-6)]
  show ?thesis
    unfolding SNFS_open_def request_texts_number[OF len] ex ..
qed

lemma client_read:
  assumes "h < 2 ^ 64" "int sz < 2 ^ 31" "int32 off" "ans (Read h (int sz) off) w = Some (reply, w')"
    and "length reply < seg" "seg < 4096" "length reply < sz"
  shows "SNFS_read serve h sz off w = (Inr (int (length reply), reply), w')"
proof -
  have sz: "int32 (int sz)" using assms(2) by (simp add: int32_def)
  note ids = int32_id[OF sz] int32_id[OF assms(3)]
  have "carried (Read h (int sz) off)" "length (encode (Read h (int sz) off)) < 4096"
    using sz assms(3) length_handle_text[OF assms(1)] length_int32_arg[OF sz] length_int32_arg[OF assms(3)]
    by (simp_all add: carried_def encode_def)
  note ex = exchange_answer[OF this assms(4-6)]
  show ?thesis
    unfolding SNFS_read_def request_texts_handle(3)[OF assms(1)] unfolding ids ex using assms(7) by simp
qed

lemma client_write:
  assumes "h < 2 ^ 64" "int sz < 2 ^ 31" "int32 off" "NUL \<notin> set data" "length data \<le> 4000"
    and "ans (Write h (int sz) off data) w = Some (reply, w')" "length reply < seg" "seg < 4096"
  shows "SNFS_write serve h (data @ NUL # mem) sz off w = (Inr (atoi reply), w')"
proof -
  have sz: "int32 (int sz)" using assms(2) by (simp add: int32_def)
  note ids = int32_id[OF sz] int32_id[OF assms(3)]
  have "carried (Write h (int sz) off data)" "length (encode (Write h (int sz) off data)) < 4096"
    using sz assms length_handle_text[OF assms(1)] length_int32_arg[OF sz] length_int32_arg[OF assms(3)]
    by (simp_all add: carried_def encode_def)
  note ex = exchange_answer[OF this assms(6-8)]
  have c: "c_string (data @ NUL # mem) = data" "(NUL \<notin> set (data @ NUL # mem)) = False"
    using assms(4) by simp_all
  show ?thesis
    unfolding SNFS_write_def c if_False request_texts_handle(4)[OF assms(1)] unfolding ids ex ..
qed

end

section \<open>Decoding what was encoded\<close>

lemma strtok_calls_comma:
  assumes "word_of t"
  shows "strtok_calls (Suc n) (t @ '', '' @ s) = Some t # strtok_calls n s"
  using strtok_word(2)[OF assms, of "CHR '',''"] by (simp add: strtok_calls_delim)

text \<open>The file attributes that survive the conversion to \<open>int\<close> on the server.\<close>

definition stat_fits :: "file_stat \<Rightarrow> bool" where
  "stat_fits st \<longleftrightarrow>
     (\<forall>v \<in> {st_mode st, st_ino st, st_dev st, st_uid st, st_gid st, st_nlink st}. 0 \<le> v \<and> v < 2 ^ 31)
     \<and> int32 (st_atime st) \<and> int32 (st_ctime st) \<and> int32 (st_mtime st) \<and> int32 (st_size st)"

lemma decode_status:
  assumes "stat_fits st"
  shows "decode_stat (status_text st) = Inr st"
proof -
  let ?d = "\<lambda>v. render_int (to_int32 v)"
  have ten: "(10::nat) = Suc (Suc (Suc (Suc (Suc (Suc (Suc (Suc (Suc (Suc 0)))))))))" by simp
  have toks: "strtok_calls 10 (status_text st) =
      [Some (?d (st_mode st)), Some (?d (st_ino st)), Some (?d (st_dev st)), Some (?d (st_uid st)),
       Some (?d (st_gid st)), Some (?d (st_atime st)), Some (?d (st_ctime st)), Some (?d (st_mtime st)),
       Some (?d (st_nlink st)), Some (?d (st_size st))]"
    unfolding status_text_def Let_def ten
    by (simp only: strtok_calls_comma word_of_render_int strtok_calls_last strtok_calls.simps(1))
  have id: "to_int32 v = v" "int32 v" "to_uint32 v = v" "to_uint64 v = v" if "0 \<le> v" "v < 2 ^ 31" for v
    using that by (auto simp: to_int32_id int32_def to_uint32_def to_uint64_def)
  show ?thesis
    using assms unfolding decode_stat_def toks
    by (simp add: stat_fits_def id int32_id Let_def)
qed

lemma filler_names_Nil: "filler_names [] = []"
  by (simp add: filler_names.simps)

lemma filler_names_entry:
  assumes "word_of t"
  shows "filler_names ('', '' @ t) = [t]" "filler_names ('', '' @ t @ '', '' @ s) = t # filler_names s"
proof -
  have tok: "strtok ('', '' @ u) = strtok u" for u by simp
  have skip: "filler_names (CHR '' '' # s) = filler_names s" for s
    by (subst (1 2) filler_names.simps) simp
  show "filler_names ('', '' @ t) = [t]"
    by (subst filler_names.simps) (simp add: strtok_word(1)[OF assms] filler_names_Nil)
  have "strtok ('', '' @ t @ '', '' @ s) = (Some t, CHR '' '' # s)"
    using strtok_word(2)[OF assms, of "CHR '',''" "CHR '' '' # s"] by simp
  then show "filler_names ('', '' @ t @ '', '' @ s) = t # filler_names s"
    by (subst filler_names.simps) (simp add: skip)
qed

definition listing :: "string list \<Rightarrow> string" where
  "listing names = concat (map (\<lambda>d. '', '' @ d) names)"

lemma filler_names_comma: "filler_names (CHR '','' # CHR '' '' # s) = filler_names s"
  by (subst (1 2) filler_names.simps) simp

lemma filler_names_listing:
  "(\<And>d. d \<in> set names \<Longrightarrow> word_of d) \<Longrightarrow> filler_names (listing names) = names"
proof (induction names)
  case Nil
  then show ?case by (simp add: listing_def filler_names_Nil)
next
  case (Cons d names)
  have d: "word_of d" using Cons.prems by simp
  show ?case
  proof (cases names)
    case Nil
    with filler_names_entry(1)[OF d] show ?thesis by (simp add: listing_def)
  next
    case (Cons e es)
    have "listing (d # names) = '', '' @ d @ '', '' @ e @ listing es"
      by (simp add: listing_def Cons)
    then have "filler_names (listing (d # names)) = d # filler_names (e @ listing es)"
      using filler_names_entry(2)[OF d] by (simp only:)
    also have "filler_names (e @ listing es) = filler_names (listing names)"
      by (simp add: listing_def Cons filler_names_comma)
    finally show ?thesis using Cons.IH Cons.prems by simp
  qed
qed

lemma list_entries_listing:
  assumes "\<And>d. d \<in> set names \<Longrightarrow> word_of d \<and> length d \<le> 4095"
  shows "list_entries names acc cap = Inr (acc @ listing names)"
  using assms
proof (induction names arbitrary: acc cap)
  case (Cons d names)
  then have "d \<noteq> []" "length d < 4096" by (fastforce simp: word_of_def)+
  with Cons show ?case by (simp add: Let_def listing_def)
qed (simp add: listing_def)

lemma listing_no_NUL: "(\<And>d. d \<in> set names \<Longrightarrow> word_of d) \<Longrightarrow> NUL \<notin> set (listing names)"
  by (auto simp: listing_def word_of_def)

text \<open>The descriptor in a handle: the sign extension and the clamping of \<open>atoi\<close> cancel.\<close>

lemma fd_of_handle:
  assumes "- 1 \<le> fd" "fd < 2 ^ 31"
  shows "fd_of (nat (to_uint64 fd)) = fd" "nat (to_uint64 fd) < 2 ^ 64"
proof -
  show "nat (to_uint64 fd) < 2 ^ 64" by (simp add: to_uint64_def nat_less_iff)
  show "fd_of (nat (to_uint64 fd)) = fd"
  proof (cases "fd = - 1")
    case True
    then show ?thesis by (simp add: fd_of_def to_uint64_def clamp_long_def to_int32_def)
  next
    case False
    with assms have "0 \<le> fd" by simp
    with assms show ?thesis by (simp add: fd_of_def to_uint64_def clamp_long_id to_int32_id)
  qed
qed

lemma length_render_int_less_4: "length (render_int v) < 4 \<longleftrightarrow> - 99 \<le> v \<and> v \<le> 999"
proof -
  have "length (render_nat n) < Suc k \<longleftrightarrow> n < 10 ^ k" if "0 < k" for n k
    using length_render_nat_le[OF that, of n] by (simp only: less_Suc_eq_le)
  from this[of 3 "nat v"] this[of 2 "nat (- v)"] show ?thesis
    by (auto simp: render_int_def eval_nat_numeral)
qed

section \<open>The network file system\<close>

text \<open>
  C5: refinement of the abstract file service: a request in the format of the client makes the
  handler perform exactly the system call of that request below \<open>root_path\<close> and send its answer,
  followed by whatever the heap holds up to 4096 bytes.
\<close>

theorem request_handler_answers:
  assumes "carried r" "length (encode r) < 4096" "answer os root r w = Some (reply, w')"
  shows "\<exists>bytes. request_handler os (Some root) heap (Some (encode r)) w = (Inr bytes, w')
    \<and> (length reply < 4096 \<longrightarrow> c_string bytes = reply)"
proof -
  from perform_answer[OF assms(1,3)] obtain resp where
    p: "perform os (Some root) (encode r) (strtok_calls 4 (encode r)) w = (Inr resp, w')" "replied resp reply"
    by blast
  have "c_string (encode r) = encode r" by (rule c_string_id[OF encode_no_NUL[OF assms(1)]])
  with p(1) assms(2) have "request_handler os (Some root) heap (Some (encode r)) w = (Inr (sent_bytes heap resp), w')"
    by (simp add: request_handler_def)
  moreover have "c_string (sent_bytes heap resp) = reply" if "length reply < 4096"
    using p(2) that c_string_prefix[of _ 4096 heap] by (cases resp) (auto simp: replied_def sent_bytes_def simp del: take_append)
  ultimately show ?thesis by blast
qed

text \<open>A small operating system for the examples: the world is the content of one file with descriptor 5.\<close>

definition one_file :: "string os" where
  "one_file =
     \<lparr>os_creat = (\<lambda>p m w. (5, [])), os_open = (\<lambda>p f w. if p = ''/srv/f'' then (5, w) else (- 1, w)),
      os_close = (\<lambda>fd w. w), os_pread = (\<lambda>fd n off w. (take n (drop (nat off) w), w)),
      os_pwrite = (\<lambda>fd bs off w. (int (length bs), take (nat off) w @ bs @ drop (nat off + length bs) w)),
      os_truncate = (\<lambda>p n w. (0, take (nat n) w)), os_mkdir = (\<lambda>p m w. (- 1, w)),
      os_opendir = (\<lambda>p w. (4096, w)), os_closedir = (\<lambda>d w. w),
      os_names = (\<lambda>p w. Some [''.'', ''..'', ''f'']),
      os_lstat = (\<lambda>p w. if p = ''/srv/f'' then Some \<lparr>st_mode = 33188, st_ino = 7, st_dev = 1, st_uid = 0,
        st_gid = 100, st_atime = 1, st_ctime = 2, st_mtime = 3, st_nlink = 1, st_size = int (length w)\<rparr> else None),
      os_unlink = (\<lambda>p w. if p = ''/srv/f'' then (0, []) else (- 1, w)),
      os_stale = \<lparr>st_mode = 0, st_ino = 0, st_dev = 0, st_uid = 0, st_gid = 0, st_atime = 0, st_ctime = 0,
        st_mtime = 0, st_nlink = 0, st_size = 0\<rparr>\<rparr>"

lemma path_f: "word_of ''/f''"
  by (simp add: word_of_def delim_def)

theorem request_handler_answers_witness:
  "\<exists>bytes. request_handler one_file (Some ''/srv'') [] (Some (encode (Unlink ''/f''))) ''old'' = (Inr bytes, [])"
  using request_handler_answers[of "Unlink ''/f''" one_file "''/srv''" "''old''"] path_f
  by (auto simp: carried_def encode_def answer_def one_file_def)

text \<open>
  C28: the attributes of an existing file reach FUSE unchanged when they fit an \<open>int\<close>. But the client
  takes an owner or group of 0 for a missing file: files of root are reported as \<open>ENOENT\<close>.
\<close>

theorem SNFS_getattr_roundtrip:
  assumes "word_of path" "length path \<le> 4000" "os_lstat os (root @ path) w = Some st" "stat_fits st"
    and "144 \<le> seg" "seg < 4096"
  shows "SNFS_getattr (server_link os (Some root) heap seg) path w =
    (Inr (if st_mode st = 0 \<or> st_uid st = 0 \<or> st_gid st = 0 then - ENOENT else 0, st), w)"
proof -
  have ans: "answer os root (Getattr path) w = Some (status_text st, w)"
    using assms(3) by (simp add: answer_def)
  have "length (status_text st) < seg" using length_status_text[of st] assms(5) by simp
  from server.client_getattr[OF assms(1,2) ans this assms(6) decode_status[OF assms(4)], of heap]
  show ?thesis using assms(4) by (auto simp: stat_fits_def)
qed

theorem SNFS_getattr_roundtrip_witness:
  "\<exists>st. SNFS_getattr (server_link one_file (Some ''/srv'') [] 1000) ''/f'' ''abc'' = (Inr (- ENOENT, st), ''abc'')
    \<and> st_size st = 3"
  using SNFS_getattr_roundtrip[OF path_f, of one_file "''/srv''" "''abc''"]
  by (simp add: one_file_def stat_fits_def int32_def)

text \<open>
  A descriptor that the server opens comes back as the file handle, and any descriptor but 0, so
  also the -1 of a failed \<open>open\<close>, is reported to FUSE as success.
\<close>

theorem SNFS_open_handle:
  assumes "word_of path" "length path \<le> 4000" "int32 flags"
    and "os_open os (root @ path) flags w = (fd, w')" "- 1 \<le> fd" "fd \<le> 999"
    and "4 \<le> seg" "seg < 4096"
  shows "\<exists>fh. SNFS_open (server_link os (Some root) heap seg) path flags w =
      (Inr (if fd = 0 then - ENOENT else 0, fh), w') \<and> fd_of fh = fd"
proof -
  have len: "length (render_int fd) < 4" using assms(5,6) by (simp add: length_render_int_less_4)
  have fd: "int32 fd" using assms(5,6) by (simp add: int32_def)
  have ans: "answer os root (Open path flags) w = Some (render_int fd, w')"
    using assms(4) len by (simp add: answer_def fits_def)
  have "SNFS_open (server_link os (Some root) heap seg) path flags w =
      (Inr (if fd = 0 then - ENOENT else 0, nat (to_uint64 fd)), w')"
    using server.client_open[OF assms(1-3) ans, of seg heap] len assms(7,8) fd by (simp add: file_handle_def)
  moreover have "fd_of (nat (to_uint64 fd)) = fd" by (rule fd_of_handle(1)) (use assms in auto)
  ultimately show ?thesis by blast
qed

theorem SNFS_open_handle_witness:
  "\<exists>fh. SNFS_open (server_link one_file (Some ''/srv'') [] 1000) ''/missing'' 0 [] = (Inr (0, fh), []) \<and> fd_of fh = - 1"
proof -
  have "word_of ''/missing''" by (simp add: word_of_def delim_def)
  from SNFS_open_handle[OF this, of 0 one_file "''/srv''" "[]" "- 1" "[]" 1000 "[]"]
  show ?thesis by (simp add: one_file_def int32_def)
qed

text \<open>
  Reading through a handle returns the bytes of the file up to the first NUL and their number, for
  every read that is not filled completely; binary files are cut at their first NUL.
\<close>

theorem SNFS_read_text:
  assumes "- 1 \<le> fd" "fd < 2 ^ 31" "int sz < 2 ^ 31" "int32 off"
    and "os_pread os fd sz off w = (bytes, w')" "length bytes < sz" "length bytes < seg" "seg < 4096"
  shows "SNFS_read (server_link os (Some root) heap seg) (nat (to_uint64 fd)) sz off w =
    (Inr (int (length (c_string bytes)), c_string bytes), w')"
proof -
  note fh = fd_of_handle[OF assms(1,2)]
  have ans: "answer os root (Read (nat (to_uint64 fd)) (int sz) off) w = Some (c_string bytes, w')"
    using assms(5,6) fh(1) by (simp add: answer_def)
  have "length (c_string bytes) \<le> length bytes" by (simp add: c_string_def length_takeWhile_le)
  with server.client_read[OF fh(2) assms(3,4) ans] assms(6-8) show ?thesis by simp
qed

theorem SNFS_read_text_witness:
  "SNFS_read (server_link one_file (Some ''/srv'') [] 1000) (nat (to_uint64 5)) 64 0 (''ab'' @ NUL # ''cd'') =
    (Inr (2, ''ab''), ''ab'' @ NUL # ''cd'')"
  using SNFS_read_text[of 5 64 0 one_file "''ab'' @ NUL # ''cd''" "''ab'' @ NUL # ''cd''" _ 1000 "''/srv''" "[]"]
  by (simp add: one_file_def int32_def c_string_def)

text \<open>
  A write stores the wrong bytes: the server cuts the data off behind the fourth comma of the
  request, where the client has put a blank, so that what reaches \<open>pwrite\<close> is a blank followed by
  the data without their last byte. The number of bytes written is returned as if nothing were
  wrong.
\<close>

theorem SNFS_write_shifts_data:
  assumes "- 1 \<le> fd" "fd < 2 ^ 31" "int32 off" "NUL \<notin> set data" "length data \<le> 4000"
    and "os_pwrite os fd (take (length data) (CHR '' '' # data)) off w = (x, w')" "- 1 \<le> x" "x \<le> 999"
    and "4 \<le> seg" "seg < 4096"
  shows "SNFS_write (server_link os (Some root) heap seg) (nat (to_uint64 fd)) (data @ NUL # mem) (length data) off w =
    (Inr x, w')"
proof -
  note fh = fd_of_handle[OF assms(1,2)]
  have len: "length (render_int x) < 4" using assms(7,8) by (simp add: length_render_int_less_4)
  have "take (length data) (CHR '' '' # data @ [NUL]) = take (length data) (CHR '' '' # data)"
    by (cases "length data") simp_all
  then have ans: "answer os root (Write (nat (to_uint64 fd)) (int (length data)) off data) w = Some (render_int x, w')"
    using assms(6) fh(1) len by (simp add: answer_def fits_def del: take_append)
  have "int32 x" using assms(7,8) by (simp add: int32_def)
  with server.client_write[OF fh(2) _ assms(3-5) ans, of seg heap mem] len assms(5,9,10) show ?thesis by simp
qed

theorem SNFS_write_shifts_data_witness:
  "SNFS_write (server_link one_file (Some ''/srv'') [] 1000) (nat (to_uint64 5)) (''something'' @ NUL # []) 9 0 [] =
    (Inr 9, '' somethin'')"
proof -
  have data: "length ''something'' = (9::nat)" by simp
  show ?thesis
    using SNFS_write_shifts_data[of 5 0 "''something''" one_file "[]" 9 "'' somethin''" 1000 "''/srv''" "[]" "[]"]
    unfolding data by (simp add: one_file_def int32_def)
qed

text \<open>
  C29: the names of a directory are listed completely and in order as long as none has a blank or a
  comma and the listing fits the received bytes; a directory that cannot be opened is an empty one.
\<close>

theorem SNFS_readdir_lists:
  assumes "word_of path" "length path \<le> 4000" "seg < 4096" "0 < seg"
    and "\<And>names d. os_names os (root @ path) w = Some names \<Longrightarrow> d \<in> set names \<Longrightarrow> word_of d \<and> length d \<le> 255"
    and "\<And>names. os_names os (root @ path) w = Some names \<Longrightarrow> length (listing names) < seg"
  shows "SNFS_readdir (server_link os (Some root) heap seg) path w =
    (Inr (0, case os_names os (root @ path) w of None \<Rightarrow> [] | Some names \<Rightarrow> names), w)"
proof (cases "os_names os (root @ path) w")
  case None
  then have "answer os root (Readdir path) w = Some ([], w)" by (simp add: answer_def)
  from server.client_readdir[OF assms(1,2) this] assms(3,4) None show ?thesis
    by (simp add: filler_names_Nil)
next
  case (Some names)
  note ok = assms(5)[OF Some]
  have "list_entries names [] 1 = Inr ([] @ listing names)"
    by (rule list_entries_listing) (use ok in force)
  moreover have "NUL \<notin> set (listing names)" by (rule listing_no_NUL) (use ok in blast)
  ultimately have "answer os root (Readdir path) w = Some (listing names, w)"
    using Some by (simp add: answer_def)
  from server.client_readdir[OF assms(1,2) this assms(6)[OF Some] assms(3), of heap] Some ok
  show ?thesis by (simp add: filler_names_listing)
qed

theorem SNFS_readdir_lists_witness:
  "SNFS_readdir (server_link one_file (Some ''/srv'') [] 1000) ''/f'' [] = (Inr (0, [''.'', ''..'', ''f'']), [])"
proof -
  have names: "os_names one_file (''/srv'' @ ''/f'') [] = Some [''.'', ''..'', ''f'']" by (simp add: one_file_def)
  have words: "word_of d \<and> length d \<le> 255"
    if "os_names one_file (''/srv'' @ ''/f'') [] = Some ds" "d \<in> set ds" for ds d
    using that unfolding names by (auto simp: word_of_def delim_def)
  have fits: "length (listing ds) < 1000" if "os_names one_file (''/srv'' @ ''/f'') [] = Some ds" for ds
    using that unfolding names by (auto simp: listing_def)
  show ?thesis
    using SNFS_readdir_lists[where path = "''/f''" and seg = 1000 and os = one_file and root = "''/srv''" and w = "[]" and heap = "[]"] path_f words fits unfolding names by simp
qed

section \<open>Buffers\<close>

text \<open>A server that only logs what it receives.\<close>

definition logging :: "string \<Rightarrow> string list \<Rightarrow> net \<times> string list" where
  "logging request log = (Received ''0'', log @ [request])"

lemma exchange_logging:
  "exchange logging (Inr req) decode log = (decode ''0'', log @ [req])"
  by (simp add: exchange_request sendRequestToServer_def logging_def c_string_def)

text \<open>
  The request buffers of the client are large enough for every path, number and handle: each
  callback sends exactly one request, the full encoding of its arguments.
\<close>

theorem client_requests_fit:
  assumes "h < 2 ^ 64" "NUL \<notin> set data"
  shows "(snd (SNFS_getattr logging path log) = log @ [encode (Getattr path)])
    \<and> (snd (SNFS_readdir logging path log) = log @ [encode (Readdir path)])
    \<and> (snd (SNFS_opendir logging path log) = log @ [encode (Opendir path)])
    \<and> (snd (SNFS_unlink logging path log) = log @ [encode (Unlink path)])
    \<and> (snd (SNFS_open logging path (to_int32 v) log) = log @ [encode (Open path (to_int32 v))])
    \<and> (snd (SNFS_create logging path v log) = log @ [encode (Create path (to_int32 v))])
    \<and> (snd (SNFS_mkdir logging path v log) = log @ [encode (Mkdir path (to_int32 v))])
    \<and> (snd (SNFS_truncate logging path v log) = log @ [encode (Truncate path (to_int32 v))])
    \<and> (snd (SNFS_release logging h log) = log @ [encode (Release h)])
    \<and> (snd (SNFS_releasedir logging h log) = log @ [encode (Releasedir h)])
    \<and> (snd (SNFS_read logging h sz v log) = log @ [encode (Read h (to_int32 (int sz)) (to_int32 v))])
    \<and> (snd (SNFS_write logging h (data @ NUL # mem) sz v log) =
        log @ [encode (Write h (to_int32 (int sz)) (to_int32 v) data)])"
proof -
  have c: "c_string (data @ NUL # mem) = data" "(NUL \<notin> set (data @ NUL # mem)) = False"
    using assms(2) by simp_all
  note texts = request_texts request_texts_number[OF length_int32_text] request_texts_handle[OF assms(1)]
  show ?thesis
  proof (intro conjI)
    show "snd (SNFS_getattr logging path log) = log @ [encode (Getattr path)]"
      unfolding SNFS_getattr_def texts exchange_logging by simp
    show "snd (SNFS_readdir logging path log) = log @ [encode (Readdir path)]"
      unfolding SNFS_readdir_def texts exchange_logging by simp
    show "snd (SNFS_opendir logging path log) = log @ [encode (Opendir path)]"
      unfolding SNFS_opendir_def texts exchange_logging by simp
    show "snd (SNFS_unlink logging path log) = log @ [encode (Unlink path)]"
      unfolding SNFS_unlink_def texts exchange_logging by simp
    show "snd (SNFS_open logging path (to_int32 v) log) = log @ [encode (Open path (to_int32 v))]"
      unfolding SNFS_open_def texts exchange_logging by simp
    show "snd (SNFS_create logging path v log) = log @ [encode (Create path (to_int32 v))]"
      unfolding SNFS_create_def texts exchange_logging by simp
    show "snd (SNFS_mkdir logging path v log) = log @ [encode (Mkdir path (to_int32 v))]"
      unfolding SNFS_mkdir_def texts exchange_logging by simp
    show "snd (SNFS_truncate logging path v log) = log @ [encode (Truncate path (to_int32 v))]"
      unfolding SNFS_truncate_def texts exchange_logging by simp
    show "snd (SNFS_release logging h log) = log @ [encode (Release h)]"
      unfolding SNFS_release_def texts exchange_logging by simp
    show "snd (SNFS_releasedir logging h log) = log @ [encode (Releasedir h)]"
      unfolding SNFS_releasedir_def texts exchange_logging by simp
    show "snd (SNFS_read logging h sz v log) = log @ [encode (Read h (to_int32 (int sz)) (to_int32 v))]"
      unfolding SNFS_read_def texts exchange_logging by simp
    show "snd (SNFS_write logging h (data @ NUL # mem) sz v log) =
        log @ [encode (Write h (to_int32 (int sz)) (to_int32 v) data)]"
      unfolding SNFS_write_def c if_False texts exchange_logging by simp
  qed
qed

theorem client_requests_fit_witness:
  "snd (SNFS_write logging 3 (''hi'' @ NUL # []) 2 0 []) = [encode (Write 3 (to_int32 2) (to_int32 0) ''hi'')]"
  using client_requests_fit[where h = 3 and data = "''hi''" and mem = "[]" and sz = 2 and v = 0 and log = "[]"] by simp

text \<open>
  C40: the response buffers of the server are not: \<open>calloc(sizeof(int), 1)\<close> holds the decimal text of a
  descriptor from -99 to 999 only, and \<open>calloc(sizeof(DIR*), 1)\<close> that of an address below ten
  million; beyond that \<open>sprintf\<close> writes past the buffer, after the call has been performed.
\<close>

theorem response_buffers_overflow:
  shows "(fst (remote_open os (Some root) path flags w) = Inl Overflow \<longleftrightarrow>
        fst (os_open os (root @ path) flags w) \<notin> {- 99..999})
    \<and> (fst (remote_create os (Some root) path mode w) = Inl Overflow \<longleftrightarrow>
        fst (os_creat os (root @ path) mode w) \<notin> {- 99..999})
    \<and> (fst (remote_opendir os (Some root) path w) = Inl Overflow \<longleftrightarrow>
        10 ^ 7 \<le> fst (os_opendir os (root @ path) w))"
proof -
  have 7: "length (render_nat n) < 8 \<longleftrightarrow> n < 10 ^ 7" for n
    using length_render_nat_le[of 7 n] less_Suc_eq_le[of "length (render_nat n)" 7] by (simp del: power.simps)
  show ?thesis
  proof (intro conjI)
    show "fst (remote_open os (Some root) path flags w) = Inl Overflow \<longleftrightarrow>
        fst (os_open os (root @ path) flags w) \<notin> {- 99..999}"
      by (cases "os_open os (root @ path) flags w")
        (simp add: remote_open_def with_path_def put_text_def length_render_int_less_4)
    show "fst (remote_create os (Some root) path mode w) = Inl Overflow \<longleftrightarrow>
        fst (os_creat os (root @ path) mode w) \<notin> {- 99..999}"
      by (cases "os_creat os (root @ path) mode w")
        (simp add: remote_create_def with_path_def put_text_def length_render_int_less_4)
    show "fst (remote_opendir os (Some root) path w) = Inl Overflow \<longleftrightarrow>
        10 ^ 7 \<le> fst (os_opendir os (root @ path) w)"
      by (cases "os_opendir os (root @ path) w")
        (simp add: remote_opendir_def with_path_def put_text_def 7 del: power.simps)
  qed
qed

text \<open>
  A write of a full page kills the server: with 4096 bytes of data or more the request fills
  \<open>rec_data\<close> and \<open>rec_data[bytes_recieved]\<close> is written behind the array, before anything is done;
  the client's \<open>recv\<close> then fails and it writes before its own buffer.
\<close>

theorem SNFS_write_page_overflow:
  assumes "h < 2 ^ 64" "NUL \<notin> set data" "4096 \<le> length data"
  shows "SNFS_write (server_link os root heap seg) h (data @ NUL # mem) sz off w = (Inl Overflow, w)"
proof -
  have c: "c_string (data @ NUL # mem) = data" "(NUL \<notin> set (data @ NUL # mem)) = False"
    using assms(2) by simp_all
  have "4096 \<le> length (encode (Write h (to_int32 (int sz)) (to_int32 off) data))"
    using assms(3) by (simp add: encode_def)
  then have "server_link os root heap seg (encode (Write h (to_int32 (int sz)) (to_int32 off) data)) w = (Recv_error, w)"
    by (simp add: server_link_def request_handler_def)
  then show ?thesis
    unfolding SNFS_write_def c if_False request_texts_handle(4)[OF assms(1)]
    by (simp add: exchange_request sendRequestToServer_def)
qed

theorem SNFS_write_page_overflow_witness:
  "SNFS_write (server_link one_file (Some ''/srv'') [] 1000) 5 (replicate 4096 CHR ''a'' @ NUL # []) 4096 0 [] =
    (Inl Overflow, [])"
  by (rule SNFS_write_page_overflow) simp_all

text \<open>
  Any client can kill the server with an empty request: a connection closed without data, or with
  blanks and commas only, makes \<open>strtok\<close> return a null pointer that \<open>strcmp\<close> follows.
\<close>

theorem request_handler_empty_request:
  assumes "length msg < 4096" "\<And>c. c \<in> set msg \<Longrightarrow> delim c"
  shows "request_handler os root heap (Some msg) w = (Inl Null_deref, w)"
proof -
  have "NUL \<notin> set msg" using assms(2) by (auto simp: delim_def)
  then have "c_string msg = msg" by simp
  moreover have "strtok_calls 4 msg = None # strtok_calls 3 []"
    using assms(2) by (simp add: eval_nat_numeral strtok_def dropWhile_eq_Nil_conv)
  ultimately show ?thesis using assms(1) by (simp add: request_handler_def perform_def arg_def)
qed

theorem request_handler_empty_request_witness:
  "request_handler one_file (Some ''/srv'') [] (Some []) ''abc'' = (Inl Null_deref, ''abc'')
    \<and> request_handler one_file (Some ''/srv'') [] (Some '' ,'') ''abc'' = (Inl Null_deref, ''abc'')"
  using request_handler_empty_request[of "[]" one_file] request_handler_empty_request[of "'' ,''" one_file]
  by (simp add: delim_def)

section \<open>Concurrent requests\<close>

text \<open>
  The threads of the server share the static pointer of \<open>strtok\<close>. A schedule lists the thread that
  calls it next; the first call of a thread passes its request, the later ones \<open>NULL\<close>.
\<close>

fun strtok_sched ::
  "(nat \<Rightarrow> string) \<Rightarrow> nat list \<Rightarrow> string \<Rightarrow> (nat \<Rightarrow> string option list) \<Rightarrow> (nat \<Rightarrow> string option list)" where
  "strtok_sched req [] saved taken = taken"
| "strtok_sched req (i # is) saved taken =
     (let (t, rest) = strtok (if taken i = [] then req i else saved)
      in strtok_sched req is rest (taken(i := taken i @ [t])))"

definition two_requests :: "string \<Rightarrow> string \<Rightarrow> nat \<Rightarrow> string" where
  "two_requests a b i = (if i = 0 then encode (Unlink a) else encode (Getattr b))"

text \<open>
  \<open>strtok\<close> is not safe for the threads of the server: when a request to remove one file and a
  request for the attributes of another are tokenised in turns, the handler of the first
  removes the file of the second, and the other one follows a null pointer. One after the
  other, each removes and reads its own.
\<close>

theorem strtok_race:
  assumes "word_of a" "word_of b"
  shows "(perform os (Some root) (two_requests a b 0) (strtok_sched (two_requests a b) [0, 1, 0, 1] [] (\<lambda>_. []) 0) w =
        (Inr (Some [NUL]), snd (os_unlink os (root @ b) w)))
    \<and> (perform os (Some root) (two_requests a b 1) (strtok_sched (two_requests a b) [0, 1, 0, 1] [] (\<lambda>_. []) 1) w = (Inl Null_deref, w))
    \<and> (perform os (Some root) (two_requests a b 0) (strtok_sched (two_requests a b) [0, 0, 1, 1] [] (\<lambda>_. []) 0) w =
        (Inr (Some [NUL]), snd (os_unlink os (root @ a) w)))"
proof -
  have t: "strtok (encode (Unlink p)) = (Some ''unlink'', CHR '' '' # p)"
    "strtok (encode (Getattr p)) = (Some ''getattr'', CHR '' '' # p)" for p
    using strtok_word(2)[of "''unlink''" "CHR '',''" "CHR '' '' # p"]
      strtok_word(2)[of "''getattr''" "CHR '',''" "CHR '' '' # p"] by (simp_all add: encode_def)
  note tok = t strtok_word(1)[OF assms(1)] strtok_word(1)[OF assms(2)]
  have s: "strtok_sched (two_requests a b) [0, 1, 0, 1] [] (\<lambda>_. []) 0 = [Some ''unlink'', Some b]"
    "strtok_sched (two_requests a b) [0, 1, 0, 1] [] (\<lambda>_. []) 1 = [Some ''getattr'', None]"
    "strtok_sched (two_requests a b) [0, 0, 1, 1] [] (\<lambda>_. []) 0 = [Some ''unlink'', Some a]"
    by (simp_all add: two_requests_def tok)
  show ?thesis
  proof (intro conjI)
    show "perform os (Some root) (two_requests a b 0) (strtok_sched (two_requests a b) [0, 1, 0, 1] [] (\<lambda>_. []) 0) w =
        (Inr (Some [NUL]), snd (os_unlink os (root @ b) w))"
      unfolding s by (simp add: perform_def arg_def remote_unlink_def with_path_def)
    show "perform os (Some root) (two_requests a b 1) (strtok_sched (two_requests a b) [0, 1, 0, 1] [] (\<lambda>_. []) 1) w = (Inl Null_deref, w)"
      unfolding s by (simp add: perform_def arg_def)
    show "perform os (Some root) (two_requests a b 0) (strtok_sched (two_requests a b) [0, 0, 1, 1] [] (\<lambda>_. []) 0) w =
        (Inr (Some [NUL]), snd (os_unlink os (root @ a) w))"
      unfolding s by (simp add: perform_def arg_def remote_unlink_def with_path_def)
  qed
qed

theorem strtok_race_witness:
  "perform one_file (Some ''/srv'') (two_requests ''/g'' ''/f'' 0)
     (strtok_sched (two_requests ''/g'' ''/f'') [0, 1, 0, 1] [] (\<lambda>_. []) 0)
     ''abc'' = (Inr (Some [NUL]), [])"
proof -
  have "word_of ''/g''" by (simp add: word_of_def delim_def)
  from strtok_race[OF this path_f, of one_file "''/srv''" "''abc''"] show ?thesis by (simp add: one_file_def)
qed

end
