(* ===== verification/SnfsAccept.thy ===== *)
theory SnfsAccept
  imports SnfsProps
begin

text \<open>
  The endless loop of the server (\<open>main\<close> in \<open>serverSNFS.c\<close>): every connection gets a thread, and the
  threads run \<open>request_handler\<close> interleaved. They share the process, so that a fault in one ends all,
  and the static pointer of \<open>strtok\<close>. One step is a turn of the loop, a \<open>recv\<close>, one call of \<open>strtok\<close>
  with the test that follows it, or the operation with the response. Creating a thread succeeds.
\<close>

section \<open>The server\<close>

datatype stage = Started | Tokenising string "string option list" | Ended

record 'w server =
  world :: 'w
  saved :: string
  handlers :: "(int \<times> stage) list"
  sent :: "(int \<times> string) list"
  down :: "fault option"

datatype server_event = Accept int | Receive nat "string option" | Token nat | Run nat

text \<open>How often the branch of \<open>request_handler\<close> for the first token calls \<open>strtok\<close>.\<close>

definition calls_of :: "string option \<Rightarrow> nat" where
  "calls_of firstarg = (case firstarg of None \<Rightarrow> 1 | Some t \<Rightarrow>
     if List.member [''read'', ''write''] t then 4
     else if List.member [''mkdir'', ''open'', ''truncate'', ''create''] t then 3
     else if List.member [''readdir'', ''getattr'', ''opendir'', ''releasedir'', ''release'', ''unlink''] t then 2
     else 1)"

definition complete_tokens :: "string option list \<Rightarrow> bool" where
  "complete_tokens taken \<longleftrightarrow> taken \<noteq> [] \<and> calls_of (hd taken) \<le> length taken"

text \<open>
  A turn of the accept loop: the result of \<open>accept\<close> goes to the handler untested.
\<close>

definition accept_turn :: "int \<Rightarrow> 'w server \<Rightarrow> 'w server" where
  "accept_turn connected S = S\<lparr>handlers := handlers S @ [(connected, Started)]\<rparr>"

definition set_stage :: "nat \<Rightarrow> stage \<Rightarrow> 'w server \<Rightarrow> 'w server" where
  "set_stage t st S = S\<lparr>handlers := (handlers S)[t := (fst (handlers S ! t), st)]\<rparr>"

definition handler_receive :: "nat \<Rightarrow> string option \<Rightarrow> 'w server \<Rightarrow> 'w server" where
  "handler_receive t received S =
     (case received of
        None \<Rightarrow> S\<lparr>down := Some Overflow\<rparr>
      | Some msg \<Rightarrow>
          if 4096 \<le> length msg then S\<lparr>down := Some Overflow\<rparr> else set_stage t (Tokenising (c_string msg) []) S)"

text \<open>A null pointer reaches \<open>strcmp\<close> for the first token and \<open>atoi\<close> from the third on.\<close>

definition handler_token :: "nat \<Rightarrow> string \<Rightarrow> string option list \<Rightarrow> 'w server \<Rightarrow> 'w server" where
  "handler_token t request taken S =
     (let (tok, rest) = strtok (if taken = [] then request else saved S);
          S = set_stage t (Tokenising request (taken @ [tok])) (S\<lparr>saved := rest\<rparr>)
      in if tok = None \<and> length taken \<noteq> 1 then S\<lparr>down := Some Null_deref\<rparr> else S)"

definition handler_run :: "'w os \<Rightarrow> string option \<Rightarrow> string \<Rightarrow> nat \<Rightarrow> string \<Rightarrow> string option list \<Rightarrow> 'w server \<Rightarrow> 'w server" where
  "handler_run os root heap t request taken S =
     (case perform os root request taken (world S) of
        (Inl f, w) \<Rightarrow> S\<lparr>world := w, down := Some f\<rparr>
      | (Inr response, w) \<Rightarrow>
          set_stage t Ended (S\<lparr>world := w, sent := sent S @ [(fst (handlers S ! t), sent_bytes heap response)]\<rparr>))"

fun server_step :: "'w os \<Rightarrow> string option \<Rightarrow> string \<Rightarrow> server_event \<Rightarrow> 'w server \<Rightarrow> 'w server option" where
  "server_step os root heap (Accept connected) S = (if down S = None then Some (accept_turn connected S) else None)"
| "server_step os root heap (Receive t received) S =
     (if down S = None \<and> t < length (handlers S) \<and> snd (handlers S ! t) = Started
      then Some (handler_receive t received S) else None)"
| "server_step os root heap (Token t) S =
     (if down S = None \<and> t < length (handlers S)
      then case snd (handlers S ! t) of
          Tokenising request taken \<Rightarrow>
            if complete_tokens taken then None else Some (handler_token t request taken S)
        | _ \<Rightarrow> None
      else None)"
| "server_step os root heap (Run t) S =
     (if down S = None \<and> t < length (handlers S)
      then case snd (handlers S ! t) of
          Tokenising request taken \<Rightarrow>
            if complete_tokens taken then Some (handler_run os root heap t request taken S) else None
        | _ \<Rightarrow> None
      else None)"

fun server_run :: "'w os \<Rightarrow> string option \<Rightarrow> string \<Rightarrow> server_event list \<Rightarrow> 'w server \<Rightarrow> 'w server option" where
  "server_run os root heap [] S = Some S"
| "server_run os root heap (e # es) S = Option.bind (server_step os root heap e S) (server_run os root heap es)"


lemma set_stage_frame [simp]:
  "world (set_stage t st S) = world S" "saved (set_stage t st S) = saved S" "sent (set_stage t st S) = sent S"
  "down (set_stage t st S) = down S" "length (handlers (set_stage t st S)) = length (handlers S)"
  "fst (handlers (set_stage t st S) ! u) = fst (handlers S ! u)"
  "t < length (handlers S) \<Longrightarrow> snd (handlers (set_stage t st S) ! u) = (if u = t then st else snd (handlers S ! u))"
proof -
  show "fst (handlers (set_stage t st S) ! u) = fst (handlers S ! u)"
    by (cases "u = t"; cases "t < length (handlers S)") (simp_all add: set_stage_def list_update_beyond)
qed (auto simp: set_stage_def nth_list_update)

section \<open>Handlers that tokenise one after the other\<close>


























section \<open>The server as a whole\<close>






text \<open>
  The result of \<open>accept\<close> is not tested: when it fails, \<open>recv\<close> on -1 fails too, and the handler writes
  in front of its buffer. Nothing happens any more after that, for no client.
\<close>

lemma failed_accept_ends_server:
  assumes "down S = None" "t = length (handlers S)"
  shows "Option.bind (server_run os root heap [Accept (- 1), Receive t None] S) (server_step os root heap e) = None"
  using assms by (cases e) (simp_all add: accept_turn_def handler_receive_def)

end
