(* ===== verification/SchedTask.thy ===== *)
theory SchedTask
  imports Prelude "HOL-Library.Word"
begin

text \<open>
  The state of the Linux 2.4 scheduler (\<open>sched.c\<close>, \<open>sched.h\<close>): the fields of a \<open>task_struct\<close> that it
  reads or writes, the per-processor data and the run queue, with the operations on the run queue
  and the goodness of a task. A task is named by its address; \<open>long\<close> has 32 bits (i386).
\<close>

unbundle bit_operations_syntax

type_synonym u32 = "32 word"
type_synonym ptr = nat

section \<open>Tasks\<close>

text \<open>
  \<open>t_on_list\<close> stands for \<open>run_list.next != NULL\<close>. Memory descriptors and users are addresses, 0 is
  \<open>NULL\<close>. \<open>t_share\<close> is the field that the fair-share patch adds.
\<close>

record task =
  t_state :: u32
  t_flags :: u32
  t_sigpending :: bool
  t_need_resched :: int
  t_counter :: int
  t_nice :: int
  t_policy :: u32
  t_mm :: ptr
  t_active_mm :: ptr
  t_processor :: nat
  t_cpus_runnable :: u32
  t_cpus_allowed :: u32
  t_on_list :: bool
  t_sleep_time :: u32
  t_rt_priority :: int
  t_uid :: int
  t_euid :: int
  t_cap_effective :: u32
  t_user :: ptr
  t_share :: int

definition TASK_RUNNING :: u32 where [simp]: "TASK_RUNNING = 0"
definition TASK_INTERRUPTIBLE :: u32 where [simp]: "TASK_INTERRUPTIBLE = 1"
definition TASK_UNINTERRUPTIBLE :: u32 where [simp]: "TASK_UNINTERRUPTIBLE = 2"
definition TASK_ZOMBIE :: u32 where [simp]: "TASK_ZOMBIE = 4"
definition TASK_STOPPED :: u32 where [simp]: "TASK_STOPPED = 8"

definition SCHED_OTHER :: u32 where [simp]: "SCHED_OTHER = 0"
definition SCHED_FIFO :: u32 where [simp]: "SCHED_FIFO = 1"
definition SCHED_RR :: u32 where [simp]: "SCHED_RR = 2"
definition SCHED_YIELD :: u32 where [simp]: "SCHED_YIELD = 16"

section \<open>What the sources include\<close>

text \<open>
  The configuration, the maps of the processors, the test of a capability and the lists of \<open>linux/list.h\<close>, none of which is
  part of the repository: the scheduler is a function of them. \<open>list_elems\<close> is the order in which
  \<open>list_for_each\<close> visits a list.
\<close>

record 'q kernel =
  CONFIG_SMP :: bool
  HZ :: int
  PROC_CHANGE_PENALTY :: int
  smp_num_cpus :: nat
  cpu_logical_map :: "nat \<Rightarrow> nat"
  cpu_number_map :: "nat \<Rightarrow> nat"
  smp_num_siblings :: nat
  cpu_sibling_map :: "nat \<Rightarrow> nat"
  cpu_online_map :: u32
  cap_raised :: "u32 \<Rightarrow> nat \<Rightarrow> bool"
  CAP_SYS_NICE :: nat
  init_task :: ptr
  list_add_tail :: "ptr \<Rightarrow> 'q \<Rightarrow> 'q"
  list_del :: "ptr \<Rightarrow> 'q \<Rightarrow> 'q"
  list_elems :: "'q \<Rightarrow> ptr list"

text \<open>
  The contract of a list linked through the tasks: what a traversal sees after an insertion at the
  end and after a deletion. \<open>linkable\<close> excludes the head.
\<close>

locale task_list =
  fixes valid :: "'s \<Rightarrow> bool" and linkable :: "ptr \<Rightarrow> bool" and elems :: "'s \<Rightarrow> ptr list"
    and add_last :: "ptr \<Rightarrow> 's \<Rightarrow> 's" and del :: "ptr \<Rightarrow> 's \<Rightarrow> 's"
  assumes elems_distinct: "valid q \<Longrightarrow> distinct (elems q)"
    and add_last_valid: "valid q \<Longrightarrow> linkable p \<Longrightarrow> p \<notin> set (elems q) \<Longrightarrow> valid (add_last p q)"
    and elems_add_last: "valid q \<Longrightarrow> linkable p \<Longrightarrow> p \<notin> set (elems q) \<Longrightarrow> elems (add_last p q) = elems q @ [p]"
    and del_valid: "valid q \<Longrightarrow> p \<in> set (elems q) \<Longrightarrow> valid (del p q)"
    and elems_del: "valid q \<Longrightarrow> p \<in> set (elems q) \<Longrightarrow> elems (del p q) = remove1 p (elems q)"
begin

lemma not_in_del: "valid q \<Longrightarrow> p \<in> set (elems q) \<Longrightarrow> p \<notin> set (elems (del p q))"
  by (simp add: elems_del elems_distinct)

lemma set_del: "valid q \<Longrightarrow> p \<in> set (elems q) \<Longrightarrow> set (elems (del p q)) = set (elems q) - {p}"
  by (simp add: elems_del elems_distinct)

lemma length_del: "valid q \<Longrightarrow> p \<in> set (elems q) \<Longrightarrow> length (elems (del p q)) + 1 = length (elems q)"
  using length_pos_if_in_set[of p "elems q"] by (simp add: elems_del length_remove1)

lemma move_last:
  assumes "valid q" "p \<in> set (elems q)" "linkable p"
  shows "valid (add_last p (del p q))" and "elems (add_last p (del p q)) = remove1 p (elems q) @ [p]"
  using assms by (simp_all add: del_valid add_last_valid not_in_del elems_add_last elems_del elems_distinct)

lemma length_move_last:
  assumes "valid q" "p \<in> set (elems q)" "linkable p"
  shows "length (elems (add_last p (del p q))) = length (elems q)"
  using assms length_del[of q p] by (simp add: del_valid not_in_del elems_add_last)

text \<open>A task that is deleted and added again is where a new task would be.\<close>

lemma add_del_add:
  assumes "valid q" "p \<notin> set (elems q)" "linkable p"
  shows "elems (add_last p (del p (add_last p q))) = elems q @ [p]"
  using assms move_last(2)[of "add_last p q" p]
  by (simp add: add_last_valid elems_add_last remove1_append)

end

definition list_laws :: "'q kernel \<Rightarrow> bool" where
  "list_laws K \<longleftrightarrow>
     (\<forall>q p. distinct (list_elems K q) \<longrightarrow> p \<notin> set (list_elems K q) \<longrightarrow>
        list_elems K (list_add_tail K p q) = list_elems K q @ [p]) \<and>
     (\<forall>q p. distinct (list_elems K q) \<longrightarrow> p \<in> set (list_elems K q) \<longrightarrow>
        list_elems K (list_del K p q) = remove1 p (list_elems K q))"

lemma list_laws_task_list:
  assumes "list_laws K"
  shows "task_list (\<lambda>q. distinct (list_elems K q)) (\<lambda>p. True) (list_elems K) (list_add_tail K) (list_del K)"
  using assms by unfold_locales (auto simp: list_laws_def distinct_remove1)

lemmas runqueue_laws =
  task_list.elems_add_last[OF list_laws_task_list] task_list.elems_del[OF list_laws_task_list]
  task_list.length_del[OF list_laws_task_list] task_list.set_del[OF list_laws_task_list]
  task_list.move_last[OF list_laws_task_list] task_list.length_move_last[OF list_laws_task_list]
  task_list.not_in_del[OF list_laws_task_list]

section \<open>The scheduler's state\<close>

text \<open>
  The globals of \<open>sched.c\<close> with the tasks in memory. \<open>all_tasks\<close> is the order of \<open>for_each_task\<close>,
  \<open>pid_table\<close> what \<open>find_task_by_pid\<close> finds, \<open>ipis\<close> the processors that \<open>smp_send_reschedule\<close> has
  interrupted, \<open>cycles\<close> the next value of \<open>get_cycles\<close>, \<open>user_processes\<close> the process counts of the users.
\<close>

record 'q sched =
  tasks :: "ptr \<Rightarrow> task"
  runqueue :: 'q
  nr_running :: int
  cpu_curr :: "nat \<Rightarrow> ptr"
  last_schedule :: "nat \<Rightarrow> int"
  init_tasks :: "nat \<Rightarrow> ptr"
  all_tasks :: "ptr list"
  pid_table :: "int \<Rightarrow> ptr option"
  jiffies :: u32
  cycles :: int
  mm_count :: "ptr \<Rightarrow> int"
  user_processes :: "ptr \<Rightarrow> int"
  ipis :: "nat list"
  context_swtch :: int

definition upd_task :: "ptr \<Rightarrow> (task \<Rightarrow> task) \<Rightarrow> 'q sched \<Rightarrow> 'q sched" where
  "upd_task p f s = s\<lparr>tasks := (tasks s)(p := f (tasks s p))\<rparr>"

lemma tasks_upd_task [simp]: "tasks (upd_task p f s) = (tasks s)(p := f (tasks s p))"
  by (simp add: upd_task_def)

lemma upd_task_frame [simp]:
  "runqueue (upd_task p f s) = runqueue s" "nr_running (upd_task p f s) = nr_running s"
  "cpu_curr (upd_task p f s) = cpu_curr s" "last_schedule (upd_task p f s) = last_schedule s"
  "init_tasks (upd_task p f s) = init_tasks s" "all_tasks (upd_task p f s) = all_tasks s"
  "pid_table (upd_task p f s) = pid_table s" "jiffies (upd_task p f s) = jiffies s"
  "cycles (upd_task p f s) = cycles s" "mm_count (upd_task p f s) = mm_count s"
  "user_processes (upd_task p f s) = user_processes s" "ipis (upd_task p f s) = ipis s"
  "context_swtch (upd_task p f s) = context_swtch s"
  by (simp_all add: upd_task_def)

definition idle_task :: "'q kernel \<Rightarrow> 'q sched \<Rightarrow> nat \<Rightarrow> ptr" where
  "idle_task K s cpu = (if CONFIG_SMP K then init_tasks s (cpu_number_map K cpu) else init_task K)"

definition cpu_bit :: "nat \<Rightarrow> u32" where
  "cpu_bit cpu = push_bit cpu 1"

definition can_schedule :: "'q kernel \<Rightarrow> task \<Rightarrow> nat \<Rightarrow> bool" where
  "can_schedule K t cpu \<longleftrightarrow>
     \<not> CONFIG_SMP K \<or> t_cpus_runnable t AND t_cpus_allowed t AND cpu_bit cpu \<noteq> 0"

definition task_has_cpu :: "task \<Rightarrow> bool" where
  "task_has_cpu t \<longleftrightarrow> t_cpus_runnable t \<noteq> NOT 0"

definition task_set_cpu :: "ptr \<Rightarrow> nat \<Rightarrow> 'q sched \<Rightarrow> 'q sched" where
  "task_set_cpu p cpu = upd_task p (\<lambda>t. t\<lparr>t_processor := cpu, t_cpus_runnable := cpu_bit cpu\<rparr>)"

definition task_release_cpu :: "ptr \<Rightarrow> 'q sched \<Rightarrow> 'q sched" where
  "task_release_cpu p = upd_task p (\<lambda>t. t\<lparr>t_cpus_runnable := NOT 0\<rparr>)"

section \<open>Goodness\<close>

text \<open>\<open>x >> n\<close> of an \<open>int\<close> rounds down, and \<open>x << n\<close> multiplies.\<close>

definition TICK_SCALE :: "'q kernel \<Rightarrow> int \<Rightarrow> int" where
  "TICK_SCALE K x =
     (if HZ K < 200 then x div 4 else if HZ K < 400 then x div 2 else if HZ K < 800 then x
      else if HZ K < 1600 then x * 2 else x * 4)"

definition NICE_TO_TICKS :: "'q kernel \<Rightarrow> int \<Rightarrow> int" where
  "NICE_TO_TICKS K n = TICK_SCALE K (20 - n) + 1"

definition goodness :: "'q kernel \<Rightarrow> task \<Rightarrow> nat \<Rightarrow> ptr \<Rightarrow> int" where
  "goodness K t this_cpu this_mm =
     (if t_policy t AND SCHED_YIELD \<noteq> 0 then - 1
      else if t_policy t = SCHED_OTHER then
        (if t_counter t = 0 then 0
         else to_int32 (t_counter t
           + (if CONFIG_SMP K \<and> t_processor t = this_cpu then PROC_CHANGE_PENALTY K else 0)
           + (if t_mm t = this_mm \<or> t_mm t = 0 then 1 else 0) + (20 - t_nice t)))
      else to_int32 (1000 + t_rt_priority t))"

definition preemption_goodness :: "'q kernel \<Rightarrow> task \<Rightarrow> task \<Rightarrow> nat \<Rightarrow> int" where
  "preemption_goodness K prev p cpu =
     to_int32 (goodness K p cpu (t_active_mm prev) - goodness K prev cpu (t_active_mm prev))"

section \<open>The run queue\<close>

definition add_to_runqueue :: "'q kernel \<Rightarrow> ptr \<Rightarrow> 'q sched \<Rightarrow> 'q sched" where
  "add_to_runqueue K p s =
     (upd_task p (\<lambda>t. t\<lparr>t_on_list := True\<rparr>) s)
       \<lparr>runqueue := list_add_tail K p (runqueue s), nr_running := nr_running s + 1\<rparr>"

definition move_last_runqueue :: "'q kernel \<Rightarrow> ptr \<Rightarrow> 'q sched \<Rightarrow> 'q sched" where
  "move_last_runqueue K p s =
     (upd_task p (\<lambda>t. t\<lparr>t_on_list := True\<rparr>) s)
       \<lparr>runqueue := list_add_tail K p (list_del K p (runqueue s))\<rparr>"

definition del_from_runqueue :: "'q kernel \<Rightarrow> ptr \<Rightarrow> 'q sched \<Rightarrow> 'q sched" where
  "del_from_runqueue K p s =
     (upd_task p (\<lambda>t. t\<lparr>t_sleep_time := jiffies s, t_on_list := False\<rparr>) s)
       \<lparr>nr_running := nr_running s - 1, runqueue := list_del K p (runqueue s)\<rparr>"

definition task_on_runqueue :: "'q sched \<Rightarrow> ptr \<Rightarrow> bool" where
  "task_on_runqueue s p \<longleftrightarrow> t_on_list (tasks s p)"

section \<open>A small machine\<close>

text \<open>
  Two processors with the idle tasks 1 and 2; a task 3 of user 100 runs on processor 0, a task 4 of
  the same user waits in the run queue. Lists are kept as HOL lists.
\<close>

definition small_kernel :: "bool \<Rightarrow> ptr list kernel" where
  "small_kernel smp =
     \<lparr>CONFIG_SMP = smp, HZ = 100, PROC_CHANGE_PENALTY = 15, smp_num_cpus = 2,
      cpu_logical_map = (\<lambda>c. c), cpu_number_map = (\<lambda>c. c), smp_num_siblings = 1,
      cpu_sibling_map = (\<lambda>c. c), cpu_online_map = 3, cap_raised = (\<lambda>c n. c AND push_bit n 1 \<noteq> 0),
      CAP_SYS_NICE = 23, init_task = 1, list_add_tail = (\<lambda>p q. q @ [p]), list_del = remove1,
      list_elems = (\<lambda>q. q)\<rparr>"

definition plain_task :: task where
  "plain_task =
     \<lparr>t_state = 0, t_flags = 0, t_sigpending = False, t_need_resched = 0, t_counter = 0, t_nice = 0,
      t_policy = 0, t_mm = 50, t_active_mm = 50, t_processor = 0, t_cpus_runnable = NOT 0,
      t_cpus_allowed = NOT 0, t_on_list = False, t_sleep_time = 0, t_rt_priority = 0, t_uid = 100,
      t_euid = 100, t_cap_effective = 0, t_user = 60, t_share = 1\<rparr>"

definition small_tasks :: "ptr \<Rightarrow> task" where
  "small_tasks =
     (\<lambda>p. plain_task)
       (1 := plain_task\<lparr>t_mm := 0, t_active_mm := 0, t_on_list := True\<rparr>,
        2 := plain_task\<lparr>t_mm := 0, t_active_mm := 51, t_processor := 1, t_cpus_runnable := 2\<rparr>,
        3 := plain_task\<lparr>t_cpus_runnable := 1, t_on_list := True\<rparr>,
        4 := plain_task\<lparr>t_nice := 10, t_on_list := True\<rparr>)"

definition small_state :: "ptr list sched" where
  "small_state =
     \<lparr>tasks = small_tasks, runqueue = [3, 4], nr_running = 2, cpu_curr = (\<lambda>c. if c = 0 then 3 else 2),
      last_schedule = (\<lambda>c. 0), init_tasks = (\<lambda>c. c + 1), all_tasks = [2, 3, 4],
      pid_table = (\<lambda>i. if i = 30 then Some 3 else if i = 40 then Some 4 else None), jiffies = 0,
      cycles = 0, mm_count = (\<lambda>m. 1), user_processes = (\<lambda>u. 2), ipis = [], context_swtch = 0\<rparr>"

lemma small_kernel_laws: "list_laws (small_kernel smp)"
  by (simp add: list_laws_def small_kernel_def)

lemmas small_defs = small_kernel_def small_state_def small_tasks_def plain_task_def

end
