(* ===== verification/SchedWake.thy ===== *)
theory SchedWake
  imports SchedTask
begin

text \<open>
  Waking a task (\<open>sched.c\<close>): \<open>reschedule_idle\<close> chooses a processor that should run it,
  \<open>try_to_wake_up\<close> puts it on the run queue and \<open>__wake_up_common\<close> wakes the waiters of a queue.
  \<open>me\<close> is the processor the code runs on; every operation holds \<open>runqueue_lock\<close> and is one step.
\<close>

section \<open>Choosing a processor\<close>

text \<open>\<open>(cycles_t) -1\<close>, with 64 bits.\<close>

definition NO_CYCLES :: int where
  "NO_CYCLES = 18446744073709551615"

text \<open>The IPI that makes a processor look at \<open>need_resched\<close>.\<close>

definition smp_send_reschedule :: "nat \<Rightarrow> 'q sched \<Rightarrow> 'q sched" where
  "smp_send_reschedule cpu s = s\<lparr>ipis := ipis s @ [cpu]\<rparr>"

text \<open>The label \<open>send_now_idle\<close>.\<close>

definition send_now_idle :: "nat \<Rightarrow> nat \<Rightarrow> ptr \<Rightarrow> 'q sched \<Rightarrow> 'q sched" where
  "send_now_idle this_cpu best_cpu tsk s =
     (let need_resched = t_need_resched (tasks s tsk);
          s' = upd_task tsk (\<lambda>t. t\<lparr>t_need_resched := 1\<rparr>) s
      in if best_cpu \<noteq> this_cpu \<and> need_resched = 0 then smp_send_reschedule best_cpu s' else s')"

text \<open>
  The loop over the processors, with \<open>oldest_idle\<close>, \<open>max_prio\<close> and \<open>target_tsk\<close>. It breaks off when
  two siblings of one package are idle.
\<close>

fun scan_cpus ::
  "'q kernel \<Rightarrow> 'q sched \<Rightarrow> task \<Rightarrow> nat list \<Rightarrow> int \<times> int \<times> ptr option \<Rightarrow> int \<times> int \<times> ptr option" where
  "scan_cpus K s p [] best = best"
| "scan_cpus K s p (cpu # cpus) (oldest_idle, max_prio, target) =
     (if \<not> can_schedule K p cpu then scan_cpus K s p cpus (oldest_idle, max_prio, target)
      else let tsk = cpu_curr s cpu in
        if tsk = idle_task K s cpu then
          (if smp_num_siblings K = 2 \<and>
              cpu_curr s (cpu_sibling_map K cpu) = idle_task K s (cpu_sibling_map K cpu)
           then (last_schedule s cpu, max_prio, Some tsk)
           else if last_schedule s cpu < oldest_idle
           then scan_cpus K s p cpus (last_schedule s cpu, max_prio, Some tsk)
           else scan_cpus K s p cpus (oldest_idle, max_prio, target))
        else if oldest_idle = NO_CYCLES then
          (let prio = preemption_goodness K (tasks s tsk) p cpu in
           if prio > max_prio then scan_cpus K s p cpus (oldest_idle, prio, Some tsk)
           else scan_cpus K s p cpus (oldest_idle, max_prio, target))
        else scan_cpus K s p cpus (oldest_idle, max_prio, target))"

definition logical_cpus :: "'q kernel \<Rightarrow> nat list" where
  "logical_cpus K = map (cpu_logical_map K) [0..<smp_num_cpus K]"

definition reschedule_idle_smp :: "'q kernel \<Rightarrow> nat \<Rightarrow> ptr \<Rightarrow> 'q sched \<Rightarrow> 'q sched" where
  "reschedule_idle_smp K this_cpu p s =
     (let best_cpu = t_processor (tasks s p) in
      if can_schedule K (tasks s p) best_cpu \<and> cpu_curr s best_cpu = idle_task K s best_cpu
      then send_now_idle this_cpu best_cpu (idle_task K s best_cpu) s
      else case scan_cpus K s (tasks s p) (logical_cpus K) (NO_CYCLES, 0, None) of
          (oldest_idle, max_prio, None) \<Rightarrow> s
        | (oldest_idle, max_prio, Some tsk) \<Rightarrow>
            (if oldest_idle \<noteq> NO_CYCLES then send_now_idle this_cpu (t_processor (tasks s tsk)) tsk s
             else let s' = upd_task tsk (\<lambda>t. t\<lparr>t_need_resched := 1\<rparr>) s in
               if t_processor (tasks s tsk) \<noteq> this_cpu
               then smp_send_reschedule (t_processor (tasks s tsk)) s' else s'))"

definition reschedule_idle_up :: "'q kernel \<Rightarrow> nat \<Rightarrow> ptr \<Rightarrow> 'q sched \<Rightarrow> 'q sched" where
  "reschedule_idle_up K this_cpu p s =
     (let tsk = cpu_curr s this_cpu in
      if preemption_goodness K (tasks s tsk) (tasks s p) this_cpu > 0
      then upd_task tsk (\<lambda>t. t\<lparr>t_need_resched := 1\<rparr>) s else s)"

definition reschedule_idle :: "'q kernel \<Rightarrow> nat \<Rightarrow> ptr \<Rightarrow> 'q sched \<Rightarrow> 'q sched" where
  "reschedule_idle K this_cpu p s =
     (if CONFIG_SMP K then reschedule_idle_smp K this_cpu p s else reschedule_idle_up K this_cpu p s)"

section \<open>Waking one task\<close>

definition try_to_wake_up :: "'q kernel \<Rightarrow> nat \<Rightarrow> ptr \<Rightarrow> bool \<Rightarrow> 'q sched \<Rightarrow> bool \<times> 'q sched" where
  "try_to_wake_up K this_cpu p synchronous s =
     (let s = upd_task p (\<lambda>t. t\<lparr>t_state := TASK_RUNNING\<rparr>) s in
      if task_on_runqueue s p then (False, s)
      else let s = add_to_runqueue K p s in
        (True, if \<not> synchronous \<or> t_cpus_allowed (tasks s p) AND cpu_bit this_cpu = 0
               then reschedule_idle K this_cpu p s else s))"

definition wake_up_process :: "'q kernel \<Rightarrow> nat \<Rightarrow> ptr \<Rightarrow> 'q sched \<Rightarrow> bool \<times> 'q sched" where
  "wake_up_process K this_cpu p = try_to_wake_up K this_cpu p False"

section \<open>Waking the waiters of a queue\<close>

text \<open>An entry of a wait queue: the task and the flag \<open>WQ_FLAG_EXCLUSIVE\<close>, in the order of the list.\<close>

fun wake_up_entries ::
  "'q kernel \<Rightarrow> nat \<Rightarrow> u32 \<Rightarrow> bool \<Rightarrow> (ptr \<times> bool) list \<Rightarrow> int \<Rightarrow> 'q sched \<Rightarrow> 'q sched" where
  "wake_up_entries K this_cpu mode sync [] nr_exclusive s = s"
| "wake_up_entries K this_cpu mode sync ((p, exclusive) # entries) nr_exclusive s =
     (if t_state (tasks s p) AND mode \<noteq> 0 then
        (case try_to_wake_up K this_cpu p sync s of (success, s') \<Rightarrow>
           if success \<and> exclusive then
             (let nr = to_int32 (nr_exclusive - 1) in
              if nr = 0 then s' else wake_up_entries K this_cpu mode sync entries nr s')
           else wake_up_entries K this_cpu mode sync entries nr_exclusive s')
      else wake_up_entries K this_cpu mode sync entries nr_exclusive s)"

definition wake_up_common ::
  "'q kernel \<Rightarrow> nat \<Rightarrow> (ptr \<times> bool) list \<Rightarrow> u32 \<Rightarrow> int \<Rightarrow> bool \<Rightarrow> 'q sched \<Rightarrow> 'q sched" where
  "wake_up_common K this_cpu q mode nr_exclusive sync s =
     wake_up_entries K this_cpu mode sync q nr_exclusive s"

text \<open>\<open>__wake_up\<close> and \<open>__wake_up_sync\<close>; the queue is \<open>None\<close> for a null pointer.\<close>

definition wake_up ::
  "'q kernel \<Rightarrow> nat \<Rightarrow> (ptr \<times> bool) list option \<Rightarrow> u32 \<Rightarrow> int \<Rightarrow> 'q sched \<Rightarrow> 'q sched" where
  "wake_up K this_cpu q mode nr s =
     (case q of None \<Rightarrow> s | Some es \<Rightarrow> wake_up_common K this_cpu es mode nr False s)"

definition wake_up_sync ::
  "'q kernel \<Rightarrow> nat \<Rightarrow> (ptr \<times> bool) list option \<Rightarrow> u32 \<Rightarrow> int \<Rightarrow> 'q sched \<Rightarrow> 'q sched" where
  "wake_up_sync K this_cpu q mode nr s =
     (case q of None \<Rightarrow> s | Some es \<Rightarrow> wake_up_common K this_cpu es mode nr True s)"

section \<open>What a wake-up leaves alone\<close>

text \<open>
  \<open>reschedule_idle\<close> only sets \<open>need_resched\<close> of a task that is running, and sends interrupts.
\<close>

definition only_resched :: "'q sched \<Rightarrow> 'q sched \<Rightarrow> bool" where
  "only_resched s s' \<longleftrightarrow>
     (\<exists>f i. s' = s\<lparr>tasks := (\<lambda>p. tasks s p\<lparr>t_need_resched := f p\<rparr>), ipis := i\<rparr>)"

lemma task_need_resched_id [simp]: "t\<lparr>t_need_resched := t_need_resched t\<rparr> = t"
  by simp

lemma only_resched_refl [simp]: "only_resched s s"
  unfolding only_resched_def
  by (rule exI[of _ "\<lambda>p. t_need_resched (tasks s p)"], rule exI[of _ "ipis s"]) simp

lemma only_resched_need [simp]:
  "only_resched s (upd_task p (\<lambda>t. t\<lparr>t_need_resched := v\<rparr>) s)"
  unfolding only_resched_def
  by (rule exI[of _ "\<lambda>q. if q = p then v else t_need_resched (tasks s q)"], rule exI[of _ "ipis s"])
    (auto simp: upd_task_def fun_eq_iff)

lemma only_resched_ipi [simp]: "only_resched s s' \<Longrightarrow> only_resched s (smp_send_reschedule c s')"
proof -
  assume "only_resched s s'"
  then obtain f i where "s' = s\<lparr>tasks := (\<lambda>p. tasks s p\<lparr>t_need_resched := f p\<rparr>), ipis := i\<rparr>"
    unfolding only_resched_def by blast
  then have "smp_send_reschedule c s' =
      s\<lparr>tasks := (\<lambda>p. tasks s p\<lparr>t_need_resched := f p\<rparr>), ipis := i @ [c]\<rparr>"
    by (simp add: smp_send_reschedule_def)
  then show ?thesis unfolding only_resched_def by blast
qed

lemma only_resched_idle: "only_resched s (reschedule_idle K this_cpu p s)"
  by (auto simp: reschedule_idle_def reschedule_idle_smp_def reschedule_idle_up_def send_now_idle_def
      Let_def split: prod.splits option.splits)

end
