(* ===== verification/SchedCore.thy ===== *)
theory SchedCore
  imports SchedWake
begin

text \<open>
  \<open>schedule()\<close> (\<open>sched.c\<close>): putting the previous task to sleep, choosing the next one, refilling the
  counters, switching the address space and the tail that releases the previous task.
\<close>

section \<open>The parts of \<open>schedule\<close>\<close>

datatype panic = Bug | Divide_error

text \<open>\<open>signal_pending\<close> and the switch on the state of the previous task.\<close>

definition schedule_sleep :: "'q kernel \<Rightarrow> ptr \<Rightarrow> 'q sched \<Rightarrow> 'q sched" where
  "schedule_sleep K prev s =
     (if t_state (tasks s prev) = TASK_INTERRUPTIBLE \<and> t_sigpending (tasks s prev)
      then upd_task prev (\<lambda>t. t\<lparr>t_state := TASK_RUNNING\<rparr>) s
      else if t_state (tasks s prev) = TASK_RUNNING then s
      else del_from_runqueue K prev s)"

text \<open>Up to the label \<open>repeat_schedule\<close>: an exhausted round-robin task goes to the end first.\<close>

definition schedule_start :: "'q kernel \<Rightarrow> ptr \<Rightarrow> 'q sched \<Rightarrow> 'q sched" where
  "schedule_start K prev s =
     (let s = (if t_policy (tasks s prev) = SCHED_RR \<and> t_counter (tasks s prev) = 0
               then move_last_runqueue K prev
                 (upd_task prev (\<lambda>t. t\<lparr>t_counter := NICE_TO_TICKS K (t_nice t)\<rparr>) s)
               else s);
          s = schedule_sleep K prev s
      in upd_task prev (\<lambda>t. t\<lparr>t_need_resched := 0\<rparr>) s)"

fun select_task ::
  "'q kernel \<Rightarrow> (ptr \<Rightarrow> task) \<Rightarrow> nat \<Rightarrow> ptr \<Rightarrow> ptr list \<Rightarrow> int \<times> ptr \<Rightarrow> int \<times> ptr" where
  "select_task K ts this_cpu mm [] best = best"
| "select_task K ts this_cpu mm (p # ps) (c, nxt) =
     (if can_schedule K (ts p) this_cpu then
        (let weight = goodness K (ts p) this_cpu mm in
         if weight > c then select_task K ts this_cpu mm ps (weight, p)
         else select_task K ts this_cpu mm ps (c, nxt))
      else select_task K ts this_cpu mm ps (c, nxt))"

text \<open>The refill of all counters; \<open>counter >> 1\<close> rounds down.\<close>

definition recalculate :: "'q kernel \<Rightarrow> 'q sched \<Rightarrow> 'q sched" where
  "recalculate K s =
     fold (\<lambda>p. upd_task p (\<lambda>t. t\<lparr>t_counter := to_int32 (t_counter t div 2 + NICE_TO_TICKS K (t_nice t))\<rparr>))
       (all_tasks s) s"

text \<open>The loop from \<open>repeat_schedule\<close> on, with the refill as a parameter.\<close>

partial_function (option) repeat_schedule ::
  "'q kernel \<Rightarrow> ('q sched \<Rightarrow> panic + 'q sched) \<Rightarrow> nat \<Rightarrow> ptr \<Rightarrow> 'q sched \<Rightarrow> (panic + ptr \<times> 'q sched) option" where
  "repeat_schedule K refill this_cpu mm s =
     (let (c, nxt) = select_task K (tasks s) this_cpu mm (list_elems K (runqueue s)) (- 1000, idle_task K s this_cpu)
      in if c = 0 then
           (case refill s of Inl e \<Rightarrow> Some (Inl e) | Inr s' \<Rightarrow> repeat_schedule K refill this_cpu mm s')
         else Some (Inr (nxt, s)))"

text \<open>
  The switch of the address space; \<open>mmdrop\<close> counts a reference down (at 0 \<open>__mmdrop\<close> frees the
  tables, which nothing here reads).
\<close>

definition switch_address_space :: "ptr \<Rightarrow> ptr \<Rightarrow> 'q sched \<Rightarrow> panic + 'q sched" where
  "switch_address_space prev nxt s =
     (let mm = t_mm (tasks s nxt);
          oldmm = t_active_mm (tasks s prev);
          borrow = (\<lambda>s. (upd_task nxt (\<lambda>t. t\<lparr>t_active_mm := oldmm\<rparr>) s)
                       \<lparr>mm_count := (mm_count s)(oldmm := mm_count s oldmm + 1)\<rparr>);
          drop = (\<lambda>s. if t_mm (tasks s prev) = 0
                      then (upd_task prev (\<lambda>t. t\<lparr>t_active_mm := 0\<rparr>) s)
                             \<lparr>mm_count := (mm_count s)(oldmm := mm_count s oldmm - 1)\<rparr>
                      else s)
      in if mm = 0
         then (if t_active_mm (tasks s nxt) \<noteq> 0 then Inl Bug else Inr (drop (borrow s)))
         else (if t_active_mm (tasks s nxt) \<noteq> mm then Inl Bug else Inr (drop s)))"

text \<open>From the decision to the switch: the same task again, or a context switch.\<close>

definition schedule_switch :: "'q kernel \<Rightarrow> nat \<Rightarrow> ptr \<Rightarrow> ptr \<Rightarrow> 'q sched \<Rightarrow> panic + 'q sched" where
  "schedule_switch K this_cpu prev nxt s =
     (let s = task_set_cpu nxt this_cpu (s\<lparr>cpu_curr := (cpu_curr s)(this_cpu := nxt)\<rparr>) in
      if prev = nxt then Inr (upd_task prev (\<lambda>t. t\<lparr>t_policy := t_policy t AND NOT SCHED_YIELD\<rparr>) s)
      else switch_address_space prev nxt
        (s\<lparr>last_schedule := (if CONFIG_SMP K then (last_schedule s)(this_cpu := cycles s) else last_schedule s),
           context_swtch := context_swtch s + 1\<rparr>))"

text \<open>One pass of \<open>schedule\<close> up to \<open>switch_to\<close>, for the task \<open>prev\<close> that calls it.\<close>

definition schedule_pass ::
  "'q kernel \<Rightarrow> ('q sched \<Rightarrow> panic + 'q sched) \<Rightarrow> bool \<Rightarrow> ptr \<Rightarrow> 'q sched \<Rightarrow> (panic + ptr \<times> 'q sched) option" where
  "schedule_pass K refill in_interrupt prev s =
     (let this_cpu = t_processor (tasks s prev) in
      if in_interrupt then Some (Inl Bug)
      else case repeat_schedule K refill this_cpu (t_active_mm (tasks s prev)) (schedule_start K prev s) of
          None \<Rightarrow> None
        | Some (Inl e) \<Rightarrow> Some (Inl e)
        | Some (Inr (nxt, s')) \<Rightarrow>
            (case schedule_switch K this_cpu prev nxt s' of
               Inl e \<Rightarrow> Some (Inl e) | Inr s'' \<Rightarrow> Some (Inr (nxt, s''))))"

text \<open>\<open>__schedule_tail\<close>: the previous task may be chosen again by any processor from now on.\<close>

definition schedule_tail :: "'q kernel \<Rightarrow> nat \<Rightarrow> ptr \<Rightarrow> 'q sched \<Rightarrow> 'q sched" where
  "schedule_tail K this_cpu prev s =
     (let policy = t_policy (tasks s prev);
          s = upd_task prev (\<lambda>t. t\<lparr>t_policy := policy AND NOT SCHED_YIELD\<rparr>) s
      in if \<not> CONFIG_SMP K then s
         else let s = task_release_cpu prev s in
           if t_state (tasks s prev) = TASK_RUNNING
              \<and> \<not> (prev = idle_task K s this_cpu \<or> policy AND SCHED_YIELD \<noteq> 0)
              \<and> \<not> task_has_cpu (tasks s prev)
           then reschedule_idle K this_cpu prev s else s)"

text \<open>
  The whole function on one processor. It returns in the task that runs then, which is not in
  general the one that called it; \<open>need_resched\<close> of that task makes it start over.
\<close>

partial_function (option) schedule_loop ::
  "'q kernel \<Rightarrow> ('q sched \<Rightarrow> panic + 'q sched) \<Rightarrow> bool \<Rightarrow> ptr \<Rightarrow> 'q sched \<Rightarrow> (panic + ptr \<times> 'q sched) option" where
  "schedule_loop K refill in_interrupt prev s =
     (case schedule_pass K refill in_interrupt prev s of
        None \<Rightarrow> None
      | Some (Inl e) \<Rightarrow> Some (Inl e)
      | Some (Inr (nxt, s')) \<Rightarrow>
          (let s'' = (if prev = nxt then s' else schedule_tail K (t_processor (tasks s prev)) prev s')
           in if t_need_resched (tasks s'' nxt) \<noteq> 0 then schedule_loop K refill in_interrupt nxt s''
              else Some (Inr (nxt, s''))))"

definition schedule ::
  "'q kernel \<Rightarrow> bool \<Rightarrow> ptr \<Rightarrow> 'q sched \<Rightarrow> (panic + ptr \<times> 'q sched) option" where
  "schedule K in_interrupt current s =
     (if t_active_mm (tasks s current) = 0 then Some (Inl Bug)
      else schedule_loop K (\<lambda>s. Inr (recalculate K s)) in_interrupt current s)"

declare repeat_schedule.simps [code] schedule_loop.simps [code]

end
