(* ===== verification/SchedSelect.thy ===== *)
theory SchedSelect
  imports SchedCore
begin

text \<open>
  Which task \<open>schedule()\<close> chooses: the first of the runnable tasks with the greatest goodness. The
  refill of the counters happens at most once, because it makes every counter positive.
\<close>

section \<open>Updating every task of a list\<close>

lemma fold_upd_task:
  assumes "distinct ps"
  shows "tasks (fold (\<lambda>p. upd_task p f) ps s) q = (if q \<in> set ps then f (tasks s q) else tasks s q)"
  using assms by (induction ps arbitrary: s) auto

lemma fold_upd_task_frame:
  "runqueue (fold (\<lambda>p. upd_task p f) ps s) = runqueue s"
  "nr_running (fold (\<lambda>p. upd_task p f) ps s) = nr_running s"
  "cpu_curr (fold (\<lambda>p. upd_task p f) ps s) = cpu_curr s"
  "init_tasks (fold (\<lambda>p. upd_task p f) ps s) = init_tasks s"
  "all_tasks (fold (\<lambda>p. upd_task p f) ps s) = all_tasks s"
  "mm_count (fold (\<lambda>p. upd_task p f) ps s) = mm_count s"
  "user_processes (fold (\<lambda>p. upd_task p f) ps s) = user_processes s"
  by (induction ps arbitrary: s) simp_all

lemma recalculate_frame [simp]:
  "runqueue (recalculate K s) = runqueue s" "nr_running (recalculate K s) = nr_running s"
  "cpu_curr (recalculate K s) = cpu_curr s" "init_tasks (recalculate K s) = init_tasks s"
  "all_tasks (recalculate K s) = all_tasks s" "mm_count (recalculate K s) = mm_count s"
  by (simp_all add: recalculate_def fold_upd_task_frame)

lemma tasks_recalculate:
  assumes "distinct (all_tasks s)"
  shows "tasks (recalculate K s) p =
    (if p \<in> set (all_tasks s)
     then tasks s p\<lparr>t_counter := to_int32 (t_counter (tasks s p) div 2 + NICE_TO_TICKS K (t_nice (tasks s p)))\<rparr>
     else tasks s p)"
  using assms by (simp add: recalculate_def fold_upd_task)

lemma idle_task_recalculate [simp]: "idle_task K (recalculate K' s) = idle_task K s"
  by (simp add: idle_task_def fun_eq_iff)

section \<open>Bounds\<close>

definition nice_ok :: "int \<Rightarrow> bool" where
  "nice_ok n \<longleftrightarrow> - 20 \<le> n \<and> n \<le> 19"

text \<open>The greatest quantum is 161 ticks (\<open>HZ\<close> at least 1600), and a sleeper saves up one more.\<close>

definition task_ok :: "task \<Rightarrow> bool" where
  "task_ok t \<longleftrightarrow> 0 \<le> t_counter t \<and> t_counter t \<le> 322 \<and> nice_ok (t_nice t)
     \<and> 0 \<le> t_rt_priority t \<and> t_rt_priority t \<le> 99"

text \<open>Within these bounds no sum of \<open>goodness\<close> leaves the range of an \<open>int\<close>.\<close>

definition task_fits :: "task \<Rightarrow> bool" where
  "task_fits t \<longleftrightarrow> 0 \<le> t_counter t \<and> t_counter t \<le> 2 ^ 30 \<and> nice_ok (t_nice t)
     \<and> 0 \<le> t_rt_priority t \<and> t_rt_priority t \<le> 99"

lemma task_ok_fits: "task_ok t \<Longrightarrow> task_fits t"
  by (simp add: task_ok_def task_fits_def)

definition penalty_ok :: "'q kernel \<Rightarrow> bool" where
  "penalty_ok K \<longleftrightarrow> 0 < PROC_CHANGE_PENALTY K \<and> PROC_CHANGE_PENALTY K \<le> 600"

lemma NICE_TO_TICKS_bounds:
  assumes "nice_ok n"
  shows "1 \<le> NICE_TO_TICKS K n" "NICE_TO_TICKS K n \<le> 161"
  using assms by (auto simp: nice_ok_def NICE_TO_TICKS_def TICK_SCALE_def pos_imp_zdiv_nonneg_iff)

lemma refilled_bounds:
  fixes K :: "'q kernel"
  assumes "task_ok t"
  defines "c \<equiv> to_int32 (t_counter t div 2 + NICE_TO_TICKS K (t_nice t))"
  shows "c = t_counter t div 2 + NICE_TO_TICKS K (t_nice t)" and "1 \<le> c" and "c \<le> 322"
proof -
  have n: "nice_ok (t_nice t)" and d: "0 \<le> t_counter t div 2" "t_counter t div 2 \<le> 161"
    using assms(1) by (auto simp: task_ok_def)
  note b = NICE_TO_TICKS_bounds[OF n, of K]
  show "c = t_counter t div 2 + NICE_TO_TICKS K (t_nice t)"
    unfolding c_def by (rule to_int32_id) (use b d in simp_all)
  then show "1 \<le> c" "c \<le> 322" using b d by simp_all
qed

lemma task_ok_refilled:
  "task_ok t \<Longrightarrow> task_ok (t\<lparr>t_counter := to_int32 (t_counter t div 2 + NICE_TO_TICKS K (t_nice t))\<rparr>)"
  using refilled_bounds[of t K] by (simp add: task_ok_def)

text \<open>The goodness of a task within the bounds, without wrap-around.\<close>

lemma goodness_exact:
  assumes "task_fits t" "penalty_ok K"
  shows "goodness K t cpu mm =
     (if t_policy t AND SCHED_YIELD \<noteq> 0 then - 1
      else if t_policy t = SCHED_OTHER then
        (if t_counter t = 0 then 0
         else t_counter t
           + (if CONFIG_SMP K \<and> t_processor t = cpu then PROC_CHANGE_PENALTY K else 0)
           + (if t_mm t = mm \<or> t_mm t = 0 then 1 else 0) + (20 - t_nice t))
      else 1000 + t_rt_priority t)"
  using assms unfolding goodness_def task_fits_def penalty_ok_def nice_ok_def
  by (auto intro!: to_int32_id)

lemma goodness_cases:
  assumes "task_fits t" "penalty_ok K"
  obtains (yield) "t_policy t AND SCHED_YIELD \<noteq> 0" "goodness K t cpu mm = - 1"
  | (over) "t_policy t AND SCHED_YIELD = 0" "t_policy t = SCHED_OTHER" "t_counter t = 0" "goodness K t cpu mm = 0"
  | (normal) "t_policy t AND SCHED_YIELD = 0" "t_policy t = SCHED_OTHER" "t_counter t \<noteq> 0"
      "0 < goodness K t cpu mm"
  | (realtime) "t_policy t AND SCHED_YIELD = 0" "t_policy t \<noteq> SCHED_OTHER"
      "goodness K t cpu mm = 1000 + t_rt_priority t" "1000 \<le> goodness K t cpu mm"
  using assms(1,2) goodness_exact[OF assms, of cpu mm]
  unfolding task_fits_def penalty_ok_def nice_ok_def
  by (cases "t_policy t AND SCHED_YIELD = 0"; cases "t_policy t = SCHED_OTHER"; cases "t_counter t = 0")
    (auto split: if_splits)

lemma goodness_lower: "task_fits t \<Longrightarrow> penalty_ok K \<Longrightarrow> - 1 \<le> goodness K t cpu mm"
  by (rule goodness_cases[of t K cpu mm]) auto

lemma goodness_zero:
  assumes "task_fits t" "penalty_ok K"
  shows "goodness K t cpu mm = 0 \<longleftrightarrow>
    t_policy t AND SCHED_YIELD = 0 \<and> t_policy t = SCHED_OTHER \<and> t_counter t = 0"
  by (rule goodness_cases[OF assms, of cpu mm]) auto

section \<open>The first task of greatest goodness\<close>

definition first_max :: "(ptr \<Rightarrow> int) \<Rightarrow> ptr list \<Rightarrow> ptr \<Rightarrow> bool" where
  "first_max g ps p \<longleftrightarrow> (\<exists>xs ys. ps = xs @ p # ys \<and> (\<forall>x\<in>set xs. g x < g p) \<and> (\<forall>y\<in>set ys. g y \<le> g p))"

lemma first_max_Cons:
  "first_max g ps p \<Longrightarrow> g q < g p \<Longrightarrow> first_max g (q # ps) p"
  unfolding first_max_def by (metis append_Cons set_ConsD)

lemma first_max_hd: "\<forall>y\<in>set ps. g y \<le> g p \<Longrightarrow> first_max g (p # ps) p"
  unfolding first_max_def by (rule exI[of _ "[]"]) simp

lemma first_max_in: "first_max g ps p \<Longrightarrow> p \<in> set ps"
  by (auto simp: first_max_def)

lemma first_max_greatest: "first_max g ps p \<Longrightarrow> q \<in> set ps \<Longrightarrow> g q \<le> g p"
  by (fastforce simp: first_max_def)

lemma select_task_cases:
  fixes K ts cpu mm
  defines "g \<equiv> \<lambda>p. goodness K (ts p) cpu mm"
  shows "if \<forall>p\<in>set ps. can_schedule K (ts p) cpu \<longrightarrow> g p \<le> c
    then select_task K ts cpu mm ps (c, n) = (c, n)
    else \<exists>p. first_max g (filter (\<lambda>p. can_schedule K (ts p) cpu) ps) p
           \<and> select_task K ts cpu mm ps (c, n) = (g p, p)"
proof (induction ps arbitrary: c n)
  case (Cons q ps)
  show ?case
  proof (cases "can_schedule K (ts q) cpu \<and> g q > c")
    case True
    then have step: "select_task K ts cpu mm (q # ps) (c, n) = select_task K ts cpu mm ps (g q, q)"
      by (simp add: g_def Let_def)
    show ?thesis
    proof (cases "\<forall>p\<in>set ps. can_schedule K (ts p) cpu \<longrightarrow> g p \<le> g q")
      case True
      with \<open>can_schedule K (ts q) cpu \<and> g q > c\<close> Cons[of "g q" q] show ?thesis
        unfolding step by (auto intro!: first_max_hd)
    next
      case False
      with Cons[of "g q" q] obtain p where p: "first_max g (filter (\<lambda>p. can_schedule K (ts p) cpu) ps) p"
        "select_task K ts cpu mm ps (g q, q) = (g p, p)" by auto
      from False obtain r where r: "r \<in> set ps" "can_schedule K (ts r) cpu" "g q < g r" by (auto simp: not_le)
      with first_max_greatest[OF p(1), of r] have "g q < g p" by auto
      with p True r show ?thesis unfolding step by (auto intro!: first_max_Cons)
    qed
  next
    case False
    then have step: "select_task K ts cpu mm (q # ps) (c, n) = select_task K ts cpu mm ps (c, n)"
      by (auto simp: g_def Let_def)
    show ?thesis
    proof (cases "\<forall>p\<in>set ps. can_schedule K (ts p) cpu \<longrightarrow> g p \<le> c")
      case True
      with False Cons[of c n] show ?thesis unfolding step by auto
    next
      case all: False
      with Cons[of c n] obtain p where p: "first_max g (filter (\<lambda>p. can_schedule K (ts p) cpu) ps) p"
        "select_task K ts cpu mm ps (c, n) = (g p, p)" by auto
      from all obtain r where r: "r \<in> set ps" "can_schedule K (ts r) cpu" "c < g r" by (auto simp: not_le)
      with first_max_greatest[OF p(1), of r] have "c < g p" by auto
      with False have "can_schedule K (ts q) cpu \<Longrightarrow> g q < g p" by auto
      with p all show ?thesis unfolding step by (auto intro!: first_max_Cons)
    qed
  qed
qed simp

text \<open>What the loop over the run queue chooses, with the idle task as the default.\<close>

definition chosen :: "'q kernel \<Rightarrow> nat \<Rightarrow> ptr \<Rightarrow> 'q sched \<Rightarrow> ptr \<Rightarrow> bool" where
  "chosen K cpu mm s p \<longleftrightarrow>
     (let ready = filter (\<lambda>p. can_schedule K (tasks s p) cpu) (list_elems K (runqueue s)) in
      if ready = [] then p = idle_task K s cpu
      else first_max (\<lambda>p. goodness K (tasks s p) cpu mm) ready p)"

lemma select_task_chosen:
  assumes "\<And>p. p \<in> set (list_elems K (runqueue s)) \<Longrightarrow> task_fits (tasks s p)" and "penalty_ok K"
    and sel: "select_task K (tasks s) cpu mm (list_elems K (runqueue s)) (- 1000, idle_task K s cpu) = (c, p)"
  shows "chosen K cpu mm s p"
    and "c = 0 \<longleftrightarrow> (\<exists>q\<in>set (list_elems K (runqueue s)). can_schedule K (tasks s q) cpu)
      \<and> goodness K (tasks s p) cpu mm = 0"
proof -
  let ?g = "\<lambda>p. goodness K (tasks s p) cpu mm"
  let ?rq = "list_elems K (runqueue s)"
  have low: "- 1 \<le> ?g q" if "q \<in> set ?rq" for q using that assms(1,2) by (blast intro: goodness_lower)
  note cs = select_task_cases[of ?rq K "tasks s" cpu mm "- 1000" "idle_task K s cpu", unfolded sel]
  have dec: "(\<forall>q\<in>set ?rq. can_schedule K (tasks s q) cpu \<longrightarrow> ?g q \<le> - 1000)
      \<longleftrightarrow> filter (\<lambda>q. can_schedule K (tasks s q) cpu) ?rq = []"
    using low by (auto simp: filter_empty_conv) force
  show "chosen K cpu mm s p"
    using cs unfolding dec chosen_def by (auto simp: Let_def split: if_splits)
  show "c = 0 \<longleftrightarrow> (\<exists>q\<in>set ?rq. can_schedule K (tasks s q) cpu) \<and> ?g p = 0"
    using cs unfolding dec by (auto simp: filter_empty_conv split: if_splits)
qed

section \<open>At most one refill\<close>

definition tasks_ok :: "'q kernel \<Rightarrow> 'q sched \<Rightarrow> bool" where
  "tasks_ok K s \<longleftrightarrow> distinct (all_tasks s)
     \<and> (\<forall>p\<in>set (list_elems K (runqueue s)). p \<in> set (all_tasks s) \<and> task_ok (tasks s p))"

lemma tasks_ok_recalculate: "tasks_ok K s \<Longrightarrow> tasks_ok K (recalculate K s)"
  by (simp add: tasks_ok_def tasks_recalculate task_ok_refilled)

text \<open>When the best task has used up its time, so have all that may run and do not yield.\<close>

definition out_of_time :: "'q kernel \<Rightarrow> nat \<Rightarrow> ptr \<Rightarrow> 'q sched \<Rightarrow> bool" where
  "out_of_time K cpu mm s \<longleftrightarrow>
     (\<exists>p\<in>set (list_elems K (runqueue s)). can_schedule K (tasks s p) cpu \<and> chosen K cpu mm s p
        \<and> goodness K (tasks s p) cpu mm = 0)"

lemma chosen_in_runqueue:
  assumes "chosen K cpu mm s p" "\<exists>q\<in>set (list_elems K (runqueue s)). can_schedule K (tasks s q) cpu"
  shows "p \<in> set (list_elems K (runqueue s))" "can_schedule K (tasks s p) cpu"
proof -
  have "first_max (\<lambda>p. goodness K (tasks s p) cpu mm)
      (filter (\<lambda>p. can_schedule K (tasks s p) cpu) (list_elems K (runqueue s))) p"
    using assms by (auto simp: chosen_def filter_empty_conv Let_def split: if_splits)
  then have "p \<in> set (filter (\<lambda>p. can_schedule K (tasks s p) cpu) (list_elems K (runqueue s)))"
    by (rule first_max_in)
  then show "p \<in> set (list_elems K (runqueue s))" "can_schedule K (tasks s p) cpu" by simp_all
qed

lemma repeat_schedule_run:
  assumes fits: "\<And>p. p \<in> set (list_elems K (runqueue s)) \<Longrightarrow> task_fits (tasks s p)" and pen: "penalty_ok K"
  shows "\<exists>p. repeat_schedule K refill cpu mm s =
      (if out_of_time K cpu mm s
       then (case refill s of Inl e \<Rightarrow> Some (Inl e) | Inr s' \<Rightarrow> repeat_schedule K refill cpu mm s')
       else Some (Inr (p, s))) \<and> chosen K cpu mm s p"
proof -
  obtain c p where sel: "select_task K (tasks s) cpu mm (list_elems K (runqueue s)) (- 1000, idle_task K s cpu) = (c, p)"
    by fastforce
  note ch = select_task_chosen[OF fits pen sel]
  have "c = 0 \<longleftrightarrow> out_of_time K cpu mm s"
  proof
    assume "c = 0"
    with ch(2) chosen_in_runqueue[OF ch(1)] ch(1) show "out_of_time K cpu mm s"
      unfolding out_of_time_def by blast
  next
    assume "out_of_time K cpu mm s"
    then obtain q where q: "q \<in> set (list_elems K (runqueue s))" "can_schedule K (tasks s q) cpu"
      "chosen K cpu mm s q" "goodness K (tasks s q) cpu mm = 0" unfolding out_of_time_def by blast
    have "goodness K (tasks s p) cpu mm = goodness K (tasks s q) cpu mm"
      using ch(1) q(1-3) unfolding chosen_def Let_def
      by (auto simp: filter_empty_conv intro: antisym dest: first_max_greatest first_max_in split: if_splits)
    with ch(2) q show "c = 0" by auto
  qed
  then have "repeat_schedule K refill cpu mm s =
      (if out_of_time K cpu mm s
       then (case refill s of Inl e \<Rightarrow> Some (Inl e) | Inr s' \<Rightarrow> repeat_schedule K refill cpu mm s')
       else Some (Inr (p, s)))"
    by (subst repeat_schedule.simps) (simp add: sel)
  with ch(1) show ?thesis by blast
qed

lemma in_time:
  assumes "\<And>p. p \<in> set (list_elems K (runqueue s)) \<Longrightarrow> task_fits (tasks s p) \<and> t_counter (tasks s p) \<noteq> 0"
    and "penalty_ok K"
  shows "\<not> out_of_time K cpu mm s"
  using assms goodness_zero[OF _ assms(2)] unfolding out_of_time_def by blast

text \<open>A refill that gives every task of the run queue time is needed at most once.\<close>

lemma repeat_schedule_once:
  assumes fits: "\<And>p. p \<in> set (list_elems K (runqueue s)) \<Longrightarrow> task_fits (tasks s p)" and pen: "penalty_ok K"
    and r: "refill s = Inr s'"
    and time: "\<And>p. p \<in> set (list_elems K (runqueue s')) \<Longrightarrow> task_fits (tasks s' p) \<and> t_counter (tasks s' p) \<noteq> 0"
  shows "\<exists>p. repeat_schedule K refill cpu mm s =
      Some (Inr (p, if out_of_time K cpu mm s then s' else s))
    \<and> chosen K cpu mm (if out_of_time K cpu mm s then s' else s) p"
  using repeat_schedule_run[of K s refill cpu mm, OF fits pen]
    repeat_schedule_run[of K s' refill cpu mm, OF _ pen] time in_time[of K s' cpu mm, OF time pen] r
  by (cases "out_of_time K cpu mm s") auto

lemma repeat_schedule_stock:
  assumes ok: "tasks_ok K s" and pen: "penalty_ok K"
  shows "\<exists>p. repeat_schedule K (\<lambda>s. Inr (recalculate K s)) cpu mm s =
      Some (Inr (p, if out_of_time K cpu mm s then recalculate K s else s))
    \<and> chosen K cpu mm (if out_of_time K cpu mm s then recalculate K s else s) p"
proof (rule repeat_schedule_once[OF _ pen])
  show "task_fits (tasks s p)" if "p \<in> set (list_elems K (runqueue s))" for p
    using ok that by (simp add: tasks_ok_def task_ok_fits)
  show "task_fits (tasks (recalculate K s) p) \<and> t_counter (tasks (recalculate K s) p) \<noteq> 0"
    if "p \<in> set (list_elems K (runqueue (recalculate K s)))" for p
  proof -
    have "task_ok (tasks s p)" "p \<in> set (all_tasks s)" "distinct (all_tasks s)"
      using ok that by (auto simp: tasks_ok_def)
    then show ?thesis
      using refilled_bounds(2)[of "tasks s p" K] by (auto simp: tasks_recalculate task_ok_fits task_ok_refilled)
  qed
qed simp

end
