(* ===== verification/SchedCalls.thy ===== *)
theory SchedCalls
  imports SchedCore
begin

text \<open>
  The system calls of \<open>sched.c\<close> on priorities and policies, with \<open>capable\<close> of \<open>sched.h\<close>, and the
  setting of the processor affinity. \<open>me\<close> is \<open>current\<close>; a call returns its value and the new state.
\<close>

definition EPERM :: int where [simp]: "EPERM = 1"
definition ESRCH :: int where [simp]: "ESRCH = 3"
definition EFAULT :: int where [simp]: "EFAULT = 14"
definition EINVAL :: int where [simp]: "EINVAL = 22"

section \<open>Capabilities\<close>

definition PF_SUPERPRIV :: u32 where "PF_SUPERPRIV = 0x100"

definition capable :: "'q kernel \<Rightarrow> ptr \<Rightarrow> nat \<Rightarrow> 'q sched \<Rightarrow> bool \<times> 'q sched" where
  "capable K me cap s =
     (if cap_raised K (t_cap_effective (tasks s me)) cap
      then (True, upd_task me (\<lambda>t. t\<lparr>t_flags := t_flags t OR PF_SUPERPRIV\<rparr>) s)
      else (False, s))"

section \<open>Nice\<close>

definition sys_nice :: "'q kernel \<Rightarrow> ptr \<Rightarrow> int \<Rightarrow> 'q sched \<Rightarrow> int \<times> 'q sched" where
  "sys_nice K me increment s =
     (case (if increment < 0 then capable K me (CAP_SYS_NICE K) s else (True, s)) of
        (False, s) \<Rightarrow> (- EPERM, s)
      | (True, s) \<Rightarrow>
          (let increment = (if increment < - 40 then - 40 else increment);
               increment = (if increment > 40 then 40 else increment);
               newprio = to_int32 (t_nice (tasks s me) + increment);
               newprio = (if newprio < - 20 then - 20 else newprio);
               newprio = (if newprio > 19 then 19 else newprio)
           in (0, upd_task me (\<lambda>t. t\<lparr>t_nice := newprio\<rparr>) s)))"

section \<open>Policies\<close>

definition find_process_by_pid :: "ptr \<Rightarrow> int \<Rightarrow> 'q sched \<Rightarrow> ptr option" where
  "find_process_by_pid me pid s = (if pid \<noteq> 0 then pid_table s pid else Some me)"

text \<open>The second half of \<open>setscheduler\<close>: what is allowed, and the assignment.\<close>

definition may_set :: "'q kernel \<Rightarrow> ptr \<Rightarrow> ptr \<Rightarrow> int \<Rightarrow> 'q sched \<Rightarrow> bool \<times> 'q sched" where
  "may_set K me p policy s =
     (case (if policy = 1 \<or> policy = 2 then capable K me (CAP_SYS_NICE K) s else (True, s)) of
        (False, s) \<Rightarrow> (False, s)
      | (True, s) \<Rightarrow>
          (if t_euid (tasks s me) \<noteq> t_euid (tasks s p) \<and> t_euid (tasks s me) \<noteq> t_uid (tasks s p)
           then capable K me (CAP_SYS_NICE K) s else (True, s)))"

text \<open>
  \<open>param\<close> is a pointer of the caller: \<open>None\<close> for \<open>NULL\<close>, \<open>Some None\<close> when \<open>copy_from_user\<close> fails. The
  policies are \<open>SCHED_OTHER\<close> 0, \<open>SCHED_FIFO\<close> 1 and \<open>SCHED_RR\<close> 2.
\<close>

definition setscheduler ::
  "'q kernel \<Rightarrow> ptr \<Rightarrow> int \<Rightarrow> int \<Rightarrow> int option option \<Rightarrow> 'q sched \<Rightarrow> int \<times> 'q sched" where
  "setscheduler K me pid policy param s =
     (case param of
        None \<Rightarrow> (- EINVAL, s)
      | Some lp \<Rightarrow>
          (if pid < 0 then (- EINVAL, s)
           else case lp of
             None \<Rightarrow> (- EFAULT, s)
           | Some sched_priority \<Rightarrow>
               (case find_process_by_pid me pid s of
                  None \<Rightarrow> (- ESRCH, s)
                | Some p \<Rightarrow>
                    (if 0 \<le> policy \<and> policy \<noteq> 1 \<and> policy \<noteq> 2 \<and> policy \<noteq> 0 then (- EINVAL, s)
                     else let policy = (if policy < 0 then sint (t_policy (tasks s p)) else policy) in
                       if sched_priority < 0 \<or> sched_priority > 99 then (- EINVAL, s)
                       else if (policy = 0) \<noteq> (sched_priority = 0) then (- EINVAL, s)
                       else case may_set K me p policy s of
                           (False, s) \<Rightarrow> (- EPERM, s)
                         | (True, s) \<Rightarrow>
                             (0, upd_task me (\<lambda>t. t\<lparr>t_need_resched := 1\<rparr>)
                                   (upd_task p (\<lambda>t. t\<lparr>t_policy := word_of_int policy,
                                                       t_rt_priority := sched_priority\<rparr>) s))))))"

definition sys_sched_setscheduler ::
  "'q kernel \<Rightarrow> ptr \<Rightarrow> int \<Rightarrow> int \<Rightarrow> int option option \<Rightarrow> 'q sched \<Rightarrow> int \<times> 'q sched" where
  "sys_sched_setscheduler = setscheduler"

definition sys_sched_setparam ::
  "'q kernel \<Rightarrow> ptr \<Rightarrow> int \<Rightarrow> int option option \<Rightarrow> 'q sched \<Rightarrow> int \<times> 'q sched" where
  "sys_sched_setparam K me pid param = setscheduler K me pid (- 1) param"

definition sys_sched_getscheduler :: "ptr \<Rightarrow> int \<Rightarrow> 'q sched \<Rightarrow> int" where
  "sys_sched_getscheduler me pid s =
     (if pid < 0 then - EINVAL
      else case find_process_by_pid me pid s of
          None \<Rightarrow> - ESRCH
        | Some p \<Rightarrow> sint (t_policy (tasks s p) AND NOT SCHED_YIELD))"

text \<open>The value with what is copied to the caller; \<open>writable\<close> when \<open>copy_to_user\<close> succeeds.\<close>

definition sys_sched_getparam :: "ptr \<Rightarrow> int \<Rightarrow> bool option \<Rightarrow> 'q sched \<Rightarrow> int \<times> int option" where
  "sys_sched_getparam me pid param s =
     (case param of
        None \<Rightarrow> (- EINVAL, None)
      | Some writable \<Rightarrow>
          (if pid < 0 then (- EINVAL, None)
           else case find_process_by_pid me pid s of
               None \<Rightarrow> (- ESRCH, None)
             | Some p \<Rightarrow> (if writable then (0, Some (t_rt_priority (tasks s p))) else (- EFAULT, None))))"

definition sys_sched_get_priority_max :: "int \<Rightarrow> int" where
  "sys_sched_get_priority_max policy =
     (if policy = 1 \<or> policy = 2 then 99 else if policy = 0 then 0 else - EINVAL)"

definition sys_sched_get_priority_min :: "int \<Rightarrow> int" where
  "sys_sched_get_priority_min policy =
     (if policy = 1 \<or> policy = 2 then 1 else if policy = 0 then 0 else - EINVAL)"

text \<open>The interval is given in ticks; \<open>jiffies_to_timespec\<close> turns it into seconds.\<close>

definition sys_sched_rr_get_interval ::
  "'q kernel \<Rightarrow> ptr \<Rightarrow> int \<Rightarrow> bool \<Rightarrow> 'q sched \<Rightarrow> int \<times> int option" where
  "sys_sched_rr_get_interval K me pid writable s =
     (if pid < 0 then (- EINVAL, None)
      else case find_process_by_pid me pid s of
          None \<Rightarrow> (- ESRCH, None)
        | Some p \<Rightarrow>
            (let t = (if t_policy (tasks s p) AND SCHED_FIFO \<noteq> 0 then 0
                      else NICE_TO_TICKS K (t_nice (tasks s p)))
             in if writable then (0, Some t) else (- EFAULT, None)))"

section \<open>Yielding\<close>

definition nr_pending :: "'q kernel \<Rightarrow> 'q sched \<Rightarrow> int" where
  "nr_pending K s =
     (if CONFIG_SMP K
      then nr_running s - int (length (filter (\<lambda>cpu. cpu_curr s cpu \<noteq> idle_task K s cpu) (logical_cpus K)))
      else nr_running s - 1)"

definition sys_sched_yield :: "'q kernel \<Rightarrow> ptr \<Rightarrow> 'q sched \<Rightarrow> int \<times> 'q sched" where
  "sys_sched_yield K me s =
     (if nr_pending K s \<noteq> 0
      then let s = (if t_policy (tasks s me) = SCHED_OTHER
                    then upd_task me (\<lambda>t. t\<lparr>t_policy := t_policy t OR SCHED_YIELD\<rparr>) s else s);
               s = upd_task me (\<lambda>t. t\<lparr>t_need_resched := 1\<rparr>) s
           in (0, move_last_runqueue K me s)
      else (0, s))"

text \<open>\<open>yield\<close> and \<open>__cond_resched\<close>.\<close>

definition yield :: "'q kernel \<Rightarrow> bool \<Rightarrow> ptr \<Rightarrow> 'q sched \<Rightarrow> (panic + ptr \<times> 'q sched) option" where
  "yield K in_interrupt me s =
     (let s = upd_task me (\<lambda>t. t\<lparr>t_state := TASK_RUNNING\<rparr>) s
      in schedule K in_interrupt me (snd (sys_sched_yield K me s)))"

definition cond_resched :: "'q kernel \<Rightarrow> bool \<Rightarrow> ptr \<Rightarrow> 'q sched \<Rightarrow> (panic + ptr \<times> 'q sched) option" where
  "cond_resched K in_interrupt me s =
     (if t_need_resched (tasks s me) \<noteq> 0
      then schedule K in_interrupt me (upd_task me (\<lambda>t. t\<lparr>t_state := TASK_RUNNING\<rparr>) s)
      else Some (Inr (me, s)))"

section \<open>Processor affinity\<close>

text \<open>
  \<open>set_cpus_allowed\<close> up to its loop; the flag says whether the caller has to wait in \<open>schedule\<close>
  until the task has left its processor.
\<close>

definition set_cpus_allowed ::
  "'q kernel \<Rightarrow> ptr \<Rightarrow> ptr \<Rightarrow> u32 \<Rightarrow> 'q sched \<Rightarrow> panic + bool \<times> 'q sched" where
  "set_cpus_allowed K me p new_mask s =
     (let new_mask = new_mask AND cpu_online_map K in
      if new_mask = 0 then Inl Bug
      else let s = upd_task p (\<lambda>t. t\<lparr>t_cpus_allowed := new_mask\<rparr>) s in
        if t_cpus_runnable (tasks s p) AND t_cpus_allowed (tasks s p) = 0
        then Inr (True, if p \<noteq> me
                        then smp_send_reschedule (t_processor (tasks s p))
                          (upd_task p (\<lambda>t. t\<lparr>t_need_resched := 1\<rparr>) s)
                        else s)
        else Inr (False, s))"

text \<open>\<open>init_idle\<close>, on the processor \<open>cpu\<close> and in its idle thread \<open>me\<close>.\<close>

definition init_idle :: "'q kernel \<Rightarrow> nat \<Rightarrow> ptr \<Rightarrow> 'q sched \<Rightarrow> 'q sched" where
  "init_idle K cpu me s =
     (let s = (if me \<noteq> init_task K \<and> task_on_runqueue s me then del_from_runqueue K me s else s)
      in s\<lparr>cpu_curr := (cpu_curr s)(cpu := me), last_schedule := (last_schedule s)(cpu := cycles s)\<rparr>)"

section \<open>What the calls guarantee\<close>

lemma capable_cases:
  "capable K me cap s = (b, s') \<Longrightarrow>
     b = cap_raised K (t_cap_effective (tasks s me)) cap \<and>
     s' = (if b then upd_task me (\<lambda>t. t\<lparr>t_flags := t_flags t OR PF_SUPERPRIV\<rparr>) s else s)"
  by (auto simp: capable_def split: if_splits)

text \<open>Apart from \<open>PF_SUPERPRIV\<close> of the caller.\<close>

definition same_but_flags :: "ptr \<Rightarrow> 'q sched \<Rightarrow> 'q sched \<Rightarrow> bool" where
  "same_but_flags me s s' \<longleftrightarrow> (\<exists>f. s' = upd_task me (\<lambda>t. t\<lparr>t_flags := f\<rparr>) s)"

lemma same_but_flags_refl [simp]: "same_but_flags me s s"
  unfolding same_but_flags_def
  by (rule exI[of _ "t_flags (tasks s me)"]) (simp add: upd_task_def)

lemma same_but_flags_upd [simp]: "same_but_flags me s (upd_task me (\<lambda>t. t\<lparr>t_flags := g t\<rparr>) s)"
  unfolding same_but_flags_def by (rule exI[of _ "g (tasks s me)"]) (simp add: upd_task_def)

lemma same_but_flags_twice [simp]:
  "same_but_flags me s (upd_task me (\<lambda>t. t\<lparr>t_flags := g t\<rparr>) (upd_task me (\<lambda>t. t\<lparr>t_flags := h t\<rparr>) s))"
  unfolding same_but_flags_def
  by (rule exI[of _ "g (tasks s me\<lparr>t_flags := h (tasks s me)\<rparr>)"]) (simp add: upd_task_def)

lemma same_but_flags_tasks:
  assumes "same_but_flags me s s'"
  shows "t_policy (tasks s' p) = t_policy (tasks s p)" "t_euid (tasks s' p) = t_euid (tasks s p)"
    "t_uid (tasks s' p) = t_uid (tasks s p)" "t_cap_effective (tasks s' p) = t_cap_effective (tasks s p)"
    "t_nice (tasks s' p) = t_nice (tasks s p)" "t_rt_priority (tasks s' p) = t_rt_priority (tasks s p)"
    "p \<noteq> me \<Longrightarrow> tasks s' p = tasks s p"
  using assms by (auto simp: same_but_flags_def)

lemma may_set_state: "same_but_flags me s (snd (may_set K me p policy s))"
  by (simp add: may_set_def capable_def)

lemma may_set_allowed:
  "fst (may_set K me p policy s) \<longleftrightarrow>
     cap_raised K (t_cap_effective (tasks s me)) (CAP_SYS_NICE K) \<or>
     policy \<noteq> 1 \<and> policy \<noteq> 2 \<and>
     (t_euid (tasks s me) = t_euid (tasks s p) \<or> t_euid (tasks s me) = t_uid (tasks s p))"
  by (auto simp: may_set_def capable_def)

lemma setscheduler_cases:
  assumes "setscheduler K me pid policy param s = (r, s')"
  obtains (fails) "r \<noteq> 0" "same_but_flags me s s'"
  | (sets) p prio pol s\<^sub>1 where "r = 0" "param = Some (Some prio)" "find_process_by_pid me pid s = Some p"
      "pol = (if policy < 0 then sint (t_policy (tasks s p)) else policy)"
      "0 \<le> policy \<Longrightarrow> policy \<in> {0, 1, 2}" "0 \<le> prio" "prio \<le> 99" "(pol = 0) = (prio = 0)"
      "same_but_flags me s s\<^sub>1" "fst (may_set K me p pol s)"
      "s' = upd_task me (\<lambda>t. t\<lparr>t_need_resched := 1\<rparr>)
              (upd_task p (\<lambda>t. t\<lparr>t_policy := word_of_int pol, t_rt_priority := prio\<rparr>) s\<^sub>1)"
proof (cases "\<exists>prio p. param = Some (Some prio) \<and> 0 \<le> pid \<and> find_process_by_pid me pid s = Some p")
  case False
  then have "r \<noteq> 0" "s' = s" using assms
    by (auto simp: setscheduler_def split: option.splits if_splits)
  then show ?thesis using fails by simp
next
  case True
  then obtain prio p where *: "param = Some (Some prio)" "0 \<le> pid" "find_process_by_pid me pid s = Some p" by blast
  let ?pol = "if policy < 0 then sint (t_policy (tasks s p)) else policy"
  show ?thesis
  proof (cases "(0 \<le> policy \<longrightarrow> policy \<in> {0, 1, 2}) \<and> 0 \<le> prio \<and> prio \<le> 99 \<and> (?pol = 0) = (prio = 0)")
    case False
    then have "r = - EINVAL" "s' = s" using assms *
      by (auto simp: setscheduler_def Let_def split: if_splits)
    then show ?thesis using fails by simp
  next
    case True
    obtain b s\<^sub>1 where m: "may_set K me p ?pol s = (b, s\<^sub>1)" by fastforce
    with may_set_state[of me s K p ?pol] have f: "same_but_flags me s s\<^sub>1" by simp
    have "(r, s') = (case (b, s\<^sub>1) of (False, s) \<Rightarrow> (- EPERM, s)
        | (True, s) \<Rightarrow> (0, upd_task me (\<lambda>t. t\<lparr>t_need_resched := 1\<rparr>)
            (upd_task p (\<lambda>t. t\<lparr>t_policy := word_of_int ?pol, t_rt_priority := prio\<rparr>) s)))"
      using assms * True unfolding m[symmetric] by (auto simp: setscheduler_def Let_def)
    then show ?thesis using fails f sets[OF _ *(1) *(3) refl _ _ _ _ f] True m by (cases b) auto
  qed
qed

section \<open>Valid priorities\<close>

text \<open>
  What \<open>setscheduler\<close> promises of every task: a known policy, a priority from 1 to 99 for the
  real-time policies and 0 for \<open>SCHED_OTHER\<close>.
\<close>

definition prio_ok :: "task \<Rightarrow> bool" where
  "prio_ok t \<longleftrightarrow> t_policy t AND NOT SCHED_YIELD \<in> {SCHED_OTHER, SCHED_FIFO, SCHED_RR}
     \<and> 0 \<le> t_rt_priority t \<and> t_rt_priority t \<le> 99
     \<and> (t_policy t AND NOT SCHED_YIELD = SCHED_OTHER) = (t_rt_priority t = 0)"

definition realtime :: "task \<Rightarrow> bool" where
  "realtime t \<longleftrightarrow> t_policy t AND NOT SCHED_YIELD \<in> {SCHED_FIFO, SCHED_RR}"

text \<open>
  C30: the system calls keep the priorities of all tasks valid and the real-time policies for the
  privileged: after \<open>setscheduler\<close>, whatever its arguments, every task is again valid, and a task
  has become a real-time task only if the caller has \<open>CAP_SYS_NICE\<close>. A call that fails changes
  nothing but \<open>PF_SUPERPRIV\<close>. The target of a \<open>sched_setparam\<close> must not be yielding.
\<close>

theorem setscheduler_valid:
  assumes "\<And>q. prio_ok (tasks s q)"
    and "\<And>p. policy < 0 \<Longrightarrow> find_process_by_pid me pid s = Some p \<Longrightarrow> t_policy (tasks s p) AND SCHED_YIELD = 0"
    and "setscheduler K me pid policy param s = (r, s')"
  shows "prio_ok (tasks s' q)
    \<and> (realtime (tasks s' q) \<longrightarrow>
        realtime (tasks s q) \<or> cap_raised K (t_cap_effective (tasks s me)) (CAP_SYS_NICE K))
    \<and> (r \<noteq> 0 \<longrightarrow> same_but_flags me s s')"
  using assms(3)
proof (cases rule: setscheduler_cases)
  case fails
  then show ?thesis using assms(1)[of q]
    by (auto simp: prio_ok_def realtime_def same_but_flags_tasks)
next
  case (sets p prio pol s\<^sub>1)
  have known: "pol \<in> {0, 1, 2}"
  proof (cases "policy < 0")
    case True
    then have y: "t_policy (tasks s p) AND SCHED_YIELD = 0" using assms(2) sets(3) by blast
    have "t_policy (tasks s p) = (t_policy (tasks s p) AND NOT SCHED_YIELD) OR (t_policy (tasks s p) AND SCHED_YIELD)"
      by (rule bit_word_eqI) (auto simp: bit_simps)
    then have "t_policy (tasks s p) = t_policy (tasks s p) AND NOT SCHED_YIELD" unfolding y by simp
    with assms(1)[of p] have "t_policy (tasks s p) \<in> {0, 1, 2}" by (auto simp: prio_ok_def)
    with True sets(4) show ?thesis by auto
  qed (use sets(4,5) in auto)
  then have w: "word_of_int pol AND NOT SCHED_YIELD = (word_of_int pol :: u32)" by auto
  have other: "prio_ok (tasks s' q) \<and> (realtime (tasks s' q) \<longrightarrow> realtime (tasks s q))" if "q \<noteq> p"
    using assms(1)[of q] that sets(9) by (auto simp: sets(11) prio_ok_def realtime_def same_but_flags_tasks)
  have new: "t_policy (tasks s' p) = word_of_int pol" "t_rt_priority (tasks s' p) = prio"
    by (simp_all add: sets(11))
  have "prio_ok (tasks s' p)"
    unfolding prio_ok_def new w using known sets(6,7,8) by auto
  moreover have "realtime (tasks s' p) \<Longrightarrow> cap_raised K (t_cap_effective (tasks s me)) (CAP_SYS_NICE K)"
    unfolding realtime_def new w using known sets(10) by (auto simp: may_set_allowed)
  ultimately show ?thesis using other sets(1) by (cases "q = p") auto
qed

theorem setscheduler_valid_witness:
  "prio_ok (tasks (snd (setscheduler (small_kernel True) 3 40 (- 1) (Some (Some 0)) small_state)) 4)"
proof -
  have "prio_ok (tasks small_state q)" for q by (simp add: small_defs prio_ok_def)
  from setscheduler_valid[OF this, of "- 1" 3 40 "small_kernel True" "Some (Some 0)", OF _ prod.collapse[symmetric]]
  show ?thesis by (simp add: small_defs find_process_by_pid_def)
qed

text \<open>
  The exception is real. A task of \<open>SCHED_OTHER\<close> that has just yielded carries \<open>SCHED_YIELD\<close> in its
  policy, and \<open>sched_setparam\<close> compares that with \<open>SCHED_OTHER\<close>: the only valid priority, 0, is
  refused, while its owner can set any of 1 to 99 without a capability.
\<close>

theorem setparam_yielding_task:
  assumes "pid_table s pid = Some p" "0 < pid" "t_policy (tasks s p) = SCHED_OTHER OR SCHED_YIELD"
    and "t_euid (tasks s me) = t_uid (tasks s p)" "1 \<le> prio" "prio \<le> 99"
  shows "sys_sched_setparam K me pid (Some (Some 0)) s = (- EINVAL, s)
    \<and> fst (sys_sched_setparam K me pid (Some (Some prio)) s) = 0
    \<and> \<not> prio_ok (tasks (snd (sys_sched_setparam K me pid (Some (Some prio)) s)) p)"
proof -
  have f: "find_process_by_pid me pid s = Some p" using assms by (simp add: find_process_by_pid_def)
  have m: "may_set K me p 16 s = (True, s)" using assms by (simp add: may_set_def)
  show ?thesis using assms(2-)
    by (simp add: sys_sched_setparam_def setscheduler_def f m prio_ok_def)
qed

theorem setparam_yielding_task_witness:
  "let s = snd (sys_sched_yield (small_kernel False) 3 small_state) in
   sys_sched_setparam (small_kernel False) 3 30 (Some (Some 0)) s = (- EINVAL, s)
     \<and> t_rt_priority (tasks (snd (sys_sched_setparam (small_kernel False) 3 30 (Some (Some 50)) s)) 3) = 50"
proof -
  let ?s = "snd (sys_sched_yield (small_kernel False) 3 small_state)"
  have y: "t_policy (tasks ?s 3) = SCHED_OTHER OR SCHED_YIELD" "pid_table ?s 30 = Some 3"
    "t_euid (tasks ?s 3) = t_uid (tasks ?s 3)"
    by (simp_all add: sys_sched_yield_def nr_pending_def move_last_runqueue_def small_defs)
  from setparam_yielding_task[OF y(2) _ y(1) y(3), of 50 "small_kernel False"]
  show ?thesis
    by (simp add: Let_def sys_sched_setparam_def setscheduler_def find_process_by_pid_def y may_set_def)
qed

text \<open>
  C31: \<open>nice\<close> adds its argument and stops at -20 and 19, for every \<open>int\<close>: the limits of 40 on the
  argument do not show. Lowering the value needs \<open>CAP_SYS_NICE\<close>.
\<close>

theorem sys_nice_clamps:
  assumes "- 20 \<le> t_nice (tasks s me)" "t_nice (tasks s me) \<le> 19"
  shows "if increment < 0 \<and> \<not> cap_raised K (t_cap_effective (tasks s me)) (CAP_SYS_NICE K)
    then sys_nice K me increment s = (- EPERM, s)
    else fst (sys_nice K me increment s) = 0
      \<and> t_nice (tasks (snd (sys_nice K me increment s)) me) = max (- 20) (min 19 (t_nice (tasks s me) + increment))"
proof -
  have w: "to_int32 (t_nice (tasks s me) + i) = t_nice (tasks s me) + i" if "- 40 \<le> i" "i \<le> 40" for i
    by (rule to_int32_id) (use assms that in simp_all)
  show ?thesis
    using assms by (auto simp: sys_nice_def capable_def Let_def w min_def max_def)
qed

theorem sys_nice_clamps_witness:
  "t_nice (tasks (snd (sys_nice (small_kernel True) 3 1000 small_state)) 3) = 19"
  using sys_nice_clamps[of small_state 3 1000 "small_kernel True"] by (simp add: small_defs)

end
