(* ===== verification/SchedSmp.thy ===== *)
theory SchedSmp
  imports SchedSelect SchedCalls
begin

text \<open>
  The scheduler on several processors (\<open>CONFIG_SMP\<close>): every processor calls \<open>schedule\<close>, finishes a
  switch in \<open>__schedule_tail\<close>, wakes tasks, yields and goes to sleep, in any interleaving. Each of
  these is one step, because it holds \<open>runqueue_lock\<close>; between the choice of the next task and
  \<open>__schedule_tail\<close> the other processors run.
\<close>

section \<open>The system\<close>

text \<open>\<open>leaving c\<close> is the task that processor \<open>c\<close> has switched away from and not yet released.\<close>

record 'q machine =
  core :: "'q sched"
  leaving :: "nat \<Rightarrow> ptr option"

text \<open>
  \<open>Change\<close> is what the rest of the kernel does to a task: ticks, signals and the system calls on
  priorities.
\<close>

datatype event =
  Pick nat
| Tail nat
| Wake nat ptr bool
| Yield nat
| Sleep nat u32
| Change ptr int int u32 int bool

abbreviation cpus :: "'q kernel \<Rightarrow> nat set" where
  "cpus K \<equiv> set (logical_cpus K)"

definition is_idle :: "'q kernel \<Rightarrow> 'q sched \<Rightarrow> ptr \<Rightarrow> bool" where
  "is_idle K s p \<longleftrightarrow> p \<in> idle_task K s ` cpus K"

definition change_task :: "ptr \<Rightarrow> int \<Rightarrow> int \<Rightarrow> u32 \<Rightarrow> int \<Rightarrow> bool \<Rightarrow> 'q sched \<Rightarrow> 'q sched" where
  "change_task p c n pol rt sig =
     upd_task p (\<lambda>t. t\<lparr>t_counter := c, t_nice := n, t_policy := pol, t_rt_priority := rt, t_sigpending := sig\<rparr>)"

fun machine_step :: "'q kernel \<Rightarrow> event \<Rightarrow> 'q machine \<Rightarrow> 'q machine option" where
  "machine_step K (Pick c) m =
     (let prev = cpu_curr (core m) c in
      if c \<in> cpus K \<and> leaving m c = None
      then case schedule_pass K (\<lambda>s. Inr (recalculate K s)) False prev (core m) of
          Some (Inr (nxt, s)) \<Rightarrow>
            Some (m\<lparr>core := s, leaving := (leaving m)(c := if prev = nxt then None else Some prev)\<rparr>)
        | _ \<Rightarrow> None
      else None)"
| "machine_step K (Tail c) m =
     (case leaving m c of
        Some prev \<Rightarrow>
          (if c \<in> cpus K
           then Some (m\<lparr>core := schedule_tail K c prev (core m), leaving := (leaving m)(c := None)\<rparr>) else None)
      | None \<Rightarrow> None)"
| "machine_step K (Wake c p sync) m =
     (if c \<in> cpus K \<and> p \<in> set (all_tasks (core m)) \<and> \<not> is_idle K (core m) p
      then Some (m\<lparr>core := snd (try_to_wake_up K c p sync (core m))\<rparr>) else None)"
| "machine_step K (Yield c) m =
     (if c \<in> cpus K \<and> leaving m c = None \<and> \<not> is_idle K (core m) (cpu_curr (core m) c)
      then Some (m\<lparr>core := snd (sys_sched_yield K (cpu_curr (core m) c) (core m))\<rparr>) else None)"
| "machine_step K (Sleep c st) m =
     (if c \<in> cpus K \<and> leaving m c = None \<and> \<not> is_idle K (core m) (cpu_curr (core m) c)
      then Some (m\<lparr>core := upd_task (cpu_curr (core m) c) (\<lambda>t. t\<lparr>t_state := st\<rparr>) (core m)\<rparr>) else None)"
| "machine_step K (Change p c n pol rt sig) m =
     (if \<not> is_idle K (core m) p \<and> 0 \<le> c \<and> c \<le> 322 \<and> nice_ok n \<and> 0 \<le> rt \<and> rt \<le> 99
      then Some (m\<lparr>core := change_task p c n pol rt sig (core m)\<rparr>) else None)"

inductive machine_reachable :: "'q kernel \<Rightarrow> 'q machine \<Rightarrow> 'q machine \<Rightarrow> bool" for K m\<^sub>0 where
  start: "machine_reachable K m\<^sub>0 m\<^sub>0"
| step: "machine_reachable K m\<^sub>0 m \<Longrightarrow> machine_step K e m = Some m' \<Longrightarrow> machine_reachable K m\<^sub>0 m'"

fun run_events :: "'q kernel \<Rightarrow> event list \<Rightarrow> 'q machine \<Rightarrow> 'q machine option" where
  "run_events K [] m = Some m"
| "run_events K (e # es) m = (case machine_step K e m of None \<Rightarrow> None | Some m' \<Rightarrow> run_events K es m')"

lemma run_events_reachable:
  "run_events K es m = Some m' \<Longrightarrow> machine_reachable K m\<^sub>0 m \<Longrightarrow> machine_reachable K m\<^sub>0 m'"
  by (induction es arbitrary: m) (auto split: option.splits intro: machine_reachable.step)

section \<open>The invariant\<close>

definition rq_ok :: "'q kernel \<Rightarrow> 'q sched \<Rightarrow> bool" where
  "rq_ok K s \<longleftrightarrow> distinct (list_elems K (runqueue s))
     \<and> (\<forall>p. t_on_list (tasks s p) \<longleftrightarrow> p \<in> set (list_elems K (runqueue s)) \<or> p = init_task K)
     \<and> nr_running s = int (length (list_elems K (runqueue s)))"

definition idles_ok :: "'q kernel \<Rightarrow> 'q sched \<Rightarrow> bool" where
  "idles_ok K s \<longleftrightarrow> inj_on (idle_task K s) (cpus K) \<and> is_idle K s (init_task K)
     \<and> (\<forall>p. is_idle K s p \<longrightarrow> p \<notin> set (list_elems K (runqueue s))
           \<and> t_state (tasks s p) = TASK_RUNNING \<and> t_policy (tasks s p) = SCHED_OTHER)"

definition all_ok :: "'q kernel \<Rightarrow> 'q sched \<Rightarrow> bool" where
  "all_ok K s \<longleftrightarrow> distinct (all_tasks s) \<and> set (list_elems K (runqueue s)) \<subseteq> set (all_tasks s)
     \<and> (\<forall>p\<in>set (all_tasks s). task_ok (tasks s p))"

definition queued_ok :: "'q kernel \<Rightarrow> nat set \<Rightarrow> 'q sched \<Rightarrow> bool" where
  "queued_ok K C s \<longleftrightarrow>
     (\<forall>c\<in>C. cpu_curr s c = idle_task K s c \<or> cpu_curr s c \<in> set (list_elems K (runqueue s)))"

text \<open>The mark of a processor is on its current task and on the task it is leaving.\<close>

definition marks_ok :: "'q kernel \<Rightarrow> 'q sched \<Rightarrow> (nat \<Rightarrow> ptr option) \<Rightarrow> bool" where
  "marks_ok K s lv \<longleftrightarrow>
     (\<forall>c\<in>cpus K. t_processor (tasks s (cpu_curr s c)) = c \<and> t_cpus_runnable (tasks s (cpu_curr s c)) = cpu_bit c)
     \<and> (\<forall>c p. lv c = Some p \<longrightarrow> c \<in> cpus K \<and> t_cpus_runnable (tasks s p) = cpu_bit c \<and> p \<noteq> cpu_curr s c
           \<and> (is_idle K s p \<longrightarrow> p = idle_task K s c))"

text \<open>
  Address spaces: a user task always has its own; a kernel thread has none but while it runs, when
  it borrows that of the task before it. \<open>mm_count\<close> counts the borrowers on top of \<open>base\<close>.
\<close>

definition borrowers :: "'q kernel \<Rightarrow> 'q sched \<Rightarrow> ptr \<Rightarrow> int" where
  "borrowers K s a =
     (\<Sum>c\<in>cpus K. if t_mm (tasks s (cpu_curr s c)) = 0 \<and> t_active_mm (tasks s (cpu_curr s c)) = a then 1 else 0)"

definition mm_ok :: "'q kernel \<Rightarrow> (ptr \<Rightarrow> int) \<Rightarrow> 'q sched \<Rightarrow> bool" where
  "mm_ok K base s \<longleftrightarrow>
     (\<forall>p. (t_mm (tasks s p) \<noteq> 0 \<longrightarrow> t_active_mm (tasks s p) = t_mm (tasks s p))
        \<and> (t_mm (tasks s p) = 0 \<longrightarrow> t_active_mm (tasks s p) \<noteq> 0 \<longleftrightarrow> p \<in> cpu_curr s ` cpus K))
     \<and> (\<forall>a. mm_count s a = base a + borrowers K s a)"

definition smp_ok :: "'q kernel \<Rightarrow> bool" where
  "smp_ok K \<longleftrightarrow> CONFIG_SMP K \<and> list_laws K \<and> penalty_ok K \<and> cpus K \<subseteq> {..<32}"

definition machine_ok :: "'q kernel \<Rightarrow> (ptr \<Rightarrow> int) \<Rightarrow> 'q machine \<Rightarrow> bool" where
  "machine_ok K base m \<longleftrightarrow> rq_ok K (core m) \<and> idles_ok K (core m) \<and> all_ok K (core m)
     \<and> queued_ok K (cpus K) (core m) \<and> marks_ok K (core m) (leaving m) \<and> mm_ok K base (core m)"

lemma cpu_bit_less: "c < 32 \<Longrightarrow> bit (cpu_bit c) i \<longleftrightarrow> i = c"
  by (auto simp: cpu_bit_def bit_simps)

lemma cpu_bit_and:
  assumes "c < 32" "d < 32" "cpu_bit c AND cpu_bit d \<noteq> 0"
  shows "c = d"
proof (rule ccontr)
  assume "c \<noteq> d"
  then have "cpu_bit c AND cpu_bit d = 0"
    by (intro bit_word_eqI) (simp add: bit_and_iff cpu_bit_less[OF assms(1)] cpu_bit_less[OF assms(2)])
  with assms(3) show False by contradiction
qed

lemma cpu_bit_inject:
  assumes "c < 32" "d < 32"
  shows "cpu_bit c = cpu_bit d \<longleftrightarrow> c = d"
  using cpu_bit_less[OF assms(1), of c] cpu_bit_less[OF assms(2), of c] by auto

section \<open>What the invariant looks at\<close>

definition shape :: "'q sched \<Rightarrow> _" where
  "shape s = (runqueue s, nr_running s, cpu_curr s, init_tasks s, all_tasks s, mm_count s,
     (\<lambda>p. t_on_list (tasks s p)), (\<lambda>p. t_processor (tasks s p)), (\<lambda>p. t_cpus_runnable (tasks s p)),
     (\<lambda>p. t_mm (tasks s p)), (\<lambda>p. t_active_mm (tasks s p)))"

lemma shape_parts:
  assumes "shape s = shape s'"
  shows "runqueue s = runqueue s'" "nr_running s = nr_running s'" "cpu_curr s = cpu_curr s'"
    "init_tasks s = init_tasks s'" "all_tasks s = all_tasks s'" "mm_count s = mm_count s'"
    "t_on_list (tasks s p) = t_on_list (tasks s' p)" "t_processor (tasks s p) = t_processor (tasks s' p)"
    "t_cpus_runnable (tasks s p) = t_cpus_runnable (tasks s' p)"
    "t_mm (tasks s p) = t_mm (tasks s' p)" "t_active_mm (tasks s p) = t_active_mm (tasks s' p)"
    "idle_task K s = idle_task K s'" "is_idle K s p = is_idle K s' p"
  using assms by (auto simp: shape_def fun_eq_iff idle_task_def is_idle_def)

lemma shape_ok:
  assumes "shape s = shape s'"
  shows "rq_ok K s = rq_ok K s'" "queued_ok K C s = queued_ok K C s'" "marks_ok K s lv = marks_ok K s' lv"
    "mm_ok K base s = mm_ok K base s'"
  using shape_parts[OF assms]
  by (simp_all add: rq_ok_def queued_ok_def marks_ok_def mm_ok_def borrowers_def)

lemma shape_upd [simp]:
  assumes "\<And>t. t_on_list (f t) = t_on_list t" "\<And>t. t_processor (f t) = t_processor t"
    "\<And>t. t_cpus_runnable (f t) = t_cpus_runnable t" "\<And>t. t_mm (f t) = t_mm t" "\<And>t. t_active_mm (f t) = t_active_mm t"
  shows "shape (upd_task p f s) = shape s"
  using assms by (auto simp: shape_def fun_eq_iff)

lemma shape_only_resched: "only_resched s s' \<Longrightarrow> shape s' = shape s"
  by (auto simp: only_resched_def shape_def)

lemma idle_task_cong: "init_tasks s = init_tasks s' \<Longrightarrow> idle_task K s = idle_task K s'"
  by (simp add: idle_task_def fun_eq_iff)

lemma is_idle_cong: "init_tasks s = init_tasks s' \<Longrightarrow> is_idle K s = is_idle K s'"
  by (simp add: is_idle_def fun_eq_iff idle_task_cong[of s s'])

lemma idle_upd_task [simp]:
  "idle_task K (upd_task p f s) = idle_task K s" "is_idle K (upd_task p f s) = is_idle K s"
  by (rule idle_task_cong, simp) (rule is_idle_cong, simp)

text \<open>A step that the invariant does not see.\<close>

definition quiet :: "'q kernel \<Rightarrow> 'q sched \<Rightarrow> 'q sched \<Rightarrow> bool" where
  "quiet K s s' \<longleftrightarrow> shape s' = shape s
     \<and> (\<forall>p. is_idle K s p \<longrightarrow> t_state (tasks s' p) = t_state (tasks s p)
           \<and> (t_policy (tasks s p) = SCHED_OTHER \<longrightarrow> t_policy (tasks s' p) = SCHED_OTHER))
     \<and> (\<forall>p. task_ok (tasks s p) \<longrightarrow> task_ok (tasks s' p))"

lemma quiet_refl [simp]: "quiet K s s"
  by (simp add: quiet_def)

lemma quiet_trans: "quiet K s t \<Longrightarrow> quiet K t u \<Longrightarrow> quiet K s u"
  using shape_parts(13)[of t s K] by (auto simp: quiet_def)

lemma quiet_ok:
  assumes "quiet K s s'"
  shows "rq_ok K s \<Longrightarrow> rq_ok K s'" "idles_ok K s \<Longrightarrow> idles_ok K s'" "all_ok K s \<Longrightarrow> all_ok K s'"
    "queued_ok K C s \<Longrightarrow> queued_ok K C s'" "marks_ok K s lv \<Longrightarrow> marks_ok K s' lv" "mm_ok K base s \<Longrightarrow> mm_ok K base s'"
proof -
  from assms have sh: "shape s' = shape s" by (simp add: quiet_def)
  note parts = shape_parts[OF sh]
  show "rq_ok K s \<Longrightarrow> rq_ok K s'" "queued_ok K C s \<Longrightarrow> queued_ok K C s'" "marks_ok K s lv \<Longrightarrow> marks_ok K s' lv"
    "mm_ok K base s \<Longrightarrow> mm_ok K base s'" using shape_ok[OF sh] by simp_all
  show "idles_ok K s \<Longrightarrow> idles_ok K s'"
    using assms by (auto simp: idles_ok_def quiet_def parts)
  show "all_ok K s \<Longrightarrow> all_ok K s'"
    using assms by (auto simp: all_ok_def quiet_def parts)
qed

lemma quiet_upd:
  assumes "\<And>t. t_on_list (f t) = t_on_list t" "\<And>t. t_processor (f t) = t_processor t"
    "\<And>t. t_cpus_runnable (f t) = t_cpus_runnable t" "\<And>t. t_mm (f t) = t_mm t" "\<And>t. t_active_mm (f t) = t_active_mm t"
    and "is_idle K s p \<Longrightarrow> t_state (f (tasks s p)) = t_state (tasks s p)"
    and "is_idle K s p \<Longrightarrow> t_policy (tasks s p) = SCHED_OTHER \<Longrightarrow> t_policy (f (tasks s p)) = SCHED_OTHER"
    and "\<And>t. task_ok t \<Longrightarrow> task_ok (f t)"
  shows "quiet K s (upd_task p f s)"
  using assms by (auto simp: quiet_def)

lemma quiet_only_resched: "only_resched s s' \<Longrightarrow> quiet K s s'"
  by (frule shape_only_resched) (auto simp: quiet_def only_resched_def task_ok_def)

lemma quiet_recalculate:
  assumes "distinct (all_tasks s)"
  shows "quiet K' s (recalculate K s)"
  unfolding quiet_def using tasks_recalculate[OF assms, of K]
  by (auto simp: shape_def fun_eq_iff task_ok_refilled)

section \<open>The operations on the run queue\<close>

lemma mm_ok_cong:
  assumes "cpu_curr s' = cpu_curr s" "mm_count s' = mm_count s"
    and "\<And>p. t_mm (tasks s' p) = t_mm (tasks s p)" "\<And>p. t_active_mm (tasks s' p) = t_active_mm (tasks s p)"
  shows "mm_ok K base s \<Longrightarrow> mm_ok K base s'"
  unfolding mm_ok_def borrowers_def assms .

lemma rq_facts:
  assumes "list_laws K" "rq_ok K s"
  shows "p \<notin> set (list_elems K (runqueue s)) \<Longrightarrow>
      list_elems K (list_add_tail K p (runqueue s)) = list_elems K (runqueue s) @ [p]"
    and "p \<in> set (list_elems K (runqueue s)) \<Longrightarrow>
      list_elems K (list_add_tail K p (list_del K p (runqueue s))) = remove1 p (list_elems K (runqueue s)) @ [p]"
    and "p \<in> set (list_elems K (runqueue s)) \<Longrightarrow>
      list_elems K (list_del K p (runqueue s)) = remove1 p (list_elems K (runqueue s))"
  using assms by (auto simp: rq_ok_def intro: runqueue_laws)

lemma add_to_runqueue_ok:
  assumes "list_laws K" "rq_ok K s" "idles_ok K s" "all_ok K s"
    and "p \<in> set (all_tasks s)" "\<not> is_idle K s p" "\<not> t_on_list (tasks s p)"
  shows "rq_ok K (add_to_runqueue K p s)" "idles_ok K (add_to_runqueue K p s)" "all_ok K (add_to_runqueue K p s)"
    "queued_ok K C s \<Longrightarrow> queued_ok K C (add_to_runqueue K p s)"
    "marks_ok K s lv \<Longrightarrow> marks_ok K (add_to_runqueue K p s) lv" "mm_ok K base s \<Longrightarrow> mm_ok K base (add_to_runqueue K p s)"
proof -
  let ?t = "add_to_runqueue K p s"
  from assms(2,7) have new: "p \<notin> set (list_elems K (runqueue s))" by (simp add: rq_ok_def)
  note q = rq_facts(1)[OF assms(1,2) new]
  have i: "idle_task K ?t = idle_task K s" "is_idle K ?t = is_idle K s"
    by (rule idle_task_cong, simp add: add_to_runqueue_def) (rule is_idle_cong, simp add: add_to_runqueue_def)
  show "rq_ok K ?t" using assms(2) new by (auto simp: rq_ok_def add_to_runqueue_def q)
  show "idles_ok K ?t" using assms(3,6) unfolding idles_ok_def i by (auto simp: add_to_runqueue_def q)
  show "all_ok K ?t" using assms(4,5) by (auto simp: all_ok_def add_to_runqueue_def q task_ok_def)
  show "queued_ok K C s \<Longrightarrow> queued_ok K C ?t" unfolding queued_ok_def i by (auto simp: add_to_runqueue_def q)
  show "marks_ok K s lv \<Longrightarrow> marks_ok K ?t lv" unfolding marks_ok_def i by (auto simp: add_to_runqueue_def)
  show "mm_ok K base s \<Longrightarrow> mm_ok K base ?t" by (rule mm_ok_cong) (auto simp: add_to_runqueue_def)
qed

lemma move_last_runqueue_ok:
  assumes "list_laws K" "rq_ok K s" "p \<in> set (list_elems K (runqueue s))"
  shows "rq_ok K (move_last_runqueue K p s)" "idles_ok K s \<Longrightarrow> idles_ok K (move_last_runqueue K p s)"
    "all_ok K s \<Longrightarrow> all_ok K (move_last_runqueue K p s)"
    "queued_ok K C s \<Longrightarrow> queued_ok K C (move_last_runqueue K p s)"
    "marks_ok K s lv \<Longrightarrow> marks_ok K (move_last_runqueue K p s) lv" "mm_ok K base s \<Longrightarrow> mm_ok K base (move_last_runqueue K p s)"
    "set (list_elems K (runqueue (move_last_runqueue K p s))) = set (list_elems K (runqueue s))"
proof -
  let ?t = "move_last_runqueue K p s"
  from assms(2) have d: "distinct (list_elems K (runqueue s))" by (simp add: rq_ok_def)
  have q: "list_elems K (runqueue ?t) = remove1 p (list_elems K (runqueue s)) @ [p]"
    using rq_facts(2)[OF assms] by (simp add: move_last_runqueue_def)
  then show st: "set (list_elems K (runqueue ?t)) = set (list_elems K (runqueue s))" using d assms(3) by auto
  have len: "length (list_elems K (runqueue ?t)) = length (list_elems K (runqueue s))"
    using assms(3) length_pos_if_in_set[OF assms(3)] by (simp add: q length_remove1)
  have dist: "distinct (list_elems K (runqueue ?t))" using d by (simp add: q)
  have i: "idle_task K ?t = idle_task K s" "is_idle K ?t = is_idle K s"
    by (rule idle_task_cong, simp add: move_last_runqueue_def) (rule is_idle_cong, simp add: move_last_runqueue_def)
  have frame: "nr_running ?t = nr_running s" "cpu_curr ?t = cpu_curr s" "all_tasks ?t = all_tasks s"
    "mm_count ?t = mm_count s" "tasks ?t = (tasks s)(p := (tasks s p)\<lparr>t_on_list := True\<rparr>)"
    by (simp_all add: move_last_runqueue_def)
  show "rq_ok K ?t" using assms(2,3) dist by (auto simp: rq_ok_def st len frame)
  show "idles_ok K s \<Longrightarrow> idles_ok K ?t" unfolding idles_ok_def i st by (auto simp: frame)
  show "all_ok K s \<Longrightarrow> all_ok K ?t" unfolding all_ok_def st by (auto simp: frame task_ok_def)
  show "queued_ok K C s \<Longrightarrow> queued_ok K C ?t" unfolding queued_ok_def i st by (auto simp: frame)
  show "marks_ok K s lv \<Longrightarrow> marks_ok K ?t lv" unfolding marks_ok_def i by (auto simp: frame)
  show "mm_ok K base s \<Longrightarrow> mm_ok K base ?t" by (rule mm_ok_cong) (auto simp: frame)
qed

text \<open>A processor's current task leaves the queue: only its own processor may still name it.\<close>

lemma del_from_runqueue_ok:
  assumes "list_laws K" "rq_ok K s" "idles_ok K s" "p \<in> set (list_elems K (runqueue s))"
  shows "rq_ok K (del_from_runqueue K p s)" "idles_ok K (del_from_runqueue K p s)"
    "all_ok K s \<Longrightarrow> all_ok K (del_from_runqueue K p s)"
    "queued_ok K C s \<Longrightarrow> (\<And>c. c \<in> D \<Longrightarrow> c \<in> C \<and> cpu_curr s c \<noteq> p) \<Longrightarrow> queued_ok K D (del_from_runqueue K p s)"
    "marks_ok K s lv \<Longrightarrow> marks_ok K (del_from_runqueue K p s) lv" "mm_ok K base s \<Longrightarrow> mm_ok K base (del_from_runqueue K p s)"
proof -
  let ?t = "del_from_runqueue K p s"
  from assms(2) have d: "distinct (list_elems K (runqueue s))" by (simp add: rq_ok_def)
  have q: "list_elems K (runqueue ?t) = remove1 p (list_elems K (runqueue s))"
    using rq_facts(3)[OF assms(1,2,4)] by (simp add: del_from_runqueue_def)
  have p: "p \<noteq> init_task K" using assms(3,4) by (auto simp: idles_ok_def)
  have i: "idle_task K ?t = idle_task K s" "is_idle K ?t = is_idle K s"
    by (rule idle_task_cong, simp add: del_from_runqueue_def) (rule is_idle_cong, simp add: del_from_runqueue_def)
  have frame: "nr_running ?t = nr_running s - 1" "cpu_curr ?t = cpu_curr s" "all_tasks ?t = all_tasks s"
    "mm_count ?t = mm_count s"
    "tasks ?t = (tasks s)(p := (tasks s p)\<lparr>t_sleep_time := jiffies s, t_on_list := False\<rparr>)"
    by (simp_all add: del_from_runqueue_def)
  show "rq_ok K ?t" using assms(2,4) d p length_pos_if_in_set[OF assms(4)]
    by (auto simp: rq_ok_def q frame length_remove1 of_nat_diff Suc_le_eq)
  show "idles_ok K ?t" using assms(3) d unfolding idles_ok_def i q by (auto simp: frame)
  show "all_ok K s \<Longrightarrow> all_ok K ?t" using d unfolding all_ok_def q by (auto simp: frame task_ok_def)
  show "queued_ok K C s \<Longrightarrow> (\<And>c. c \<in> D \<Longrightarrow> c \<in> C \<and> cpu_curr s c \<noteq> p) \<Longrightarrow> queued_ok K D ?t"
    using d unfolding queued_ok_def i q by (auto simp: frame)
  show "marks_ok K s lv \<Longrightarrow> marks_ok K ?t lv" unfolding marks_ok_def i by (auto simp: frame)
  show "mm_ok K base s \<Longrightarrow> mm_ok K base ?t" by (rule mm_ok_cong) (auto simp: frame)
qed

end
