(* ===== verification/SchedRuns.thy ===== *)
theory SchedRuns
  imports SchedSmp
begin

text \<open>
  Every step of the multiprocessor system keeps the invariant of \<open>SchedSmp\<close>; what follows for the
  reachable states: a consistent run queue, no task on two processors, and \<open>schedule\<close> never stuck.
\<close>

section \<open>Waking, yielding, sleeping\<close>

lemma machine_marks:
  assumes "machine_ok K base m"
  shows "c \<in> cpus K \<Longrightarrow> t_processor (tasks (core m) (cpu_curr (core m) c)) = c"
    "c \<in> cpus K \<Longrightarrow> t_cpus_runnable (tasks (core m) (cpu_curr (core m) c)) = cpu_bit c"
    "leaving m c = Some p \<Longrightarrow> c \<in> cpus K" "leaving m c = Some p \<Longrightarrow> t_cpus_runnable (tasks (core m) p) = cpu_bit c"
    "leaving m c = Some p \<Longrightarrow> p \<noteq> cpu_curr (core m) c"
    "leaving m c = Some p \<Longrightarrow> is_idle K (core m) p \<Longrightarrow> p = idle_task K (core m) c"
  using assms unfolding machine_ok_def marks_ok_def by blast+

lemma cpus_bits:
  assumes "smp_ok K" "c \<in> cpus K" "d \<in> cpus K"
  shows "cpu_bit c = cpu_bit d \<longleftrightarrow> c = d"
  by (rule cpu_bit_inject) (use assms in \<open>auto simp: smp_ok_def\<close>)


lemma machine_ok_quiet:
  assumes "machine_ok K base m" "quiet K (core m) s"
  shows "machine_ok K base (m\<lparr>core := s\<rparr>)"
  using assms quiet_ok[OF assms(2)] by (simp add: machine_ok_def)

lemma wake_ok:
  assumes K: "smp_ok K" and m: "machine_ok K base m"
    and p: "p \<in> set (all_tasks (core m))" "\<not> is_idle K (core m) p"
  shows "machine_ok K base (m\<lparr>core := snd (try_to_wake_up K c p sync (core m))\<rparr>)"
proof -
  let ?s = "upd_task p (\<lambda>t. t\<lparr>t_state := TASK_RUNNING\<rparr>) (core m)"
  have q: "quiet K (core m) ?s" by (rule quiet_upd) (use p(2) in \<open>simp_all add: task_ok_def\<close>)
  note m' = machine_ok_quiet[OF m q]
  have i: "is_idle K ?s = is_idle K (core m)" by (rule is_idle_cong) simp
  show ?thesis
  proof (cases "task_on_runqueue ?s p")
    case True
    with m' show ?thesis by (simp add: try_to_wake_up_def Let_def)
  next
    case False
    let ?t = "add_to_runqueue K p ?s"
    let ?u = "if \<not> sync \<or> t_cpus_allowed (tasks ?t p) AND cpu_bit c = 0 then reschedule_idle K c p ?t else ?t"
    have laws: "list_laws K" using K by (simp add: smp_ok_def)
    have s: "rq_ok K ?s" "idles_ok K ?s" "all_ok K ?s" using m' by (simp_all add: machine_ok_def)
    note a = add_to_runqueue_ok[OF laws s, of p]
    have mt: "machine_ok K base (m\<lparr>core := ?t\<rparr>)"
      using m' p i False a by (simp add: machine_ok_def task_on_runqueue_def)
    have "quiet K (core (m\<lparr>core := ?t\<rparr>)) ?u" by (simp add: quiet_only_resched only_resched_idle)
    then have "machine_ok K base (m\<lparr>core := ?t\<rparr>\<lparr>core := ?u\<rparr>)" by (rule machine_ok_quiet[OF mt])
    moreover have "snd (try_to_wake_up K c p sync (core m)) = ?u"
      using False by (simp add: try_to_wake_up_def Let_def)
    ultimately show ?thesis by simp
  qed
qed

lemma yield_ok:
  assumes K: "smp_ok K" and m: "machine_ok K base m"
    and c: "c \<in> cpus K" "\<not> is_idle K (core m) (cpu_curr (core m) c)"
  shows "machine_ok K base (m\<lparr>core := snd (sys_sched_yield K (cpu_curr (core m) c) (core m))\<rparr>)"
proof (cases "nr_pending K (core m) = 0")
  case True
  then show ?thesis using m by (simp add: sys_sched_yield_def)
next
  case False
  let ?p = "cpu_curr (core m) c"
  let ?s = "if t_policy (tasks (core m) ?p) = SCHED_OTHER
    then upd_task ?p (\<lambda>t. t\<lparr>t_policy := t_policy t OR SCHED_YIELD\<rparr>) (core m) else core m"
  let ?t = "upd_task ?p (\<lambda>t. t\<lparr>t_need_resched := 1\<rparr>) ?s"
  have "quiet K (core m) ?s"
    using quiet_upd[of "\<lambda>t. t\<lparr>t_policy := t_policy t OR SCHED_YIELD\<rparr>" K "core m" ?p] c(2) by (simp add: task_ok_def)
  moreover have "quiet K ?s ?t" by (rule quiet_upd) (simp_all add: task_ok_def)
  ultimately have q: "quiet K (core m) ?t" by (rule quiet_trans)
  note m' = machine_ok_quiet[OF m q]
  have "?p \<in> set (list_elems K (runqueue (core m)))"
    using m c by (auto simp: machine_ok_def queued_ok_def is_idle_def)
  then have inq: "?p \<in> set (list_elems K (runqueue ?t))" by simp
  have laws: "list_laws K" using K by (simp add: smp_ok_def)
  have "rq_ok K ?t" using m' by (simp add: machine_ok_def)
  note mv = move_last_runqueue_ok[OF laws this inq]
  have "snd (sys_sched_yield K ?p (core m)) = move_last_runqueue K ?p ?t"
    using False by (simp add: sys_sched_yield_def Let_def)
  with m' mv show ?thesis by (simp add: machine_ok_def)
qed

section \<open>The tail of a switch\<close>

lemma tail_ok:
  assumes K: "smp_ok K" and m: "machine_ok K base m" and c: "c \<in> cpus K" and lv: "leaving m c = Some p"
  shows "machine_ok K base (m\<lparr>core := schedule_tail K c p (core m), leaving := (leaving m)(c := None)\<rparr>)"
proof -
  let ?s = "upd_task p (\<lambda>t. t\<lparr>t_policy := t_policy (tasks (core m) p) AND NOT SCHED_YIELD\<rparr>) (core m)"
  let ?t = "task_release_cpu p ?s"
  have "quiet K (core m) ?s" by (auto simp: quiet_def shape_def fun_eq_iff task_ok_def)
  note m' = machine_ok_quiet[OF m this]
  have other: "cpu_curr (core m) d \<noteq> p" if d: "d \<in> cpus K" for d
    using machine_marks(2)[OF m d] machine_marks(4,5)[OF m lv] cpus_bits[OF K d c] by auto
  have distinct: "leaving m d \<noteq> Some p" if "d \<noteq> c" for d
    using machine_marks(3,4)[OF m, of d p] machine_marks(4)[OF m lv] cpus_bits[OF K _ c, of d] that by auto
  have mt: "machine_ok K base (m\<lparr>core := ?t, leaving := (leaving m)(c := None)\<rparr>)"
  proof -
    have ms: "rq_ok K ?s" "idles_ok K ?s" "all_ok K ?s" "queued_ok K (cpus K) ?s" "marks_ok K ?s (leaving m)"
      "mm_ok K base ?s" using m' by (simp_all add: machine_ok_def)
    have fr: "runqueue ?t = runqueue ?s" "nr_running ?t = nr_running ?s" "cpu_curr ?t = cpu_curr ?s"
      "all_tasks ?t = all_tasks ?s" "mm_count ?t = mm_count ?s"
      "idle_task K ?t = idle_task K ?s" "is_idle K ?t = is_idle K ?s"
      "t_on_list (tasks ?t q) = t_on_list (tasks ?s q)" "t_state (tasks ?t q) = t_state (tasks ?s q)"
      "t_policy (tasks ?t q) = t_policy (tasks ?s q)" "task_ok (tasks ?t q) = task_ok (tasks ?s q)" for q
      by (simp_all add: task_release_cpu_def task_ok_def)
    have "rq_ok K ?t" using ms(1) unfolding rq_ok_def fr .
    moreover have "idles_ok K ?t" using ms(2) unfolding idles_ok_def fr .
    moreover have "all_ok K ?t" using ms(3) unfolding all_ok_def fr .
    moreover have "queued_ok K (cpus K) ?t" using ms(4) unfolding queued_ok_def fr .
    moreover have "marks_ok K ?t ((leaving m)(c := None))"
      unfolding marks_ok_def
    proof (intro conjI ballI allI impI)
      fix d q assume "((leaving m)(c := None)) d = Some q"
      then have q: "leaving m d = Some q" "q \<noteq> p" using distinct by (auto split: if_splits)
      note q' = machine_marks(3-6)[OF m q(1)]
      show "d \<in> cpus K" "q \<noteq> cpu_curr ?t d" using q' by (simp_all add: task_release_cpu_def)
      show "t_cpus_runnable (tasks ?t q) = cpu_bit d" using q' q(2) by (simp add: task_release_cpu_def)
      show "q = idle_task K ?t d" if "is_idle K ?t q" using q' that by (simp add: task_release_cpu_def)
    next
      fix d assume "d \<in> cpus K"
      with machine_marks(1,2)[OF m this] other[OF this]
      show "t_processor (tasks ?t (cpu_curr ?t d)) = d" "t_cpus_runnable (tasks ?t (cpu_curr ?t d)) = cpu_bit d"
        by (simp_all add: task_release_cpu_def)
    qed
    moreover have "mm_ok K base ?t" by (rule mm_ok_cong[OF _ _ _ _ ms(6)]) (auto simp: task_release_cpu_def)
    ultimately show ?thesis by (simp add: machine_ok_def)
  qed
  have "only_resched ?t (schedule_tail K c p (core m))"
    using K by (simp add: schedule_tail_def smp_ok_def Let_def only_resched_idle)
  then have "quiet K (core (m\<lparr>core := ?t, leaving := (leaving m)(c := None)\<rparr>)) (schedule_tail K c p (core m))"
    by (simp add: quiet_only_resched)
  from machine_ok_quiet[OF mt this] show ?thesis by (simp add: machine_ok_def)
qed

section \<open>The choice and the switch\<close>

text \<open>After \<open>schedule_start\<close> only the processor itself may have a current task outside the queue.\<close>

definition core_ok :: "'q kernel \<Rightarrow> (ptr \<Rightarrow> int) \<Rightarrow> nat set \<Rightarrow> (nat \<Rightarrow> ptr option) \<Rightarrow> 'q sched \<Rightarrow> bool" where
  "core_ok K base C lv s \<longleftrightarrow> rq_ok K s \<and> idles_ok K s \<and> all_ok K s \<and> queued_ok K C s \<and> marks_ok K s lv \<and> mm_ok K base s"

lemma machine_ok_core: "machine_ok K base m \<longleftrightarrow> core_ok K base (cpus K) (leaving m) (core m)"
  by (simp add: machine_ok_def core_ok_def)

lemma core_ok_quiet: "core_ok K base C lv s \<Longrightarrow> quiet K s s' \<Longrightarrow> core_ok K base C lv s'"
  using quiet_ok[of K s s'] by (simp add: core_ok_def)

lemma core_ok_without: "core_ok K base C lv s \<Longrightarrow> core_ok K base (C - D) lv s"
  by (auto simp: core_ok_def queued_ok_def)

lemma core_ok_queued:
  assumes "core_ok K base (cpus K) lv s" "c \<in> cpus K" "\<not> is_idle K s (cpu_curr s c)"
  shows "cpu_curr s c \<in> set (list_elems K (runqueue s))"
  using assms by (auto simp: core_ok_def queued_ok_def is_idle_def)

lemma sleep_ok:
  assumes laws: "list_laws K" and s: "core_ok K base (cpus K) lv s"
    and c: "c \<in> cpus K" and only: "\<And>d. d \<in> cpus K \<Longrightarrow> d \<noteq> c \<Longrightarrow> cpu_curr s d \<noteq> cpu_curr s c"
  shows "core_ok K base (cpus K - {c}) lv (schedule_sleep K (cpu_curr s c) s)"
proof -
  let ?p = "cpu_curr s c" and ?t = "schedule_sleep K (cpu_curr s c) s"
  consider (stay) "?t = s"
    | (signal) "?t = upd_task ?p (\<lambda>t. t\<lparr>t_state := TASK_RUNNING\<rparr>) s" "\<not> is_idle K s ?p"
    | (sleep) "?t = del_from_runqueue K ?p s" "\<not> is_idle K s ?p"
  proof (cases "is_idle K s ?p")
    case True
    then have "?t = s" using s by (simp add: core_ok_def idles_ok_def schedule_sleep_def)
    with stay show ?thesis .
  next
    case False
    then show ?thesis using stay signal sleep unfolding schedule_sleep_def by metis
  qed
  then show ?thesis
  proof cases
    case stay
    with s show ?thesis by (simp add: core_ok_without)
  next
    case signal
    then have "quiet K s ?t" by (simp only: signal(1)) (rule quiet_upd, simp_all add: task_ok_def)
    with s show ?thesis by (blast intro: core_ok_quiet core_ok_without)
  next
    case sleep
    from s have parts: "rq_ok K s" "idles_ok K s" "queued_ok K (cpus K) s" by (simp_all add: core_ok_def)
    note d = del_from_runqueue_ok[OF laws parts(1,2) core_ok_queued[OF s c sleep(2)]]
    have "queued_ok K (cpus K - {c}) (del_from_runqueue K ?p s)" by (rule d(4)[OF parts(3)]) (use only in auto)
    with s d show ?thesis unfolding sleep(1) by (simp add: core_ok_def)
  qed
qed

lemma curr_inject:
  assumes "core_ok K base C lv s" "c \<in> cpus K" "d \<in> cpus K" "cpu_curr s c = cpu_curr s d"
  shows "c = d"
  using assms unfolding core_ok_def marks_ok_def by metis

lemma schedule_start_ok:
  assumes K: "smp_ok K" and s: "core_ok K base (cpus K) lv s" and c: "c \<in> cpus K"
  shows "core_ok K base (cpus K - {c}) lv (schedule_start K (cpu_curr s c) s)"
    and "t_active_mm (tasks (schedule_start K (cpu_curr s c) s) p) = t_active_mm (tasks s p)"
    and "t_mm (tasks (schedule_start K (cpu_curr s c) s) p) = t_mm (tasks s p)"
    and "cpu_curr (schedule_start K (cpu_curr s c) s) = cpu_curr s"
    and "all_tasks (schedule_start K (cpu_curr s c) s) = all_tasks s"
    and "init_tasks (schedule_start K (cpu_curr s c) s) = init_tasks s"
proof -
  let ?p = "cpu_curr s c"
  let ?r = "upd_task ?p (\<lambda>t. t\<lparr>t_counter := NICE_TO_TICKS K (t_nice t)\<rparr>) s"
  define u where "u = (if t_policy (tasks s ?p) = SCHED_RR \<and> t_counter (tasks s ?p) = 0
    then move_last_runqueue K ?p ?r else s)"
  have laws: "list_laws K" using K by (simp add: smp_ok_def)
  have cu: "cpu_curr u = cpu_curr s" by (simp add: u_def move_last_runqueue_def)
  have "core_ok K base (cpus K) lv u"
  proof (cases "t_policy (tasks s ?p) = SCHED_RR \<and> t_counter (tasks s ?p) = 0")
    case True
    then have "\<not> is_idle K s ?p" using s by (auto simp: core_ok_def idles_ok_def)
    from core_ok_queued[OF s c this] have q: "?p \<in> set (list_elems K (runqueue ?r))" by simp
    have "quiet K s ?r"
      by (rule quiet_upd) (use NICE_TO_TICKS_bounds[of _ K] in \<open>force simp: task_ok_def\<close>)+
    with s have r: "core_ok K base (cpus K) lv ?r" by (rule core_ok_quiet)
    then have "rq_ok K ?r" by (simp add: core_ok_def)
    note m = move_last_runqueue_ok[OF laws this q]
    from r m True show ?thesis by (simp add: core_ok_def u_def)
  next
    case False
    then have "u = s" unfolding u_def by (rule if_not_P)
    with s show ?thesis by simp
  qed
  then have "core_ok K base (cpus K - {c}) lv (schedule_sleep K (cpu_curr u c) u)"
    by (rule sleep_ok[OF laws _ c]) (use curr_inject[OF s _ c] cu in auto)
  then have t: "core_ok K base (cpus K - {c}) lv (schedule_sleep K ?p u)" by (simp add: cu)
  have st: "schedule_start K ?p s = upd_task ?p (\<lambda>t. t\<lparr>t_need_resched := 0\<rparr>) (schedule_sleep K ?p u)"
    by (simp add: schedule_start_def u_def Let_def)
  have "quiet K (schedule_sleep K ?p u) (schedule_start K ?p s)"
    unfolding st by (rule quiet_upd) (simp_all add: task_ok_def)
  with t show "core_ok K base (cpus K - {c}) lv (schedule_start K ?p s)" by (rule core_ok_quiet)
  show "t_active_mm (tasks (schedule_start K ?p s) p) = t_active_mm (tasks s p)"
    "t_mm (tasks (schedule_start K ?p s) p) = t_mm (tasks s p)"
    "cpu_curr (schedule_start K ?p s) = cpu_curr s" "all_tasks (schedule_start K ?p s) = all_tasks s"
    "init_tasks (schedule_start K ?p s) = init_tasks s"
    by (auto simp: st u_def schedule_sleep_def move_last_runqueue_def del_from_runqueue_def)
qed

text \<open>A task that may be chosen is current or being left nowhere else.\<close>

lemma chosen_free:
  assumes K: "smp_ok K" and s: "core_ok K base (cpus K - {c}) lv s" and c: "c \<in> cpus K" and lv: "lv c = None"
    and p: "chosen K c mm s p"
  shows "p = idle_task K s c \<or> p \<in> set (list_elems K (runqueue s))"
    and "d \<in> cpus K \<Longrightarrow> d \<noteq> c \<Longrightarrow> cpu_curr s d \<noteq> p" and "lv d \<noteq> Some p"
proof -
  have cases: "p = idle_task K s c \<or> p \<in> set (list_elems K (runqueue s)) \<and> t_cpus_runnable (tasks s p) AND cpu_bit c \<noteq> 0"
  proof (cases "filter (\<lambda>p. can_schedule K (tasks s p) c) (list_elems K (runqueue s)) = []")
    case True
    with p show ?thesis by (simp add: chosen_def)
  next
    case False
    with p have "p \<in> set (filter (\<lambda>p. can_schedule K (tasks s p) c) (list_elems K (runqueue s)))"
      by (intro first_max_in) (auto simp: chosen_def Let_def)
    then have q: "p \<in> set (list_elems K (runqueue s))" "can_schedule K (tasks s p) c" by auto
    with K have "t_cpus_runnable (tasks s p) AND t_cpus_allowed (tasks s p) AND cpu_bit c \<noteq> 0"
      by (simp add: can_schedule_def smp_ok_def)
    then have "t_cpus_runnable (tasks s p) AND cpu_bit c \<noteq> 0" by (auto simp: and.left_commute[of "t_cpus_runnable (tasks s p)"])
    with q show ?thesis by simp
  qed
  then show "p = idle_task K s c \<or> p \<in> set (list_elems K (runqueue s))" by blast
  have bit: "d = c" if "d \<in> cpus K" "t_cpus_runnable (tasks s p) = cpu_bit d" "t_cpus_runnable (tasks s p) AND cpu_bit c \<noteq> 0" for d
    using cpu_bit_and[of d c] K c that by (auto simp: smp_ok_def)
  have idle: "p \<notin> set (list_elems K (runqueue s))" if "is_idle K s p" using s that by (auto simp: core_ok_def idles_ok_def)
  show "cpu_curr s d \<noteq> p" if d: "d \<in> cpus K" "d \<noteq> c"
  proof
    assume eq: "cpu_curr s d = p"
    then have mark: "t_cpus_runnable (tasks s p) = cpu_bit d" using s d(1) by (auto simp: core_ok_def marks_ok_def)
    have "cpu_curr s d = idle_task K s d \<or> cpu_curr s d \<in> set (list_elems K (runqueue s))"
      using s d by (auto simp: core_ok_def queued_ok_def)
    moreover have "idle_task K s d \<noteq> idle_task K s c" using s c d by (auto simp: core_ok_def idles_ok_def inj_on_def)
    moreover have "is_idle K s (idle_task K s d)" "is_idle K s (idle_task K s c)" using c d by (simp_all add: is_idle_def)
    ultimately show False using cases bit[OF d(1) mark] d(2) idle eq by metis
  qed
  show "lv d \<noteq> Some p"
  proof
    assume eq: "lv d = Some p"
    then have d: "d \<in> cpus K" "t_cpus_runnable (tasks s p) = cpu_bit d" "is_idle K s p \<Longrightarrow> p = idle_task K s d" "d \<noteq> c"
      using s lv by (auto simp: core_ok_def marks_ok_def)
    have "is_idle K s (idle_task K s c)" using c by (simp add: is_idle_def)
    moreover have "idle_task K s d \<noteq> idle_task K s c" using s c d by (auto simp: core_ok_def idles_ok_def inj_on_def)
    ultimately show False using cases bit[OF d(1,2)] d(3,4) by metis
  qed
qed

text \<open>What a switch between two tasks does, when neither \<open>BUG_ON\<close> fires.\<close>

lemma schedule_switch_explicit:
  fixes s :: "'q sched"
  assumes "prev \<noteq> p" and "if t_mm (tasks s p) = 0 then t_active_mm (tasks s p) = 0
      else t_active_mm (tasks s p) = t_mm (tasks s p)"
  obtains s' where "schedule_switch K c prev p s = Inr s'"
    and "cpu_curr s' = (cpu_curr s)(c := p)" "runqueue s' = runqueue s" "nr_running s' = nr_running s"
    "init_tasks s' = init_tasks s" "all_tasks s' = all_tasks s"
    and "\<And>q. q \<noteq> p \<Longrightarrow> q \<noteq> prev \<Longrightarrow> tasks s' q = tasks s q"
    and "tasks s' prev = (if t_mm (tasks s prev) = 0 then tasks s prev\<lparr>t_active_mm := 0\<rparr> else tasks s prev)"
    and "tasks s' p = tasks s p\<lparr>t_processor := c, t_cpus_runnable := cpu_bit c, t_active_mm :=
        (if t_mm (tasks s p) = 0 then t_active_mm (tasks s prev) else t_active_mm (tasks s p))\<rparr>"
    and "\<And>a. mm_count s' a = mm_count s a
        + (if t_mm (tasks s p) = 0 \<and> a = t_active_mm (tasks s prev) then 1 else 0)
        - (if t_mm (tasks s prev) = 0 \<and> a = t_active_mm (tasks s prev) then 1 else 0)"
proof -
  have "\<exists>s'. schedule_switch K c prev p s = Inr s'" using assms
    by (simp add: schedule_switch_def switch_address_space_def task_set_cpu_def Let_def)
  then obtain s' where s': "schedule_switch K c prev p s = Inr s'" by blast
  show ?thesis
    by (rule that[OF s'])
      (use s' assms in \<open>auto simp: schedule_switch_def switch_address_space_def task_set_cpu_def Let_def
          split: if_splits\<close>)
qed

lemma borrowers_switch:
  assumes c: "c \<in> cpus K" and "cpu_curr s' = (cpu_curr s)(c := p)"
    and "\<And>d. d \<in> cpus K \<Longrightarrow> d \<noteq> c \<Longrightarrow> tasks s' (cpu_curr s d) = tasks s (cpu_curr s d)"
  shows "borrowers K s' a - (if t_mm (tasks s' p) = 0 \<and> t_active_mm (tasks s' p) = a then 1 else 0) =
    borrowers K s a - (if t_mm (tasks s (cpu_curr s c)) = 0 \<and> t_active_mm (tasks s (cpu_curr s c)) = a then 1 else 0)"
proof -
  have "(\<Sum>d\<in>cpus K - {c}. if t_mm (tasks s' (cpu_curr s' d)) = 0 \<and> t_active_mm (tasks s' (cpu_curr s' d)) = a then 1 else 0)
    = (\<Sum>d\<in>cpus K - {c}. if t_mm (tasks s (cpu_curr s d)) = 0 \<and> t_active_mm (tasks s (cpu_curr s d)) = a then 1 else (0::int))"
    by (rule sum.cong) (use assms in auto)
  then show ?thesis
    using sum.remove[OF _ c, of "\<lambda>d. if t_mm (tasks s (cpu_curr s d)) = 0 \<and> t_active_mm (tasks s (cpu_curr s d)) = a then 1 else (0::int)"]
      sum.remove[OF _ c, of "\<lambda>d. if t_mm (tasks s' (cpu_curr s' d)) = 0 \<and> t_active_mm (tasks s' (cpu_curr s' d)) = a then 1 else (0::int)"]
    unfolding borrowers_def assms(2) by simp
qed

lemma core_ok_all_queued:
  assumes "core_ok K base (cpus K - {c}) lv s" "cpu_curr s c = idle_task K s c \<or> cpu_curr s c \<in> set (list_elems K (runqueue s))"
  shows "core_ok K base (cpus K) lv s"
  using assms by (auto simp: core_ok_def queued_ok_def)

lemma schedule_switch_same:
  assumes s: "core_ok K base (cpus K - {c}) lv s" and c: "c \<in> cpus K" and p: "cpu_curr s c = p"
    "p = idle_task K s c \<or> p \<in> set (list_elems K (runqueue s))"
  obtains s' where "schedule_switch K c p p s = Inr s'" "core_ok K base (cpus K) lv s'" "cpu_curr s' = cpu_curr s"
proof -
  let ?s' = "upd_task p (\<lambda>t. t\<lparr>t_policy := t_policy t AND NOT SCHED_YIELD\<rparr>)
    (task_set_cpu p c (s\<lparr>cpu_curr := (cpu_curr s)(c := p)\<rparr>))"
  have m: "t_processor (tasks s p) = c" "t_cpus_runnable (tasks s p) = cpu_bit c"
    using s c p(1) by (auto simp: core_ok_def marks_ok_def)
  have "shape ?s' = shape s" using p(1) m by (auto simp: shape_def task_set_cpu_def fun_eq_iff)
  then have "quiet K s ?s'" by (auto simp: quiet_def task_set_cpu_def task_ok_def)
  with core_ok_all_queued[OF s] p have "core_ok K base (cpus K) lv ?s'" by (blast intro: core_ok_quiet)
  moreover have "cpu_curr ?s' = cpu_curr s" using p(1) by (auto simp: task_set_cpu_def)
  ultimately show ?thesis using that[of ?s'] by (simp add: schedule_switch_def Let_def)
qed

lemma schedule_switch_other:
  assumes K: "smp_ok K" and s: "core_ok K base (cpus K - {c}) lv s" and c: "c \<in> cpus K" and lv: "lv c = None"
    and prev: "cpu_curr s c = prev" "is_idle K s prev \<Longrightarrow> prev = idle_task K s c"
    and p: "chosen K c mm s p" "p \<noteq> prev"
  obtains s' where "schedule_switch K c prev p s = Inr s'" "core_ok K base (cpus K) (lv(c := Some prev)) s'"
    "cpu_curr s' = (cpu_curr s)(c := p)"
proof -
  from s have parts: "rq_ok K s" "idles_ok K s" "all_ok K s" "marks_ok K s lv" "mm_ok K base s" by (simp_all add: core_ok_def)
  note free = chosen_free[OF K s c lv p(1)]
  have others: "cpu_curr s d \<noteq> p \<and> cpu_curr s d \<noteq> prev" if "d \<in> cpus K" "d \<noteq> c" for d
  proof
    show "cpu_curr s d \<noteq> p" by (rule free(2)) (use that in simp_all)
    show "cpu_curr s d \<noteq> prev" using curr_inject[OF s that(1) c] prev(1) that(2) by auto
  qed
  have lvs: "q \<noteq> p \<and> q \<noteq> prev" if "lv d = Some q" for d q
  proof
    show "q \<noteq> p" using free(3)[of d] that by auto
    have "d \<in> cpus K" "t_cpus_runnable (tasks s q) = cpu_bit d" "q \<noteq> cpu_curr s d"
      using parts(4) that by (auto simp: marks_ok_def)
    moreover have "t_cpus_runnable (tasks s prev) = cpu_bit c" using parts(4) c prev(1) by (auto simp: marks_ok_def)
    ultimately show "q \<noteq> prev" using cpus_bits[OF K _ c, of d] prev(1) by auto
  qed
  have idle: "p \<notin> cpu_curr s ` cpus K"
  proof
    assume "p \<in> cpu_curr s ` cpus K"
    then obtain d where "d \<in> cpus K" "p = cpu_curr s d" by blast
    with others[of d] p(2) prev(1) show False by auto
  qed
  have bug: "if t_mm (tasks s p) = 0 then t_active_mm (tasks s p) = 0 else t_active_mm (tasks s p) = t_mm (tasks s p)"
    using parts(5) idle by (auto simp: mm_ok_def)
  obtain s' where s': "schedule_switch K c prev p s = Inr s'"
    and cc: "cpu_curr s' = (cpu_curr s)(c := p)" and fr: "runqueue s' = runqueue s" "nr_running s' = nr_running s"
      "init_tasks s' = init_tasks s" "all_tasks s' = all_tasks s"
    and rest: "\<And>q. q \<noteq> p \<Longrightarrow> q \<noteq> prev \<Longrightarrow> tasks s' q = tasks s q"
    and tprev: "tasks s' prev = (if t_mm (tasks s prev) = 0 then tasks s prev\<lparr>t_active_mm := 0\<rparr> else tasks s prev)"
    and tp: "tasks s' p = tasks s p\<lparr>t_processor := c, t_cpus_runnable := cpu_bit c, t_active_mm :=
        (if t_mm (tasks s p) = 0 then t_active_mm (tasks s prev) else t_active_mm (tasks s p))\<rparr>"
    and count: "\<And>a. mm_count s' a = mm_count s a
        + (if t_mm (tasks s p) = 0 \<and> a = t_active_mm (tasks s prev) then 1 else 0)
        - (if t_mm (tasks s prev) = 0 \<and> a = t_active_mm (tasks s prev) then 1 else 0)"
    by (rule schedule_switch_explicit[OF p(2)[symmetric] bug]) (rule that)
  have i: "idle_task K s' = idle_task K s" "is_idle K s' = is_idle K s"
    by (rule idle_task_cong, simp add: fr) (rule is_idle_cong, simp add: fr)
  have t: "t_on_list (tasks s' q) = t_on_list (tasks s q)" "t_state (tasks s' q) = t_state (tasks s q)"
    "t_policy (tasks s' q) = t_policy (tasks s q)" "task_ok (tasks s' q) = task_ok (tasks s q)"
    "t_mm (tasks s' q) = t_mm (tasks s q)" for q
  proof -
    consider "q = p" | "q = prev" | "q \<noteq> p" "q \<noteq> prev" by blast
    then have "t_on_list (tasks s' q) = t_on_list (tasks s q) \<and> t_state (tasks s' q) = t_state (tasks s q)
      \<and> t_policy (tasks s' q) = t_policy (tasks s q) \<and> task_ok (tasks s' q) = task_ok (tasks s q)
      \<and> t_mm (tasks s' q) = t_mm (tasks s q)"
      by cases (simp_all add: tp tprev rest task_ok_def)
    then show "t_on_list (tasks s' q) = t_on_list (tasks s q)" "t_state (tasks s' q) = t_state (tasks s q)"
      "t_policy (tasks s' q) = t_policy (tasks s q)" "task_ok (tasks s' q) = task_ok (tasks s q)"
      "t_mm (tasks s' q) = t_mm (tasks s q)" by simp_all
  qed
  have "rq_ok K s'" using parts(1) unfolding rq_ok_def fr t .
  moreover have "idles_ok K s'" using parts(2) unfolding idles_ok_def fr i t .
  moreover have "all_ok K s'" using parts(3) unfolding all_ok_def fr t .
  moreover have "queued_ok K (cpus K) s'"
    using s free(1) unfolding queued_ok_def core_ok_def fr i cc by auto
  moreover have "marks_ok K s' (lv(c := Some prev))"
    unfolding marks_ok_def
  proof (intro conjI ballI allI impI)
    fix d assume d: "d \<in> cpus K"
    have old: "t_processor (tasks s (cpu_curr s d)) = d" "t_cpus_runnable (tasks s (cpu_curr s d)) = cpu_bit d"
      using parts(4) d unfolding marks_ok_def by blast+
    show "t_processor (tasks s' (cpu_curr s' d)) = d" "t_cpus_runnable (tasks s' (cpu_curr s' d)) = cpu_bit d"
      using old others[OF d] rest[of "cpu_curr s d"] tp by (cases "d = c"; simp add: cc)+
  next
    fix d q assume "(lv(c := Some prev)) d = Some q"
    then consider "d = c" "q = prev" | "d \<noteq> c" "lv d = Some q" by (auto split: if_splits)
    then have "d \<in> cpus K \<and> t_cpus_runnable (tasks s' q) = cpu_bit d \<and> q \<noteq> cpu_curr s' d
        \<and> (is_idle K s' q \<longrightarrow> q = idle_task K s' d)"
    proof cases
      case 1
      have "t_cpus_runnable (tasks s prev) = cpu_bit c" using parts(4) c prev(1) by (auto simp: marks_ok_def)
      with 1 c p(2) prev(2) tprev show ?thesis by (simp add: cc i)
    next
      case 2
      with lvs[of d q] rest[of q] parts(4) show ?thesis by (simp add: cc i marks_ok_def)
    qed
    then show "d \<in> cpus K" "t_cpus_runnable (tasks s' q) = cpu_bit d" "q \<noteq> cpu_curr s' d"
      "is_idle K s' q \<Longrightarrow> q = idle_task K s' d" by simp_all
  qed
  moreover have "mm_ok K base s'"
  proof -
    have A: "t_active_mm (tasks s prev) \<noteq> 0" using parts(5) c prev(1) by (auto simp: mm_ok_def)
    have img: "q \<in> cpu_curr s' ` cpus K \<longleftrightarrow> q = p \<or> q \<noteq> prev \<and> q \<in> cpu_curr s ` cpus K" for q
      using c others prev(1) p(2) by (auto simp: cc image_iff)
    have "(t_mm (tasks s' q) \<noteq> 0 \<longrightarrow> t_active_mm (tasks s' q) = t_mm (tasks s' q))
        \<and> (t_mm (tasks s' q) = 0 \<longrightarrow> t_active_mm (tasks s' q) \<noteq> 0 \<longleftrightarrow> q \<in> cpu_curr s' ` cpus K)" for q
    proof -
      have "(t_mm (tasks s q) \<noteq> 0 \<longrightarrow> t_active_mm (tasks s q) = t_mm (tasks s q))
          \<and> (t_mm (tasks s q) = 0 \<longrightarrow> t_active_mm (tasks s q) \<noteq> 0 \<longleftrightarrow> q \<in> cpu_curr s ` cpus K)"
        using parts(5) by (simp add: mm_ok_def)
      then show ?thesis unfolding img t(5)
        using A p(2) by (cases "q = p"; cases "q = prev") (simp_all add: tp tprev rest)
    qed
    moreover have "mm_count s' a = base a + borrowers K s' a" for a
    proof -
      have "mm_count s a = base a + borrowers K s a" using parts(5) by (simp add: mm_ok_def)
      moreover have "borrowers K s' a - (if t_mm (tasks s' p) = 0 \<and> t_active_mm (tasks s' p) = a then 1 else 0) =
          borrowers K s a - (if t_mm (tasks s (cpu_curr s c)) = 0 \<and> t_active_mm (tasks s (cpu_curr s c)) = a then 1 else 0)"
        by (rule borrowers_switch[OF c cc]) (use others rest in auto)
      ultimately show ?thesis using count[of a] prev(1) tp by (auto split: if_splits)
    qed
    ultimately show ?thesis by (simp add: mm_ok_def)
  qed
  ultimately have core: "core_ok K base (cpus K) (lv(c := Some prev)) s'" by (simp add: core_ok_def)
  show ?thesis by (rule that[OF s' core cc])
qed

section \<open>One pass of \<open>schedule\<close>\<close>

text \<open>The state in which the choice is made: after the sleep, and after the refill if there is one.\<close>

definition deciding :: "'q kernel \<Rightarrow> nat \<Rightarrow> ptr \<Rightarrow> 'q sched \<Rightarrow> 'q sched" where
  "deciding K c prev s =
     (let t = schedule_start K prev s
      in if out_of_time K c (t_active_mm (tasks s prev)) t then recalculate K t else t)"

lemma pass_ok:
  assumes K: "smp_ok K" and m: "machine_ok K base m" and c: "c \<in> cpus K" and lv: "leaving m c = None"
  obtains nxt s' where
    "schedule_pass K (\<lambda>s. Inr (recalculate K s)) False (cpu_curr (core m) c) (core m) = Some (Inr (nxt, s'))"
    "chosen K c (t_active_mm (tasks (core m) (cpu_curr (core m) c))) (deciding K c (cpu_curr (core m) c) (core m)) nxt"
    "machine_ok K base (m\<lparr>core := s',
        leaving := (leaving m)(c := if cpu_curr (core m) c = nxt then None else Some (cpu_curr (core m) c))\<rparr>)"
    "cpu_curr s' = (cpu_curr (core m))(c := nxt)"
proof -
  let ?s = "core m" and ?prev = "cpu_curr (core m) c"
  let ?mm = "t_active_mm (tasks ?s ?prev)" and ?t = "schedule_start K ?prev ?s" and ?u = "deciding K c ?prev ?s"
  have s: "core_ok K base (cpus K) (leaving m) ?s" using m by (simp add: machine_ok_core)
  note t = schedule_start_ok[OF K s c]
  have tok: "tasks_ok K ?t" using t(1) by (auto simp: core_ok_def all_ok_def tasks_ok_def)
  have pen: "penalty_ok K" using K by (simp add: smp_ok_def)
  from repeat_schedule_stock[OF tok pen, of c ?mm] obtain nxt where
    r: "repeat_schedule K (\<lambda>s. Inr (recalculate K s)) c ?mm ?t = Some (Inr (nxt, ?u))" and ch: "chosen K c ?mm ?u nxt"
    by (auto simp: deciding_def Let_def)
  have "quiet K ?t ?u"
    using quiet_recalculate[of ?t K K] tok by (simp add: deciding_def tasks_ok_def Let_def)
  with t(1) have u: "core_ok K base (cpus K - {c}) (leaving m) ?u" by (rule core_ok_quiet)
  have cu: "cpu_curr ?u = cpu_curr ?s" "init_tasks ?u = init_tasks ?s" using t(4,6) by (auto simp: deciding_def Let_def)
  have idle: "idle_task K ?u = idle_task K ?s" "is_idle K ?u = is_idle K ?s"
    using cu(2) by (auto intro: idle_task_cong is_idle_cong)
  have pi: "?prev = idle_task K ?u c" if "is_idle K ?u ?prev"
    using s c that by (auto simp: core_ok_def queued_ok_def idles_ok_def idle)
  have proc: "t_processor (tasks ?s ?prev) = c" using machine_marks(1)[OF m c] .
  have pass: "schedule_pass K (\<lambda>s. Inr (recalculate K s)) False ?prev ?s =
      (case schedule_switch K c ?prev nxt ?u of Inl e \<Rightarrow> Some (Inl e) | Inr s'' \<Rightarrow> Some (Inr (nxt, s'')))"
    by (simp add: schedule_pass_def proc r)
  show ?thesis
  proof (cases "nxt = ?prev")
    case True
    have "nxt = idle_task K ?u c \<or> nxt \<in> set (list_elems K (runqueue ?u))" by (rule chosen_free(1)[OF K u c lv ch])
    then obtain s' where s': "schedule_switch K c nxt nxt ?u = Inr s'" "core_ok K base (cpus K) (leaving m) s'" "cpu_curr s' = cpu_curr ?u"
      using schedule_switch_same[OF u c, of nxt] True cu(1) by metis
    have "leaving m = (leaving m)(c := None)" using lv by auto
    with s'(2) have "machine_ok K base (m\<lparr>core := s', leaving := (leaving m)(c := None)\<rparr>)"
      by (simp add: machine_ok_core)
    with True pass s' cu(1) ch show ?thesis by (intro that[of nxt s']) auto
  next
    case False
    obtain s' where s': "schedule_switch K c ?prev nxt ?u = Inr s'" "core_ok K base (cpus K) ((leaving m)(c := Some ?prev)) s'"
      "cpu_curr s' = (cpu_curr ?u)(c := nxt)"
      by (rule schedule_switch_other[OF K u c lv _ pi ch False]) (use cu(1) in auto)
    with False pass cu(1) ch show ?thesis by (intro that[of nxt s']) (auto simp: machine_ok_core)
  qed
qed

section \<open>All steps\<close>

lemma machine_step_ok:
  assumes K: "smp_ok K" and m: "machine_ok K base m" and st: "machine_step K e m = Some m'"
  shows "machine_ok K base m'"
proof (cases e)
  case (Pick c)
  with st have c: "c \<in> cpus K" "leaving m c = None" by (auto simp: Let_def split: if_splits)
  from pass_ok[OF K m c] obtain nxt s' where
    p: "schedule_pass K (\<lambda>s. Inr (recalculate K s)) False (cpu_curr (core m) c) (core m) = Some (Inr (nxt, s'))"
    "machine_ok K base (m\<lparr>core := s',
        leaving := (leaving m)(c := if cpu_curr (core m) c = nxt then None else Some (cpu_curr (core m) c))\<rparr>)" .
  with st Pick c show ?thesis by (auto simp: Let_def)
next
  case (Tail c)
  with st obtain p where p: "leaving m c = Some p" "c \<in> cpus K" by (auto split: option.splits if_splits)
  from tail_ok[OF K m p(2,1)] st Tail p show ?thesis by auto
next
  case (Wake c p sync)
  with st have p: "p \<in> set (all_tasks (core m))" "\<not> is_idle K (core m) p" by (auto split: if_splits)
  from wake_ok[OF K m p] st Wake show ?thesis by (auto split: if_splits)
next
  case (Yield c)
  with st have p: "c \<in> cpus K" "\<not> is_idle K (core m) (cpu_curr (core m) c)" by (auto split: if_splits)
  from yield_ok[OF K m p] st Yield show ?thesis by (auto split: if_splits)
next
  case (Sleep c x)
  with st have p: "\<not> is_idle K (core m) (cpu_curr (core m) c)"
    and m': "m' = m\<lparr>core := upd_task (cpu_curr (core m) c) (\<lambda>t. t\<lparr>t_state := x\<rparr>) (core m)\<rparr>" by (auto split: if_splits)
  show ?thesis unfolding m'
    by (rule machine_ok_quiet[OF m], rule quiet_upd) (use p in \<open>simp_all add: task_ok_def\<close>)
next
  case (Change p a n pol rt sig)
  with st have p: "\<not> is_idle K (core m) p" "0 \<le> a" "a \<le> 322" "nice_ok n" "0 \<le> rt" "rt \<le> 99"
    and m': "m' = m\<lparr>core := change_task p a n pol rt sig (core m)\<rparr>" by (auto split: if_splits)
  show ?thesis unfolding m' change_task_def
    by (rule machine_ok_quiet[OF m], rule quiet_upd) (use p in \<open>simp_all add: task_ok_def\<close>)
qed

lemma machine_reachable_ok:
  assumes "smp_ok K" "machine_ok K base m\<^sub>0" "machine_reachable K m\<^sub>0 m"
  shows "machine_ok K base m"
  using assms(3) by (induction rule: machine_reachable.induct) (use assms(1,2) machine_step_ok in blast)+

section \<open>What holds in every reachable state\<close>

text \<open>
  C3: no task runs on two processors. In every state reachable from a consistent one, whatever the
  processors do in whatever order, two processors have different current tasks, and no processor
  runs or picks up a task whose registers another one has not yet saved.
\<close>

theorem no_task_on_two_cpus:
  assumes "smp_ok K" "machine_ok K base m\<^sub>0" "machine_reachable K m\<^sub>0 m"
    and "c \<in> cpus K" "d \<in> cpus K"
  shows "(cpu_curr (core m) c = cpu_curr (core m) d \<longrightarrow> c = d)
    \<and> leaving m c \<noteq> Some (cpu_curr (core m) d)
    \<and> (leaving m c \<noteq> None \<longrightarrow> leaving m c = leaving m d \<longrightarrow> c = d)"
proof -
  have m: "machine_ok K base m" using machine_reachable_ok[OF assms(1-3)] .
  note marks = machine_marks[OF m]
  have "leaving m c \<noteq> Some (cpu_curr (core m) d)"
  proof
    assume lv: "leaving m c = Some (cpu_curr (core m) d)"
    with marks(2)[OF assms(5)] marks(4)[OF lv] cpus_bits[OF assms(1,5,4)] have "d = c" by simp
    with marks(5)[OF lv] show False by simp
  qed
  moreover have "c = d" if "cpu_curr (core m) c = cpu_curr (core m) d"
    using marks(1)[OF assms(4)] marks(1)[OF assms(5)] that by metis
  moreover have "c = d" if "leaving m c \<noteq> None" "leaving m c = leaving m d"
  proof -
    from that obtain p where p: "leaving m c = Some p" "leaving m d = Some p" by auto
    from marks(4)[OF p(1)] marks(4)[OF p(2)] cpus_bits[OF assms(1,4,5)] show ?thesis by simp
  qed
  ultimately show ?thesis by blast
qed

lemma small_machine_ok:
  "smp_ok (small_kernel True)"
  "machine_ok (small_kernel True) (\<lambda>a. if a = 51 then 0 else 1) \<lparr>core = small_state, leaving = (\<lambda>c. None)\<rparr>"
proof -
  have cpus: "cpus (small_kernel True) = {0, 1}" by (auto simp: logical_cpus_def small_kernel_def)
  have b: "borrowers (small_kernel True) small_state a = (if a = 51 then 1 else 0)" for a
    unfolding borrowers_def cpus by (simp add: small_defs)
  show "smp_ok (small_kernel True)"
    using small_kernel_laws by (simp add: smp_ok_def cpus) (simp add: small_kernel_def penalty_ok_def)
  have i: "is_idle (small_kernel True) small_state p \<longleftrightarrow> p = 1 \<or> p = 2" for p
    unfolding is_idle_def cpus by (auto simp: idle_task_def small_defs)
  have "rq_ok (small_kernel True) small_state" by (auto simp: rq_ok_def small_defs)
  moreover have "idles_ok (small_kernel True) small_state"
    unfolding idles_ok_def i cpus by (auto simp: inj_on_def idle_task_def small_defs)
  moreover have "all_ok (small_kernel True) small_state" by (auto simp: all_ok_def task_ok_def nice_ok_def small_defs)
  moreover have "queued_ok (small_kernel True) (cpus (small_kernel True)) small_state"
    unfolding queued_ok_def cpus by (auto simp: idle_task_def small_defs)
  moreover have "marks_ok (small_kernel True) small_state (\<lambda>c. None)"
    unfolding marks_ok_def cpus by (auto simp: cpu_bit_def small_defs)
  moreover have "mm_ok (small_kernel True) (\<lambda>a. if a = 51 then 0 else 1) small_state"
    unfolding mm_ok_def b cpus by (auto simp: small_defs)
  ultimately show "machine_ok (small_kernel True) (\<lambda>a. if a = 51 then 0 else 1) \<lparr>core = small_state, leaving = (\<lambda>c. None)\<rparr>"
    by (simp add: machine_ok_def)
qed

text \<open>Processor 1 takes task 4 from its idle task, the task of processor 0 goes to sleep.\<close>

definition small_run :: "event list" where
  "small_run = [Pick 1, Sleep 0 TASK_INTERRUPTIBLE, Pick 0]"

lemma small_run_ends:
  "(case run_events (small_kernel True) small_run \<lparr>core = small_state, leaving = (\<lambda>c. None)\<rparr> of None \<Rightarrow> False
    | Some m \<Rightarrow> cpu_curr (core m) 0 = 1 \<and> cpu_curr (core m) 1 = 4 \<and> leaving m 0 = Some 3 \<and> leaving m 1 = Some 2
        \<and> runqueue (core m) = [4] \<and> mm_count (core m) 50 = 2 \<and> mm_count (core m) 51 = 0)"
  by code_simp

lemma small_run_reachable:
  "\<exists>m. machine_reachable (small_kernel True) \<lparr>core = small_state, leaving = (\<lambda>c. None)\<rparr> m
     \<and> cpu_curr (core m) 0 = 1 \<and> cpu_curr (core m) 1 = 4 \<and> leaving m 0 = Some 3 \<and> leaving m 1 = Some 2
     \<and> runqueue (core m) = [4] \<and> mm_count (core m) 50 = 2 \<and> mm_count (core m) 51 = 0"
proof (cases "run_events (small_kernel True) small_run \<lparr>core = small_state, leaving = (\<lambda>c. None)\<rparr>")
  case None
  with small_run_ends show ?thesis by (simp only: option.case)
next
  case (Some m)
  note run_events_reachable[OF Some machine_reachable.start]
  with small_run_ends[unfolded Some option.case] show ?thesis by blast
qed

theorem no_task_on_two_cpus_witness:
  "\<exists>m. machine_reachable (small_kernel True) \<lparr>core = small_state, leaving = (\<lambda>c. None)\<rparr> m
     \<and> leaving m 0 = Some 3 \<and> leaving m 0 \<noteq> Some (cpu_curr (core m) 1)"
proof -
  obtain m where m: "machine_reachable (small_kernel True) \<lparr>core = small_state, leaving = (\<lambda>c. None)\<rparr> m"
    "leaving m 0 = Some 3" using small_run_reachable by blast
  have "0 \<in> cpus (small_kernel True)" "1 \<in> cpus (small_kernel True)"
    by (auto simp: logical_cpus_def small_kernel_def)
  from no_task_on_two_cpus[OF small_machine_ok m(1) this] m show ?thesis by blast
qed





text \<open>
  C24: address spaces are counted exactly. In every reachable state a user task has its own
  \<open>active_mm\<close>, a kernel thread has one just when it runs, and \<open>mm_count\<close> of an address space exceeds
  its initial surplus by the number of processors whose kernel thread borrows it.
\<close>

theorem lazy_mm_counted:
  assumes "smp_ok K" "machine_ok K base m\<^sub>0" "machine_reachable K m\<^sub>0 m"
  shows "mm_count (core m) a = base a + borrowers K (core m) a
    \<and> (if t_mm (tasks (core m) p) = 0 then t_active_mm (tasks (core m) p) \<noteq> 0 \<longleftrightarrow> p \<in> cpu_curr (core m) ` cpus K
       else t_active_mm (tasks (core m) p) = t_mm (tasks (core m) p))"
  using machine_reachable_ok[OF assms] by (simp add: machine_ok_def mm_ok_def)

theorem lazy_mm_counted_witness:
  "\<exists>m. machine_reachable (small_kernel True) \<lparr>core = small_state, leaving = (\<lambda>c. None)\<rparr> m
     \<and> mm_count (core m) 50 = 1 + borrowers (small_kernel True) (core m) 50 \<and> mm_count (core m) 50 = 2"
proof -
  obtain m where m: "machine_reachable (small_kernel True) \<lparr>core = small_state, leaving = (\<lambda>c. None)\<rparr> m"
    "mm_count (core m) 50 = 2" using small_run_reachable by blast
  from lazy_mm_counted[OF small_machine_ok m(1), of 50] m show ?thesis by auto
qed

end
