(* ===== verification/SchedStates.thy ===== *)
theory SchedStates
  imports SchedRuns
begin

text \<open>
  What the steps of the multiprocessor system do to the state of a task and to its place on the run
  queue: the facts that the protocols of sleeping and waking rest on.
\<close>

section \<open>One pass of \<open>schedule\<close>\<close>

text \<open>The state in which \<open>schedule\<close> finds its caller, after the look at the pending signals.\<close>

definition state_at_switch :: "task \<Rightarrow> u32" where
  "state_at_switch t =
     (if t_state t = TASK_INTERRUPTIBLE \<and> t_sigpending t then TASK_RUNNING else t_state t)"

lemma schedule_start_states:
  "t_state (tasks (schedule_start K prev s) q) = (if q = prev then state_at_switch (tasks s q) else t_state (tasks s q))"
  "q \<noteq> prev \<Longrightarrow> t_on_list (tasks (schedule_start K prev s) q) = t_on_list (tasks s q)"
  "state_at_switch (tasks s prev) = TASK_RUNNING \<Longrightarrow> t_on_list (tasks s prev) \<Longrightarrow>
     t_on_list (tasks (schedule_start K prev s) prev)"
  "state_at_switch (tasks s prev) \<noteq> TASK_RUNNING \<Longrightarrow> \<not> t_on_list (tasks (schedule_start K prev s) prev)"
  by (auto simp: schedule_start_def schedule_sleep_def state_at_switch_def Let_def
      move_last_runqueue_def del_from_runqueue_def split: if_splits)

lemma schedule_start_frame:
  "all_tasks (schedule_start K p s) = all_tasks s" "init_tasks (schedule_start K p s) = init_tasks s"
  by (simp_all add: schedule_start_def schedule_sleep_def Let_def move_last_runqueue_def del_from_runqueue_def)

lemma schedule_switch_states:
  assumes "schedule_switch K c prev nxt s = Inr s'"
  shows "t_state (tasks s' q) = t_state (tasks s q)" "t_on_list (tasks s' q) = t_on_list (tasks s q)"
    "all_tasks s' = all_tasks s" "init_tasks s' = init_tasks s" "cpu_curr s' = (cpu_curr s)(c := nxt)"
  using assms by (auto simp: schedule_switch_def switch_address_space_def task_set_cpu_def Let_def split: if_splits)

lemma pass_states:
  assumes K: "smp_ok K" and m: "machine_ok K base m" and c: "c \<in> cpus K"
    and p: "schedule_pass K (\<lambda>s. Inr (recalculate K s)) False (cpu_curr (core m) c) (core m) = Some (Inr (nxt, s'))"
  shows "t_state (tasks s' q) = t_state (tasks (schedule_start K (cpu_curr (core m) c) (core m)) q)"
    "t_on_list (tasks s' q) = t_on_list (tasks (schedule_start K (cpu_curr (core m) c) (core m)) q)"
    "all_tasks s' = all_tasks (core m)" "init_tasks s' = init_tasks (core m)"
proof -
  let ?prev = "cpu_curr (core m) c" and ?mm = "t_active_mm (tasks (core m) (cpu_curr (core m) c))"
  let ?t = "schedule_start K ?prev (core m)"
  have s: "core_ok K base (cpus K) (leaving m) (core m)" using m by (simp add: machine_ok_core)
  have tok: "tasks_ok K ?t" using schedule_start_ok(1)[OF K s c(1)] by (auto simp: core_ok_def all_ok_def tasks_ok_def)
  have pen: "penalty_ok K" using K by (simp add: smp_ok_def)
  from repeat_schedule_stock[OF tok pen, of c ?mm] obtain x u where
    r: "repeat_schedule K (\<lambda>s. Inr (recalculate K s)) c ?mm ?t = Some (Inr (x, u))" and u: "u = ?t \<or> u = recalculate K ?t"
    by auto
  have d: "distinct (all_tasks ?t)" using tok by (simp add: tasks_ok_def)
  have st: "t_state (tasks u q) = t_state (tasks ?t q)" "t_on_list (tasks u q) = t_on_list (tasks ?t q)"
    "all_tasks u = all_tasks ?t" "init_tasks u = init_tasks ?t"
    using u by (auto simp: tasks_recalculate[OF d] split: if_splits)
  from p have "schedule_switch K c ?prev x u = Inr s'"
    by (auto simp: schedule_pass_def machine_marks(1)[OF m c(1)] r split: sum.splits)
  note sw = schedule_switch_states[OF this]
  show "t_state (tasks s' q) = t_state (tasks ?t q)" "t_on_list (tasks s' q) = t_on_list (tasks ?t q)"
    "all_tasks s' = all_tasks (core m)" "init_tasks s' = init_tasks (core m)"
    by (simp_all add: sw st schedule_start_frame)
qed

section \<open>Every step\<close>

definition state_after :: "'q machine \<Rightarrow> event \<Rightarrow> ptr \<Rightarrow> u32" where
  "state_after m e q =
     (case e of
        Pick c \<Rightarrow> if q = cpu_curr (core m) c then state_at_switch (tasks (core m) q) else t_state (tasks (core m) q)
      | Wake c p sync \<Rightarrow> if q = p then TASK_RUNNING else t_state (tasks (core m) q)
      | Sleep c st \<Rightarrow> if q = cpu_curr (core m) c then st else t_state (tasks (core m) q)
      | _ \<Rightarrow> t_state (tasks (core m) q))"

lemma reschedule_idle_frame:
  "t_state (tasks (reschedule_idle K c p s) q) = t_state (tasks s q)"
  "t_on_list (tasks (reschedule_idle K c p s) q) = t_on_list (tasks s q)" "cpu_curr (reschedule_idle K c p s) = cpu_curr s"
  "all_tasks (reschedule_idle K c p s) = all_tasks s" "init_tasks (reschedule_idle K c p s) = init_tasks s"
  using only_resched_idle[of s K c p] by (auto simp: only_resched_def)

lemma try_to_wake_up_frame:
  "t_state (tasks (snd (try_to_wake_up K c p sync s)) q) = (if q = p then TASK_RUNNING else t_state (tasks s q))"
  "t_on_list (tasks (snd (try_to_wake_up K c p sync s)) q) \<longleftrightarrow> q = p \<or> t_on_list (tasks s q)"
  "cpu_curr (snd (try_to_wake_up K c p sync s)) = cpu_curr s"
  "all_tasks (snd (try_to_wake_up K c p sync s)) = all_tasks s"
  "init_tasks (snd (try_to_wake_up K c p sync s)) = init_tasks s"
  "fst (try_to_wake_up K c p sync s) \<longleftrightarrow> \<not> t_on_list (tasks s p)"
    by (auto simp: try_to_wake_up_def Let_def task_on_runqueue_def add_to_runqueue_def reschedule_idle_frame)

lemma yield_frame:
  "t_state (tasks (snd (sys_sched_yield K p s)) q) = t_state (tasks s q)"
  "t_on_list (tasks s q) \<Longrightarrow> t_on_list (tasks (snd (sys_sched_yield K p s)) q)"
  "cpu_curr (snd (sys_sched_yield K p s)) = cpu_curr s"
  "all_tasks (snd (sys_sched_yield K p s)) = all_tasks s" "init_tasks (snd (sys_sched_yield K p s)) = init_tasks s"
  by (simp_all add: sys_sched_yield_def move_last_runqueue_def Let_def)

lemma schedule_tail_frame:
  "t_state (tasks (schedule_tail K c p s) q) = t_state (tasks s q)"
  "t_on_list (tasks (schedule_tail K c p s) q) = t_on_list (tasks s q)"
  "cpu_curr (schedule_tail K c p s) = cpu_curr s"
  "all_tasks (schedule_tail K c p s) = all_tasks s" "init_tasks (schedule_tail K c p s) = init_tasks s"
    by (auto simp: schedule_tail_def Let_def reschedule_idle_frame task_release_cpu_def)

text \<open>The state of every task after a step; a task that may run stays where it is.\<close>

lemma machine_step_states:
  assumes K: "smp_ok K" and m: "machine_ok K base m" and st: "machine_step K e m = Some m'"
  shows "t_state (tasks (core m') q) = state_after m e q"
    and "t_on_list (tasks (core m) q) \<Longrightarrow> (\<And>c. e = Pick c \<Longrightarrow> q = cpu_curr (core m) c \<Longrightarrow> state_after m e q = TASK_RUNNING) \<Longrightarrow>
      t_on_list (tasks (core m') q)"
    and "e = Wake d p sync \<Longrightarrow> t_on_list (tasks (core m') p)"
    and "all_tasks (core m') = all_tasks (core m)" and "init_tasks (core m') = init_tasks (core m)"
proof -
  have "t_state (tasks (core m') q) = state_after m e q
    \<and> (t_on_list (tasks (core m) q) \<longrightarrow> (\<forall>c. e = Pick c \<longrightarrow> q = cpu_curr (core m) c \<longrightarrow> state_after m e q = TASK_RUNNING) \<longrightarrow>
      t_on_list (tasks (core m') q))
    \<and> (e = Wake d p sync \<longrightarrow> t_on_list (tasks (core m') p))
    \<and> all_tasks (core m') = all_tasks (core m) \<and> init_tasks (core m') = init_tasks (core m)"
  proof (cases e)
    case (Pick c)
    with st have c: "c \<in> cpus K" "leaving m c = None" by (auto simp: Let_def split: if_splits)
    from pass_ok[OF K m c] obtain nxt s' where
      p: "schedule_pass K (\<lambda>s. Inr (recalculate K s)) False (cpu_curr (core m) c) (core m) = Some (Inr (nxt, s'))" .
    have m': "core m' = s'" using st Pick c p by (auto simp: Let_def)
    note f = pass_states[OF K m c(1) p] and s = schedule_start_states[where K = K and s = "core m" and prev = "cpu_curr (core m) c"]
    show ?thesis
      unfolding m' f Pick state_after_def event.case s(1) by (cases "q = cpu_curr (core m) c") (auto simp: s(2,3))
  next
    case (Tail c)
    with st show ?thesis by (auto simp: state_after_def schedule_tail_frame split: option.splits if_splits)
  next
    case (Wake c x sync')
    with st show ?thesis by (auto simp: state_after_def try_to_wake_up_frame split: if_splits)
  next
    case (Yield c)
    with st show ?thesis by (auto simp: state_after_def yield_frame split: if_splits)
  next
    case (Sleep c x)
    with st show ?thesis by (auto simp: state_after_def split: if_splits)
  next
    case (Change x a n pol rt sig)
    with st show ?thesis by (auto simp: state_after_def change_task_def split: if_splits)
  qed
  then show "t_state (tasks (core m') q) = state_after m e q"
    "t_on_list (tasks (core m) q) \<Longrightarrow> (\<And>c. e = Pick c \<Longrightarrow> q = cpu_curr (core m) c \<Longrightarrow> state_after m e q = TASK_RUNNING) \<Longrightarrow>
      t_on_list (tasks (core m') q)"
    "e = Wake d p sync \<Longrightarrow> t_on_list (tasks (core m') p)"
    "all_tasks (core m') = all_tasks (core m)" "init_tasks (core m') = init_tasks (core m)" by blast+
qed

text \<open>A step does not take the current task from another processor.\<close>

lemma machine_step_curr:
  assumes K: "smp_ok K" and m: "machine_ok K base m" and st: "machine_step K e m = Some m'"
    and d: "e \<noteq> Pick d"
  shows "cpu_curr (core m') d = cpu_curr (core m) d" and "leaving m d = None \<Longrightarrow> leaving m' d = None"
proof -
  have "cpu_curr (core m') d = cpu_curr (core m) d \<and> (leaving m d = None \<longrightarrow> leaving m' d = None)"
  proof (cases e)
    case (Pick c)
    with st have c: "c \<in> cpus K" "leaving m c = None" by (auto simp: Let_def split: if_splits)
    from pass_ok[OF K m c] obtain nxt s' where
      p: "schedule_pass K (\<lambda>s. Inr (recalculate K s)) False (cpu_curr (core m) c) (core m) = Some (Inr (nxt, s'))"
        "cpu_curr s' = (cpu_curr (core m))(c := nxt)" .
    with st Pick c d show ?thesis by (auto simp: Let_def)
  qed (use st in \<open>auto simp: try_to_wake_up_frame yield_frame schedule_tail_frame change_task_def
      split: if_splits option.splits\<close>)
  then show "cpu_curr (core m') d = cpu_curr (core m) d" "leaving m d = None \<Longrightarrow> leaving m' d = None" by simp_all
qed

end
