(* ===== verification/SchedWait.thy ===== *)
theory SchedWait
  imports SchedStates
begin

text \<open>
  Completions (\<open>complete\<close> and \<open>wait_for_completion\<close> of \<open>sched.c\<close>) on top of the multiprocessor
  system: no wake-up is lost, and a waiter that has been completed returns. The queue is the list of
  the waiting tasks (\<open>linux/wait.h\<close>: \<open>__add_wait_queue_tail\<close> appends, \<open>__remove_wait_queue\<close> removes);
  all its entries are exclusive.
\<close>

section \<open>Completions\<close>

record completion =
  cdone :: u32
  cwait :: "ptr list"

definition complete :: "'q kernel \<Rightarrow> nat \<Rightarrow> completion \<Rightarrow> 'q sched \<Rightarrow> completion \<times> 'q sched" where
  "complete K this_cpu x s =
     (x\<lparr>cdone := cdone x + 1\<rparr>,
      wake_up_common K this_cpu (map (\<lambda>p. (p, True)) (cwait x)) (TASK_UNINTERRUPTIBLE OR TASK_INTERRUPTIBLE) 1 False s)"

text \<open>
  The system: where each task is inside \<open>wait_for_completion\<close>, and, while a processor holds the
  spinlock of the completion in \<open>complete\<close>, the entries that \<open>__wake_up_common\<close> still has to look at.
\<close>

datatype wait_pc = Outside | Calling | Slept

record 'q csys =
  sys :: "'q machine"
  cmpl :: completion
  scanning :: "ptr list option"
  w_pc :: "ptr \<Rightarrow> wait_pc"

datatype wait_action =
  Kernel event
| Enter nat
| Retest nat
| Complete nat
| Scan nat

abbreviation wtask :: "'q csys \<Rightarrow> ptr \<Rightarrow> task" where
  "wtask w p \<equiv> tasks (core (sys w)) p"

abbreviation wcurr :: "'q csys \<Rightarrow> nat \<Rightarrow> ptr" where
  "wcurr w c \<equiv> cpu_curr (core (sys w)) c"

text \<open>A processor that executes the code of its current task.\<close>

definition executes :: "'q kernel \<Rightarrow> 'q csys \<Rightarrow> nat \<Rightarrow> bool" where
  "executes K w c \<longleftrightarrow> c \<in> cpus K \<and> leaving (sys w) c = None \<and> \<not> is_idle K (core (sys w)) (wcurr w c)"

definition set_state :: "ptr \<Rightarrow> u32 \<Rightarrow> 'q csys \<Rightarrow> 'q csys" where
  "set_state p st w = w\<lparr>sys := (sys w)\<lparr>core := upd_task p (\<lambda>t. t\<lparr>t_state := st\<rparr>) (core (sys w))\<rparr>\<rparr>"

text \<open>
  The critical sections of \<open>wait_for_completion\<close>, from the lock to the unlock: the first, up to
  \<open>schedule\<close>, and the one after each return from \<open>schedule\<close>.
\<close>

definition wait_enter :: "ptr \<Rightarrow> 'q csys \<Rightarrow> 'q csys" where
  "wait_enter p w =
     (let x = cmpl w in
      if cdone x = 0
      then (set_state p TASK_UNINTERRUPTIBLE w)\<lparr>cmpl := x\<lparr>cwait := cwait x @ [p]\<rparr>, w_pc := (w_pc w)(p := Calling)\<rparr>
      else w\<lparr>cmpl := x\<lparr>cdone := cdone x - 1\<rparr>\<rparr>)"

definition wait_retest :: "ptr \<Rightarrow> 'q csys \<Rightarrow> 'q csys" where
  "wait_retest p w =
     (let x = cmpl w in
      if cdone x = 0
      then (set_state p TASK_UNINTERRUPTIBLE w)\<lparr>w_pc := (w_pc w)(p := Calling)\<rparr>
      else w\<lparr>cmpl := x\<lparr>cwait := remove1 p (cwait x), cdone := cdone x - 1\<rparr>, w_pc := (w_pc w)(p := Outside)\<rparr>)"

text \<open>One turn of the loop of \<open>__wake_up_common\<close> for \<open>complete\<close>; a success ends it.\<close>

definition scan_entry :: "'q kernel \<Rightarrow> nat \<Rightarrow> ptr \<Rightarrow> ptr list \<Rightarrow> 'q csys \<Rightarrow> 'q csys" where
  "scan_entry K c p rest w =
     (if t_state (wtask w p) AND (TASK_UNINTERRUPTIBLE OR TASK_INTERRUPTIBLE) \<noteq> 0
      then (case try_to_wake_up K c p False (core (sys w)) of (success, s) \<Rightarrow>
              w\<lparr>sys := (sys w)\<lparr>core := s\<rparr>, scanning := (if success then None else Some rest)\<rparr>)
      else w\<lparr>scanning := Some rest\<rparr>)"

text \<open>A task inside \<open>wait_for_completion\<close> changes its state only there; \<open>Pick\<close> is its call of \<open>schedule\<close>.\<close>

fun wait_step :: "'q kernel \<Rightarrow> wait_action \<Rightarrow> 'q csys \<Rightarrow> 'q csys option" where
  "wait_step K (Kernel e) w =
     (case machine_step K e (sys w) of
        None \<Rightarrow> None
      | Some m \<Rightarrow>
          (case e of
             Sleep c st \<Rightarrow> if w_pc w (wcurr w c) = Outside then Some (w\<lparr>sys := m\<rparr>) else None
           | Pick c \<Rightarrow>
               Some (w\<lparr>sys := m, w_pc := (w_pc w)(wcurr w c := if w_pc w (wcurr w c) = Calling then Slept else w_pc w (wcurr w c))\<rparr>)
           | _ \<Rightarrow> Some (w\<lparr>sys := m\<rparr>)))"
| "wait_step K (Enter c) w =
     (if executes K w c \<and> w_pc w (wcurr w c) = Outside \<and> scanning w = None
      then Some (wait_enter (wcurr w c) w) else None)"
| "wait_step K (Retest c) w =
     (if executes K w c \<and> w_pc w (wcurr w c) = Slept \<and> scanning w = None
      then Some (wait_retest (wcurr w c) w) else None)"
| "wait_step K (Complete c) w =
     (if c \<in> cpus K \<and> scanning w = None
      then Some (w\<lparr>cmpl := (cmpl w)\<lparr>cdone := cdone (cmpl w) + 1\<rparr>, scanning := Some (cwait (cmpl w))\<rparr>) else None)"
| "wait_step K (Scan c) w =
     (if c \<in> cpus K then
        (case scanning w of
           None \<Rightarrow> None
         | Some [] \<Rightarrow> Some (w\<lparr>scanning := None\<rparr>)
         | Some (p # rest) \<Rightarrow> Some (scan_entry K c p rest w))
      else None)"

fun wait_run :: "'q kernel \<Rightarrow> wait_action list \<Rightarrow> 'q csys \<Rightarrow> 'q csys option" where
  "wait_run K [] w = Some w"
| "wait_run K (e # es) w = (case wait_step K e w of None \<Rightarrow> None | Some w' \<Rightarrow> wait_run K es w')"

inductive wait_reachable :: "'q kernel \<Rightarrow> 'q csys \<Rightarrow> 'q csys \<Rightarrow> bool" for K w\<^sub>0 where
  start: "wait_reachable K w\<^sub>0 w\<^sub>0"
| step: "wait_reachable K w\<^sub>0 w \<Longrightarrow> wait_step K e w = Some w' \<Longrightarrow> wait_reachable K w\<^sub>0 w'"

section \<open>The scan in one piece\<close>

text \<open>Without interruption the turns of the scan are \<open>__wake_up_common\<close>.\<close>

fun scan_all :: "'q kernel \<Rightarrow> nat \<Rightarrow> ptr list \<Rightarrow> 'q sched \<Rightarrow> 'q sched" where
  "scan_all K c [] s = s"
| "scan_all K c (p # ps) s =
     (if t_state (tasks s p) AND (TASK_UNINTERRUPTIBLE OR TASK_INTERRUPTIBLE) \<noteq> 0
      then (case try_to_wake_up K c p False s of (success, s') \<Rightarrow> if success then s' else scan_all K c ps s')
      else scan_all K c ps s)"

lemma scan_all_wake_up_common:
  "wake_up_common K c (map (\<lambda>p. (p, True)) ps) (TASK_UNINTERRUPTIBLE OR TASK_INTERRUPTIBLE) 1 False s = scan_all K c ps s"
  unfolding wake_up_common_def
  by (induction ps arbitrary: s) (simp_all add: to_int32_def split: prod.splits)

lemma scan_turns:
  assumes "c \<in> cpus K" "scanning w = Some ps"
  shows "\<exists>n. wait_run K (replicate n (Scan c)) w =
    Some (w\<lparr>sys := (sys w)\<lparr>core := scan_all K c ps (core (sys w))\<rparr>, scanning := None\<rparr>)"
  using assms(2)
proof (induction ps arbitrary: w)
  case Nil
  with assms(1) have "wait_run K (replicate 1 (Scan c)) w = Some (w\<lparr>scanning := None\<rparr>)" by simp
  then show ?case by (intro exI[of _ 1]) simp
next
  case (Cons p ps)
  let ?u = "scan_entry K c p ps w"
  have st: "wait_step K (Scan c) w = Some ?u" using assms(1) Cons.prems by simp
  show ?case
  proof (cases "scanning ?u")
    case None
    then have "?u = w\<lparr>sys := (sys w)\<lparr>core := scan_all K c (p # ps) (core (sys w))\<rparr>, scanning := None\<rparr>"
      by (auto simp: scan_entry_def split: if_splits prod.splits)
    with st show ?thesis by (intro exI[of _ 1]) simp
  next
    case (Some qs)
    then have u: "scanning ?u = Some ps" "scan_all K c ps (core (sys ?u)) = scan_all K c (p # ps) (core (sys w))"
      "?u\<lparr>sys := (sys ?u)\<lparr>core := s\<rparr>, scanning := None\<rparr> = w\<lparr>sys := (sys w)\<lparr>core := s\<rparr>, scanning := None\<rparr>" for s
      by (auto simp: scan_entry_def split: if_splits prod.splits)
    from Cons.IH[OF u(1)] obtain n where "wait_run K (replicate n (Scan c)) ?u =
      Some (w\<lparr>sys := (sys w)\<lparr>core := scan_all K c (p # ps) (core (sys w))\<rparr>, scanning := None\<rparr>)"
      unfolding u(2,3) by blast
    with st show ?thesis by (intro exI[of _ "Suc n"]) simp
  qed
qed

lemma complete_turns:
  assumes "c \<in> cpus K" "scanning w = None"
  shows "\<exists>n. wait_run K (Complete c # replicate n (Scan c)) w =
    Some (w\<lparr>sys := (sys w)\<lparr>core := snd (complete K c (cmpl w) (core (sys w)))\<rparr>,
      cmpl := fst (complete K c (cmpl w) (core (sys w)))\<rparr>)"
proof -
  let ?u = "w\<lparr>cmpl := (cmpl w)\<lparr>cdone := cdone (cmpl w) + 1\<rparr>, scanning := Some (cwait (cmpl w))\<rparr>"
  have "wait_step K (Complete c) w = Some ?u" using assms by simp
  moreover obtain n where "wait_run K (replicate n (Scan c)) ?u =
      Some (?u\<lparr>sys := (sys ?u)\<lparr>core := scan_all K c (cwait (cmpl w)) (core (sys ?u))\<rparr>, scanning := None\<rparr>)"
    using scan_turns[OF assms(1), of ?u "cwait (cmpl w)"] by auto
  ultimately show ?thesis using assms(2)
    by (intro exI[of _ n], cases w) (simp add: complete_def scan_all_wake_up_common[simplified])
qed

section \<open>The invariant\<close>

definition awake :: "'q csys \<Rightarrow> ptr list" where
  "awake w = filter (\<lambda>p. t_state (wtask w p) = TASK_RUNNING) (cwait (cmpl w))"

text \<open>A waiter is in one of two states, is on the run queue when it may run, and is current when it calls \<open>schedule\<close>.\<close>

definition waiter_ok :: "'q kernel \<Rightarrow> 'q csys \<Rightarrow> ptr \<Rightarrow> bool" where
  "waiter_ok K w p \<longleftrightarrow> p \<in> set (all_tasks (core (sys w))) \<and> \<not> is_idle K (core (sys w)) p
     \<and> t_state (wtask w p) \<in> {TASK_RUNNING, TASK_UNINTERRUPTIBLE}
     \<and> (t_state (wtask w p) = TASK_RUNNING \<or> w_pc w p = Calling \<longrightarrow> t_on_list (wtask w p))
     \<and> (w_pc w p = Calling \<longrightarrow> (\<exists>c\<in>cpus K. wcurr w c = p \<and> leaving (sys w) c = None))"

text \<open>
  As many waiters are awake as completions are left, or all; during a scan the last completion may
  still be without its waiter, if all the waiters before are awake.
\<close>

definition scan_ok :: "'q csys \<Rightarrow> bool" where
  "scan_ok w \<longleftrightarrow>
     (case scanning w of
        None \<Rightarrow> min (unat (cdone (cmpl w))) (length (cwait (cmpl w))) \<le> length (awake w)
      | Some rest \<Rightarrow>
          (\<exists>pre. cwait (cmpl w) = pre @ rest \<and> (\<forall>p\<in>set pre. t_state (wtask w p) = TASK_RUNNING))
          \<and> min (unat (cdone (cmpl w)) - 1) (length (cwait (cmpl w))) \<le> length (awake w))"

definition wait_ok :: "'q kernel \<Rightarrow> (ptr \<Rightarrow> int) \<Rightarrow> 'q csys \<Rightarrow> bool" where
  "wait_ok K base w \<longleftrightarrow> machine_ok K base (sys w) \<and> distinct (cwait (cmpl w))
     \<and> (\<forall>p. p \<in> set (cwait (cmpl w)) \<longleftrightarrow> w_pc w p \<noteq> Outside)
     \<and> (\<forall>p\<in>set (cwait (cmpl w)). waiter_ok K w p) \<and> scan_ok w"

lemma scan_ok_mono:
  assumes "scan_ok w" "cmpl w' = cmpl w" "scanning w' = scanning w"
    and "\<And>p. p \<in> set (cwait (cmpl w)) \<Longrightarrow> t_state (wtask w p) = TASK_RUNNING \<Longrightarrow> t_state (wtask w' p) = TASK_RUNNING"
  shows "scan_ok w'"
proof -
  have "length (awake w) \<le> length (awake w')"
  proof -
    have len: "length (filter P ps) \<le> length (filter Q ps)" if "\<And>p. p \<in> set ps \<Longrightarrow> P p \<Longrightarrow> Q p" for P Q and ps :: "ptr list"
      using that by (induction ps) auto
    show ?thesis unfolding awake_def assms(2) by (rule len) (rule assms(4))
  qed
  then have more: "n \<le> length (awake w) \<Longrightarrow> n \<le> length (awake w')" for n by simp
  show ?thesis
  proof (cases "scanning w")
    case None
    with assms(1) show ?thesis unfolding scan_ok_def assms(2,3) by (simp add: more)
  next
    case (Some rest)
    with assms(1) obtain pre where "cwait (cmpl w) = pre @ rest" "\<forall>p\<in>set pre. t_state (wtask w p) = TASK_RUNNING"
      "min (unat (cdone (cmpl w)) - 1) (length (cwait (cmpl w))) \<le> length (awake w)"
      by (auto simp: scan_ok_def)
    moreover from this have "\<forall>p\<in>set pre. t_state (wtask w' p) = TASK_RUNNING" using assms(4) by auto
    ultimately show ?thesis unfolding scan_ok_def assms(2,3) Some option.case using more by blast
  qed
qed

text \<open>What one step of the kernel does to the waiters.\<close>

lemma kernel_step_ok:
  assumes K: "smp_ok K" and w: "wait_ok K base w" and st: "wait_step K (Kernel e) w = Some w'"
  shows "wait_ok K base w'"
proof -
  have m: "machine_ok K base (sys w)" and sc: "scan_ok w" using w by (simp_all add: wait_ok_def)
  from st obtain m' where m': "machine_step K e (sys w) = Some m'" by (auto split: option.splits)
  have w': "sys w' = m'" "cmpl w' = cmpl w" "scanning w' = scanning w"
    "w_pc w' p = (if \<exists>c. e = Pick c \<and> p = wcurr w c \<and> w_pc w p = Calling then Slept else w_pc w p)"
    "e = Sleep c x \<Longrightarrow> w_pc w (wcurr w c) = Outside" for p c x
    using st m' by (auto split: event.splits if_splits)
  note states = machine_step_states[OF K m m'] and mm = machine_step_ok[OF K m m']
  have idle: "is_idle K (core m') = is_idle K (core (sys w))" by (rule is_idle_cong) (rule states(5))
  have in_w: "w_pc w p \<noteq> Outside" if "p \<in> set (cwait (cmpl w))" for p using w that by (simp add: wait_ok_def)
  have after: "state_after (sys w) e p = (if \<exists>c sync. e = Wake c p sync then TASK_RUNNING else t_state (wtask w p))"
    if p: "p \<in> set (cwait (cmpl w))" for p
  proof -
    have "t_state (wtask w p) \<in> {TASK_RUNNING, TASK_UNINTERRUPTIBLE}" using w p by (auto simp: wait_ok_def waiter_ok_def)
    with in_w[OF p] w'(5) show ?thesis by (cases e) (auto simp: state_after_def state_at_switch_def)
  qed
  have "waiter_ok K w' p" if p: "p \<in> set (cwait (cmpl w))" for p
  proof -
    have old: "waiter_ok K w p" using w p by (simp add: wait_ok_def)
    have state: "t_state (wtask w' p) = (if \<exists>c sync. e = Wake c p sync then TASK_RUNNING else t_state (wtask w p))"
      using states(1)[of p] after[OF p] by (simp add: w')
    have on: "t_on_list (wtask w' p)" if r: "t_state (wtask w' p) = TASK_RUNNING \<or> w_pc w' p = Calling"
    proof (cases "\<exists>c sync. e = Wake c p sync")
      case True
      then show ?thesis using states(3) by (auto simp: w')
    next
      case False
      from r old have l: "t_on_list (wtask w p)" using False
        by (auto simp: waiter_ok_def state w'(4) split: if_splits)
      show ?thesis unfolding w'(1)
      proof (rule states(2)[OF l])
        fix c assume "e = Pick c" "p = wcurr w c"
        then have "w_pc w' p \<noteq> Calling" by (simp add: w'(4))
        with r states(1)[of p] show "state_after (sys w) e p = TASK_RUNNING" by (simp add: w'(1))
      qed
    qed
    have cur: "\<exists>c\<in>cpus K. wcurr w' c = p \<and> leaving (sys w') c = None" if c: "w_pc w' p = Calling"
    proof -
      from c have c': "w_pc w p = Calling" "\<not> (\<exists>c. e = Pick c \<and> p = wcurr w c)" by (auto simp: w'(4) split: if_splits)
      with old obtain c where c: "c \<in> cpus K" "wcurr w c = p" "leaving (sys w) c = None" by (auto simp: waiter_ok_def)
      have "e \<noteq> Pick c" using c'(2) c(2) by blast
      from machine_step_curr[OF K m m' this] c(2,3) have "wcurr w' c = p \<and> leaving (sys w') c = None"
        by (simp add: w'(1))
      with c(1) show ?thesis by blast
    qed
    have "t_state (wtask w p) \<in> {TASK_RUNNING, TASK_UNINTERRUPTIBLE}" using old by (simp add: waiter_ok_def)
    then have "t_state (wtask w' p) \<in> {TASK_RUNNING, TASK_UNINTERRUPTIBLE}" unfolding state by auto
    moreover have "p \<in> set (all_tasks (core (sys w')))" "\<not> is_idle K (core (sys w')) p"
      using old states(4) idle by (simp_all add: waiter_ok_def w'(1))
    ultimately show ?thesis using on cur unfolding waiter_ok_def by blast
  qed
  moreover have "w_pc w' p \<noteq> Outside \<longleftrightarrow> w_pc w p \<noteq> Outside" for p by (auto simp: w'(4))
  moreover have "scan_ok w'"
    by (rule scan_ok_mono[OF sc w'(2,3)]) (use states(1) after in \<open>auto simp: w'(1)\<close>)
  ultimately show ?thesis using w mm by (simp add: wait_ok_def w'(1-3))
qed

text \<open>A processor that executes a task: the task is on the run queue, and it may go to sleep.\<close>

lemma executes_facts:
  assumes w: "wait_ok K base w" and c: "executes K w c"
  shows "wcurr w c \<in> set (all_tasks (core (sys w)))" "t_on_list (wtask w (wcurr w c))"
    "\<not> is_idle K (core (sys w)) (wcurr w c)" "c \<in> cpus K" "leaving (sys w) c = None"
proof -
  have m: "machine_ok K base (sys w)" using w by (simp add: wait_ok_def)
  show "\<not> is_idle K (core (sys w)) (wcurr w c)" "c \<in> cpus K" "leaving (sys w) c = None"
    using c by (simp_all add: executes_def)
  then have "wcurr w c \<in> set (list_elems K (runqueue (core (sys w))))"
    using m by (auto simp: machine_ok_def queued_ok_def is_idle_def)
  then show "wcurr w c \<in> set (all_tasks (core (sys w)))" "t_on_list (wtask w (wcurr w c))"
    using m by (auto simp: machine_ok_def all_ok_def rq_ok_def)
qed

lemma set_state_frame [simp]:
  "cmpl (set_state p st w) = cmpl w" "scanning (set_state p st w) = scanning w" "w_pc (set_state p st w) = w_pc w"
  "wtask (set_state p st w) q = (if q = p then wtask w q\<lparr>t_state := st\<rparr> else wtask w q)"
  "wcurr (set_state p st w) = wcurr w" "leaving (sys (set_state p st w)) = leaving (sys w)"
  "all_tasks (core (sys (set_state p st w))) = all_tasks (core (sys w))"
  "is_idle K (core (sys (set_state p st w))) = is_idle K (core (sys w))"
  by (simp_all add: set_state_def)

text \<open>The task goes to sleep again: nothing is left in the completion, so nobody need be awake.\<close>

lemma wait_sleep_ok:
  assumes K: "smp_ok K" and w: "wait_ok K base w" and c: "executes K w c" and z: "cdone (cmpl w) = 0" "scanning w = None"
    and q: "q = cwait (cmpl w) \<and> wcurr w c \<in> set q \<or> q = cwait (cmpl w) @ [wcurr w c] \<and> wcurr w c \<notin> set (cwait (cmpl w))"
  shows "wait_ok K base ((set_state (wcurr w c) TASK_UNINTERRUPTIBLE w)
    \<lparr>cmpl := (cmpl w)\<lparr>cwait := q\<rparr>, w_pc := (w_pc w)(wcurr w c := Calling)\<rparr>)" (is "wait_ok K base ?w")
proof -
  let ?p = "wcurr w c"
  note f = executes_facts[OF w c]
  have m: "machine_ok K base (sys w)" using w by (simp add: wait_ok_def)
  have "machine_step K (Sleep c TASK_UNINTERRUPTIBLE) (sys w) = Some (sys ?w)"
    using f by (simp add: set_state_def)
  from machine_step_ok[OF K m this] have "machine_ok K base (sys ?w)" .
  moreover have "distinct q" using w q by (auto simp: wait_ok_def)
  moreover have "p \<in> set q \<longleftrightarrow> w_pc ?w p \<noteq> Outside" for p using w q by (auto simp: wait_ok_def)
  moreover have "waiter_ok K ?w p" if "p \<in> set q" for p
  proof (cases "p = ?p")
    case True
    then show ?thesis using f by (auto simp: waiter_ok_def)
  next
    case False
    then have "waiter_ok K w p" using w q that by (auto simp: wait_ok_def)
    with False show ?thesis by (auto simp: waiter_ok_def)
  qed
  moreover have "scan_ok ?w" using z by (simp add: scan_ok_def)
  ultimately show ?thesis by (simp add: wait_ok_def)
qed

text \<open>A completion is taken.\<close>

lemma unat_minus_one: "x \<noteq> 0 \<Longrightarrow> unat (x - 1 :: u32) = unat x - 1"
  by (metis unat_minus_one)

lemma unat_plus_one_le: "unat (x + 1 :: u32) - 1 \<le> unat x"
proof -
  have "unat (x + 1) = (unat x + 1) mod 2 ^ 32" by (simp add: unat_word_ariths)
  then have "unat (x + 1) \<le> unat x + 1" by simp
  then show ?thesis by simp
qed

lemma take_ok:
  assumes w: "wait_ok K base w" and p: "w_pc w p = Slept" and d: "cdone (cmpl w) \<noteq> 0" "scanning w = None"
  shows "wait_ok K base (w\<lparr>cmpl := (cmpl w)\<lparr>cwait := remove1 p (cwait (cmpl w)), cdone := cdone (cmpl w) - 1\<rparr>,
    w_pc := (w_pc w)(p := Outside)\<rparr>)" (is "wait_ok K base ?w")
proof -
  have pin: "p \<in> set (cwait (cmpl w))" and dist: "distinct (cwait (cmpl w))" using w p by (auto simp: wait_ok_def)
  have sc: "min (unat (cdone (cmpl w))) (length (cwait (cmpl w))) \<le> length (awake w)"
    using w d by (simp add: wait_ok_def scan_ok_def)
  have "awake ?w = remove1 p (awake w)" by (simp add: awake_def filter_remove1)
  then have "length (awake w) \<le> length (awake ?w) + 1" by (cases "awake w") (auto simp: length_remove1)
  moreover have "length (remove1 p (cwait (cmpl w))) = length (cwait (cmpl w)) - 1" using pin by (simp add: length_remove1)
  ultimately have "scan_ok ?w" using sc d by (simp add: scan_ok_def unat_minus_one)
  moreover have "waiter_ok K ?w q = waiter_ok K w q" if "q \<noteq> p" for q using that by (simp add: waiter_ok_def)
  ultimately show ?thesis using w dist by (auto simp: wait_ok_def)
qed

text \<open>One turn of the scan.\<close>

lemma scan_entry_ok:
  assumes K: "smp_ok K" and w: "wait_ok K base w" and c: "c \<in> cpus K" and sc: "scanning w = Some (p # rest)"
  shows "wait_ok K base (scan_entry K c p rest w)"
proof -
  let ?d = "unat (cdone (cmpl w))" and ?n = "length (cwait (cmpl w))"
  obtain pre where q: "cwait (cmpl w) = pre @ p # rest" "\<forall>p\<in>set pre. t_state (wtask w p) = TASK_RUNNING"
    "min (?d - 1) ?n \<le> length (awake w)"
    using w sc by (auto simp: wait_ok_def scan_ok_def)
  have pin: "p \<in> set (cwait (cmpl w))" using q(1) by simp
  then have pw: "waiter_ok K w p" using w by (simp add: wait_ok_def)
  show ?thesis
  proof (cases "t_state (wtask w p) = TASK_RUNNING")
    case True
    let ?w = "w\<lparr>scanning := Some rest\<rparr>"
    have e: "scan_entry K c p rest w = ?w" using True by (simp add: scan_entry_def)
    have "awake ?w = awake w" by (simp add: awake_def)
    then have "scan_ok ?w" using q True by (auto simp: scan_ok_def intro!: exI[of _ "pre @ [p]"])
    moreover have "waiter_ok K ?w r = waiter_ok K w r" for r by (simp add: waiter_ok_def)
    ultimately show ?thesis using w unfolding e by (simp add: wait_ok_def)
  next
    case False
    then have st: "t_state (wtask w p) = TASK_UNINTERRUPTIBLE" using pw by (simp add: waiter_ok_def)
    let ?s = "snd (try_to_wake_up K c p False (core (sys w)))"
    let ?u = "w\<lparr>sys := (sys w)\<lparr>core := ?s\<rparr>\<rparr>"
    let ?w = "?u\<lparr>scanning := (if t_on_list (wtask w p) then Some rest else None)\<rparr>"
    have e: "scan_entry K c p rest w = ?w"
      using st by (auto simp: scan_entry_def try_to_wake_up_frame split: prod.splits)
        (metis fst_conv try_to_wake_up_frame(6))+
    have "wait_step K (Kernel (Wake c p False)) w = Some ?u" using c pw by (simp add: waiter_ok_def)
    from kernel_step_ok[OF K w this] have u: "wait_ok K base ?u" .
    have ts: "t_state (wtask ?w r) = (if r = p then TASK_RUNNING else t_state (wtask w r))" for r
      by (simp add: try_to_wake_up_frame)
    have aw: "length (awake ?w) = length (awake w) + 1"
    proof -
      have "distinct (cwait (cmpl w))" using w by (simp add: wait_ok_def)
      then have "p \<notin> set pre" "p \<notin> set rest" using q(1) by auto
      then have "filter (\<lambda>r. t_state (wtask ?w r) = TASK_RUNNING) pre = filter (\<lambda>r. t_state (wtask w r) = TASK_RUNNING) pre"
        "filter (\<lambda>r. t_state (wtask ?w r) = TASK_RUNNING) rest = filter (\<lambda>r. t_state (wtask w r) = TASK_RUNNING) rest"
        unfolding ts by (auto intro!: filter_cong)
      moreover have "cwait (cmpl ?w) = pre @ p # rest" using q(1) by simp
      moreover have "t_state (wtask ?w p) = TASK_RUNNING" by (simp only: ts) simp
      ultimately show ?thesis using st q(1) unfolding awake_def by simp
    qed
    have "scan_ok ?w"
    proof (cases "t_on_list (wtask w p)")
      case True
      have "cwait (cmpl ?w) = (pre @ [p]) @ rest" "\<forall>r\<in>set (pre @ [p]). t_state (wtask ?w r) = TASK_RUNNING"
        using q(1,2) unfolding ts by auto
      moreover have "min (unat (cdone (cmpl ?w)) - 1) (length (cwait (cmpl ?w))) \<le> length (awake ?w)"
        unfolding aw using q(3) by simp
      ultimately show ?thesis using True unfolding scan_ok_def by auto
    next
      case off: False
      have "min (unat (cdone (cmpl ?w))) (length (cwait (cmpl ?w))) \<le> length (awake ?w)"
        unfolding aw using q(3) by simp
      with off show ?thesis unfolding scan_ok_def by simp
    qed
    moreover have "waiter_ok K ?w r = waiter_ok K ?u r" for r by (simp add: waiter_ok_def)
    ultimately show ?thesis using u unfolding e by (simp add: wait_ok_def)
  qed
qed

lemma wait_step_ok:
  assumes K: "smp_ok K" and w: "wait_ok K base w" and st: "wait_step K e w = Some w'"
  shows "wait_ok K base w'"
proof (cases e)
  case (Kernel x)
  with kernel_step_ok[OF K w] st show ?thesis by blast
next
  case (Enter c)
  with st have c: "executes K w c" "w_pc w (wcurr w c) = Outside" "scanning w = None"
    and w': "w' = wait_enter (wcurr w c) w" by (auto split: if_splits)
  show ?thesis
  proof (cases "cdone (cmpl w) = 0")
    case True
    have "wcurr w c \<notin> set (cwait (cmpl w))" using w c(2) by (simp add: wait_ok_def)
    with wait_sleep_ok[OF K w c(1) True c(3), of "cwait (cmpl w) @ [wcurr w c]"] show ?thesis
      by (simp add: w' wait_enter_def True Let_def)
  next
    case False
    let ?w = "w\<lparr>cmpl := (cmpl w)\<lparr>cdone := cdone (cmpl w) - 1\<rparr>\<rparr>"
    have "awake ?w = awake w" by (simp add: awake_def)
    then have "scan_ok ?w" using w c(3) False by (auto simp: wait_ok_def scan_ok_def unat_minus_one)
    moreover have "waiter_ok K ?w q = waiter_ok K w q" for q by (simp add: waiter_ok_def)
    moreover have "w' = ?w" using False by (simp add: w' wait_enter_def Let_def)
    ultimately show ?thesis using w by (simp add: wait_ok_def)
  qed
next
  case (Retest c)
  with st have c: "executes K w c" "w_pc w (wcurr w c) = Slept" "scanning w = None"
    and w': "w' = wait_retest (wcurr w c) w" by (auto split: if_splits)
  show ?thesis
  proof (cases "cdone (cmpl w) = 0")
    case True
    have "wcurr w c \<in> set (cwait (cmpl w))" using w c(2) by (simp add: wait_ok_def)
    moreover have "w' = (set_state (wcurr w c) TASK_UNINTERRUPTIBLE w)
        \<lparr>cmpl := (cmpl w)\<lparr>cwait := cwait (cmpl w)\<rparr>, w_pc := (w_pc w)(wcurr w c := Calling)\<rparr>"
      using True by (cases w) (simp add: w' wait_retest_def Let_def set_state_def)
    ultimately show ?thesis using wait_sleep_ok[OF K w c(1) True c(3), of "cwait (cmpl w)"] by metis
  next
    case False
    with take_ok[OF w c(2) _ c(3)] show ?thesis by (simp add: w' wait_retest_def Let_def)
  qed
next
  case (Complete c)
  let ?w = "w\<lparr>cmpl := (cmpl w)\<lparr>cdone := cdone (cmpl w) + 1\<rparr>, scanning := Some (cwait (cmpl w))\<rparr>"
  from Complete st have w': "w' = ?w" and c: "scanning w = None" by (auto split: if_splits)
  have "awake ?w = awake w" by (simp add: awake_def)
  then have "scan_ok ?w" using w c unat_plus_one_le[of "cdone (cmpl w)"]
    by (auto simp: wait_ok_def scan_ok_def intro!: exI[of _ "[]"])
  moreover have "waiter_ok K ?w q = waiter_ok K w q" for q by (simp add: waiter_ok_def)
  ultimately show ?thesis using w unfolding w' by (simp add: wait_ok_def)
next
  case (Scan c)
  with st obtain ps where ps: "scanning w = Some ps" "c \<in> cpus K" by (auto split: option.splits if_splits)
  show ?thesis
  proof (cases ps)
    case Nil
    let ?w = "w\<lparr>scanning := None\<rparr>"
    have a: "awake ?w = awake w" by (simp add: awake_def)
    have "awake w = cwait (cmpl w)" using w ps Nil by (auto simp: wait_ok_def scan_ok_def awake_def filter_id_conv)
    then have "scan_ok ?w" by (simp add: scan_ok_def a)
    moreover have "waiter_ok K ?w q = waiter_ok K w q" for q by (simp add: waiter_ok_def)
    moreover have "w' = ?w" using Scan st ps Nil by simp
    ultimately show ?thesis using w by (simp add: wait_ok_def)
  next
    case (Cons p rest)
    with scan_entry_ok[OF K w ps(2)] ps Scan st show ?thesis by auto
  qed
qed

lemma wait_reachable_ok:
  assumes "smp_ok K" "wait_ok K base w\<^sub>0" "wait_reachable K w\<^sub>0 w"
  shows "wait_ok K base w"
  using assms(3) by (induction rule: wait_reachable.induct) (use assms(1,2) wait_step_ok in blast)+

end
