(* ===== verification/SchedLive.thy ===== *)
theory SchedLive
  imports SchedWait
begin

text \<open>
  What the invariant of the completions gives: no wake-up is lost, and with a fair scheduler every
  waiter that has been completed returns.
\<close>

section \<open>No lost wake-up\<close>

text \<open>
  C7: \<open>complete\<close> loses no wake-up, whatever the processors do in between. In every reachable state
  in which nobody holds the lock of the completion, at least as many of its waiters are runnable and
  on the run queue as there are completions left, or all of them are.
\<close>

theorem completion_no_lost_wakeup:
  assumes "smp_ok K" "wait_ok K base w\<^sub>0" "wait_reachable K w\<^sub>0 w" and "scanning w = None"
  shows "min (unat (cdone (cmpl w))) (length (cwait (cmpl w)))
    \<le> length (filter (\<lambda>p. t_state (wtask w p) = TASK_RUNNING \<and> p \<in> set (list_elems K (runqueue (core (sys w)))))
        (cwait (cmpl w)))"
proof -
  have w: "wait_ok K base w" by (rule wait_reachable_ok[OF assms(1-3)])
  then have m: "machine_ok K base (sys w)" by (simp add: wait_ok_def)
  have "p \<in> set (list_elems K (runqueue (core (sys w))))"
    if "p \<in> set (cwait (cmpl w))" "t_state (wtask w p) = TASK_RUNNING" for p
  proof -
    have "t_on_list (wtask w p)" "\<not> is_idle K (core (sys w)) p"
      using w that by (auto simp: wait_ok_def waiter_ok_def)
    then show ?thesis using m by (auto simp: machine_ok_def rq_ok_def idles_ok_def)
  qed
  then have "filter (\<lambda>p. t_state (wtask w p) = TASK_RUNNING \<and> p \<in> set (list_elems K (runqueue (core (sys w)))))
      (cwait (cmpl w)) = awake w"
    unfolding awake_def by (auto intro!: filter_cong)
  then show ?thesis using w assms(4) by (simp add: wait_ok_def scan_ok_def)
qed

section \<open>Every completed waiter returns\<close>

text \<open>An infinite execution.\<close>

definition wait_path :: "'q kernel \<Rightarrow> (nat \<Rightarrow> 'q csys) \<Rightarrow> (nat \<Rightarrow> wait_action) \<Rightarrow> bool" where
  "wait_path K f ev \<longleftrightarrow> (\<forall>i. wait_step K (ev i) (f i) = Some (f (Suc i)))"

text \<open>
  Fairness: a task that calls \<open>schedule\<close> gets into it, and a waiter that is runnable and on the run
  queue is chosen at some time and gets through the spinlock.
\<close>

definition fair_path :: "(nat \<Rightarrow> 'q csys) \<Rightarrow> (nat \<Rightarrow> wait_action) \<Rightarrow> bool" where
  "fair_path f ev \<longleftrightarrow>
     (\<forall>i p. (w_pc (f i) p = Calling \<longrightarrow>
          (\<exists>j\<ge>i. w_pc (f j) p \<noteq> Calling \<or> (\<exists>c. ev j = Kernel (Pick c) \<and> wcurr (f j) c = p)))
      \<and> (w_pc (f i) p = Slept \<and> t_state (wtask (f i) p) = TASK_RUNNING \<and> t_on_list (wtask (f i) p) \<longrightarrow>
          (\<exists>j\<ge>i. w_pc (f j) p \<noteq> Slept \<or> (\<exists>c. ev j = Retest c \<and> wcurr (f j) c = p))))"

text \<open>Enough completions for all who wait; during a scan one is not yet paid out.\<close>

definition covered :: "'q csys \<Rightarrow> bool" where
  "covered w \<longleftrightarrow> length (cwait (cmpl w)) \<le> unat (cdone (cmpl w)) - (if scanning w = None then 0 else 1)"

lemma covered_awake:
  assumes w: "wait_ok K base w" and c: "covered w" and p: "w_pc w p \<noteq> Outside"
  shows "t_state (wtask w p) = TASK_RUNNING" "t_on_list (wtask w p)" "cdone (cmpl w) \<noteq> 0"
proof -
  have q: "p \<in> set (cwait (cmpl w))" using w p by (simp add: wait_ok_def)
  have "length (cwait (cmpl w)) \<le> length (awake w)"
    using w c by (auto simp: wait_ok_def scan_ok_def covered_def split: option.splits)
  then have "awake w = cwait (cmpl w)" unfolding awake_def
    using length_filter_le[of _ "cwait (cmpl w)"] by (metis filter_id_conv le_antisym length_filter_less not_less)
  then show st: "t_state (wtask w p) = TASK_RUNNING" using q by (auto simp: awake_def filter_id_conv)
  have "waiter_ok K w p" using w q by (simp add: wait_ok_def)
  with st show "t_on_list (wtask w p)" by (simp add: waiter_ok_def)
  have "0 < length (cwait (cmpl w))" using q by (cases "cwait (cmpl w)") auto
  then show "cdone (cmpl w) \<noteq> 0" using c by (auto simp: covered_def split: if_splits)
qed

text \<open>One step without a new waiter.\<close>

lemma covered_step:
  assumes w: "wait_ok K base w" and c: "covered w" and st: "wait_step K e w = Some w'"
    and new: "\<And>c. e \<noteq> Enter c" and wrap: "\<And>c. e = Complete c \<Longrightarrow> cdone (cmpl w) \<noteq> - 1"
  shows "covered w'" and "w_pc w p = Outside \<Longrightarrow> w_pc w' p = Outside"
    and "w_pc w p = Slept \<Longrightarrow> w_pc w' p \<noteq> Calling"
    and "w_pc w p \<noteq> Outside \<Longrightarrow> e = Retest d \<Longrightarrow> wcurr w d = p \<Longrightarrow> w_pc w' p = Outside"
    and "w_pc w p = Calling \<Longrightarrow> e = Kernel (Pick d) \<Longrightarrow> wcurr w d = p \<Longrightarrow> w_pc w' p = Slept"
proof -
  have "covered w' \<and> (w_pc w p = Outside \<longrightarrow> w_pc w' p = Outside) \<and> (w_pc w p = Slept \<longrightarrow> w_pc w' p \<noteq> Calling)
    \<and> (w_pc w p \<noteq> Outside \<longrightarrow> e = Retest d \<longrightarrow> wcurr w d = p \<longrightarrow> w_pc w' p = Outside)
    \<and> (w_pc w p = Calling \<longrightarrow> e = Kernel (Pick d) \<longrightarrow> wcurr w d = p \<longrightarrow> w_pc w' p = Slept)"
  proof (cases e)
    case (Kernel x)
    with st have "cmpl w' = cmpl w" "scanning w' = scanning w" by (auto split: option.splits event.splits if_splits)
    then have "covered w' = covered w" by (simp add: covered_def)
    with c Kernel st show ?thesis by (auto split: option.splits event.splits if_splits)
  next
    case (Retest a)
    with st have a: "w_pc w (wcurr w a) = Slept" "scanning w = None" "w' = wait_retest (wcurr w a) w" by (auto split: if_splits)
    have d: "cdone (cmpl w) \<noteq> 0" by (rule covered_awake(3)[OF w c, of "wcurr w a"]) (use a in simp)
    have q: "wcurr w a \<in> set (cwait (cmpl w))" using w a(1) by (simp add: wait_ok_def)
    show ?thesis using c a d q Retest by (auto simp: wait_retest_def Let_def covered_def unat_minus_one length_remove1)
  next
    case (Complete a)
    with st have "unat (cdone (cmpl w) + 1) = unat (cdone (cmpl w)) + 1"
      using wrap by (metis unatSuc add.commute Suc_eq_plus1 add_eq_0_iff2 minus_equation_iff)
    with Complete st c show ?thesis by (auto simp: covered_def split: if_splits)
  next
    case (Scan a)
    with st c show ?thesis
      by (auto simp: covered_def scan_entry_def split: if_splits option.splits list.splits prod.splits)
  qed (use new in auto)
  then show "covered w'" "w_pc w p = Outside \<Longrightarrow> w_pc w' p = Outside" "w_pc w p = Slept \<Longrightarrow> w_pc w' p \<noteq> Calling"
    "w_pc w p \<noteq> Outside \<Longrightarrow> e = Retest d \<Longrightarrow> wcurr w d = p \<Longrightarrow> w_pc w' p = Outside"
    "w_pc w p = Calling \<Longrightarrow> e = Kernel (Pick d) \<Longrightarrow> wcurr w d = p \<Longrightarrow> w_pc w' p = Slept" by blast+
qed

text \<open>
  C8: every waiter that has been completed returns. From a consistent state with at least as many
  completions as waiters, in every fair execution with no new waiter in which the counter of the
  completions does not wrap around, each task inside \<open>wait_for_completion\<close> leaves it for good.
\<close>

theorem completed_waiters_return:
  assumes K: "smp_ok K" and start: "wait_ok K base (f 0)" "scanning (f 0) = None"
      "length (cwait (cmpl (f 0))) \<le> unat (cdone (cmpl (f 0)))"
    and path: "wait_path K f ev" and fair: "fair_path f ev"
    and new: "\<And>i c. ev i \<noteq> Enter c" and wrap: "\<And>i c. ev i = Complete c \<Longrightarrow> cdone (cmpl (f i)) \<noteq> - 1"
  shows "\<exists>i. \<forall>j\<ge>i. w_pc (f j) p = Outside"
proof -
  have st: "wait_step K (ev i) (f i) = Some (f (Suc i))" for i using path by (simp add: wait_path_def)
  have inv: "wait_ok K base (f i) \<and> covered (f i)" for i
  proof (induction i)
    case 0
    with start show ?case by (simp add: covered_def)
  next
    case (Suc i)
    then have w: "wait_ok K base (f i)" and c: "covered (f i)" by simp_all
    have "covered (f (Suc i))" by (rule covered_step(1)[OF w c st[of i] new wrap])
    with wait_step_ok[OF K w st[of i]] show ?case by blast
  qed
  have next_pc: "w_pc (f i) p = Outside \<Longrightarrow> w_pc (f (Suc i)) p = Outside" "w_pc (f i) p = Slept \<Longrightarrow> w_pc (f (Suc i)) p \<noteq> Calling"
    "w_pc (f i) p \<noteq> Outside \<Longrightarrow> ev i = Retest d \<Longrightarrow> wcurr (f i) d = p \<Longrightarrow> w_pc (f (Suc i)) p = Outside"
    "w_pc (f i) p = Calling \<Longrightarrow> ev i = Kernel (Pick d) \<Longrightarrow> wcurr (f i) d = p \<Longrightarrow> w_pc (f (Suc i)) p = Slept" for i d
  proof -
    have w: "wait_ok K base (f i)" and c: "covered (f i)" using inv[of i] by simp_all
    note cs = covered_step(2-5)[OF w c st[of i] new wrap]
    show "w_pc (f i) p = Outside \<Longrightarrow> w_pc (f (Suc i)) p = Outside" by (rule cs(1))
    show "w_pc (f i) p = Slept \<Longrightarrow> w_pc (f (Suc i)) p \<noteq> Calling" by (rule cs(2))
    show "w_pc (f i) p \<noteq> Outside \<Longrightarrow> ev i = Retest d \<Longrightarrow> wcurr (f i) d = p \<Longrightarrow> w_pc (f (Suc i)) p = Outside" by (rule cs(3))
    show "w_pc (f i) p = Calling \<Longrightarrow> ev i = Kernel (Pick d) \<Longrightarrow> wcurr (f i) d = p \<Longrightarrow> w_pc (f (Suc i)) p = Slept" by (rule cs(4))
  qed
  have out: "w_pc (f j) p = Outside" if "w_pc (f i) p = Outside" "i \<le> j" for i j
    using that(2,1) by (induction rule: dec_induct) (auto intro: next_pc(1))
  have slept: "\<exists>j. w_pc (f j) p = Outside" if i: "w_pc (f i) p = Slept" for i
  proof -
    have stay: "w_pc (f j) p \<noteq> Calling" if "i \<le> j" for j
      using that
    proof (induction rule: dec_induct)
      case base
      with i show ?case by simp
    next
      case (step n)
      then show ?case using next_pc(1,2)[of n] by (cases "w_pc (f n) p") simp_all
    qed
    have "t_state (wtask (f i) p) = TASK_RUNNING" "t_on_list (wtask (f i) p)"
      using covered_awake(1,2)[of K base "f i" p] inv i by auto
    with i fair obtain j where j: "i \<le> j" "w_pc (f j) p \<noteq> Slept \<or> (\<exists>c. ev j = Retest c \<and> wcurr (f j) c = p)"
      unfolding fair_path_def by blast
    show ?thesis
    proof (cases "w_pc (f j) p")
      case Outside
      then show ?thesis by blast
    next
      case Slept
      with j(2) next_pc(3)[of j] show ?thesis by (metis wait_pc.distinct(3))
    qed (use stay[OF j(1)] in simp)
  qed
  have "\<exists>j. w_pc (f j) p = Outside"
  proof (cases "w_pc (f 0) p")
    case Calling
    with fair obtain j where j: "w_pc (f j) p \<noteq> Calling \<or> (\<exists>c. ev j = Kernel (Pick c) \<and> wcurr (f j) c = p)"
      unfolding fair_path_def by blast
    show ?thesis
    proof (cases "w_pc (f j) p")
      case Calling
      with j next_pc(4)[of j] slept show ?thesis by blast
    qed (use slept in blast)+
  qed (use slept in blast)+
  with out show ?thesis by blast
qed

section \<open>A small execution\<close>

definition small_csys :: "ptr list csys" where
  "small_csys = \<lparr>sys = \<lparr>core = small_state, leaving = (\<lambda>c. None)\<rparr>, cmpl = \<lparr>cdone = 0, cwait = []\<rparr>,
     scanning = None, w_pc = (\<lambda>p. Outside)\<rparr>"

text \<open>Task 3 waits on processor 0; processor 1 completes and picks task 3 up.\<close>

definition wait_events :: "wait_action list" where
  "wait_events = [Enter 0, Kernel (Pick 0), Kernel (Tail 0), Complete 1, Scan 1, Kernel (Pick 1), Kernel (Tail 1)]"

definition completed_csys :: "ptr list csys" where
  "completed_csys = the (wait_run (small_kernel True) wait_events small_csys)"

lemma small_csys_ok: "wait_ok (small_kernel True) (\<lambda>a. if a = 51 then 0 else 1) small_csys"
  using small_machine_ok by (simp add: wait_ok_def small_csys_def scan_ok_def)

lemma wait_run_reachable:
  "wait_run K es w = Some w' \<Longrightarrow> wait_reachable K w\<^sub>0 w \<Longrightarrow> wait_reachable K w\<^sub>0 w'"
  by (induction es arbitrary: w) (auto split: option.splits intro: wait_reachable.step)

lemma completed_eval:
  "map_option (\<lambda>w. (scanning w, cdone (cmpl w), cwait (cmpl w), w_pc w 3,
      executes (small_kernel True) w 1, wcurr w 1, tasks (core (sys w)) 9 = plain_task, is_idle (small_kernel True) (core (sys w)) 9))
     (wait_run (small_kernel True) wait_events small_csys) = Some (None, 1, [3], Slept, True, 3, True, False)"
  by code_simp

lemma completed_run:
  "scanning completed_csys = None" "cdone (cmpl completed_csys) = 1" "cwait (cmpl completed_csys) = [3]"
  "w_pc completed_csys 3 = Slept" "executes (small_kernel True) completed_csys 1" "wcurr completed_csys 1 = 3"
  "wtask completed_csys 9 = plain_task" "\<not> is_idle (small_kernel True) (core (sys completed_csys)) 9"
  "wait_reachable (small_kernel True) small_csys completed_csys"
proof -
  from completed_eval obtain w where w: "wait_run (small_kernel True) wait_events small_csys = Some w"
    and v: "(scanning w, cdone (cmpl w), cwait (cmpl w), w_pc w 3,
      executes (small_kernel True) w 1, wcurr w 1, tasks (core (sys w)) 9 = plain_task, is_idle (small_kernel True) (core (sys w)) 9)
      = (None, 1, [3], Slept, True, 3, True, False)"
    unfolding map_option_eq_Some by blast
  have c: "completed_csys = w" by (simp only: completed_csys_def w option.sel)
  show "scanning completed_csys = None" "cdone (cmpl completed_csys) = 1" "cwait (cmpl completed_csys) = [3]"
    "w_pc completed_csys 3 = Slept" "executes (small_kernel True) completed_csys 1" "wcurr completed_csys 1 = 3"
    "wtask completed_csys 9 = plain_task" "\<not> is_idle (small_kernel True) (core (sys completed_csys)) 9"
    using v unfolding c prod.inject by blast+
  show "wait_reachable (small_kernel True) small_csys completed_csys"
    unfolding c by (rule wait_run_reachable[OF w wait_reachable.start])
qed

theorem completion_no_lost_wakeup_witness:
  "1 \<le> length (filter (\<lambda>p. t_state (wtask completed_csys p) = TASK_RUNNING
      \<and> p \<in> set (list_elems (small_kernel True) (runqueue (core (sys completed_csys))))) (cwait (cmpl completed_csys)))"
  using completion_no_lost_wakeup[OF small_machine_ok(1) small_csys_ok completed_run(9,1)]
  by (simp only: completed_run) simp

text \<open>Task 3 returns; then task 9 is touched for ever.\<close>

definition small_path :: "nat \<Rightarrow> ptr list csys" where
  "small_path i = (if i = 0 then completed_csys else wait_retest 3 completed_csys)"

definition small_event :: "nat \<Rightarrow> wait_action" where
  "small_event i = (if i = 0 then Retest 1 else Kernel (Change 9 0 0 0 0 False))"

lemma small_path_path: "wait_path (small_kernel True) small_path small_event"
  unfolding wait_path_def
proof
  fix i
  show "wait_step (small_kernel True) (small_event i) (small_path i) = Some (small_path (Suc i))"
  proof (cases i)
    case 0
    then show ?thesis using completed_run(1,4,5,6) by (simp add: small_path_def small_event_def)
  next
    case (Suc n)
    let ?w = "wait_retest 3 completed_csys"
    have s: "sys ?w = sys completed_csys" using completed_run(2) by (simp add: wait_retest_def Let_def)
    have "change_task 9 0 0 0 0 False (core (sys ?w)) = core (sys ?w)"
      using completed_run(7)
      by (cases "core (sys completed_csys)") (auto simp: s change_task_def upd_task_def plain_task_def fun_eq_iff)
    then have "machine_step (small_kernel True) (Change 9 0 0 0 0 False) (sys ?w) = Some (sys ?w)"
      using completed_run(8) by (cases "sys ?w") (simp add: s nice_ok_def)
    then have "wait_step (small_kernel True) (Kernel (Change 9 0 0 0 0 False)) ?w = Some ?w" by (cases ?w) simp
    with Suc show ?thesis by (simp add: small_path_def small_event_def)
  qed
qed

lemma small_path_pc: "w_pc (small_path i) p = (if i = 0 \<and> p = 3 then Slept else Outside)"
proof -
  have "wait_ok (small_kernel True) (\<lambda>a. if a = 51 then 0 else 1) completed_csys"
    by (rule wait_reachable_ok[OF small_machine_ok(1) small_csys_ok completed_run(9)])
  then have "p \<in> set (cwait (cmpl completed_csys)) \<longleftrightarrow> w_pc completed_csys p \<noteq> Outside" by (simp add: wait_ok_def)
  then show ?thesis using completed_run(2,3,4) by (auto simp: small_path_def wait_retest_def Let_def)
qed

lemma small_path_fair: "fair_path small_path small_event"
  unfolding fair_path_def small_path_pc by (auto intro: exI[of _ 1])

theorem completed_waiters_return_witness: "\<exists>i. \<forall>j\<ge>i. w_pc (small_path j) 3 = Outside"
proof (rule completed_waiters_return[OF small_machine_ok(1) _ _ _ small_path_path small_path_fair])
  have z: "small_path 0 = completed_csys" by (simp add: small_path_def)
  show "wait_ok (small_kernel True) (\<lambda>a. if a = 51 then 0 else 1) (small_path 0)"
    unfolding z by (rule wait_reachable_ok[OF small_machine_ok(1) small_csys_ok completed_run(9)])
  show "scanning (small_path 0) = None" "length (cwait (cmpl (small_path 0))) \<le> unat (cdone (cmpl (small_path 0)))"
    unfolding z completed_run by simp_all
qed (simp_all add: small_event_def split: if_splits)

end
