(* ===== verification/SchedStarve.thy ===== *)
theory SchedStarve
  imports SchedStates
begin

text \<open>
  No starvation: how long a time-sharing task with time left can wait on the run queue while the
  processors run others. The timer takes one tick off the counter of a running task at a time
  (\<open>timer.c\<close>, not part of the repository).
\<close>

section \<open>Steps while a task waits\<close>

datatype move = Do event | Tick nat

definition tick :: "nat \<Rightarrow> 'q machine \<Rightarrow> event" where
  "tick c m = (let q = cpu_curr (core m) c; t = tasks (core m) q in
     Change q (t_counter t - 1) (t_nice t) (t_policy t) (t_rt_priority t) (t_sigpending t))"

definition move_step :: "'q kernel \<Rightarrow> move \<Rightarrow> 'q machine \<Rightarrow> 'q machine option" where
  "move_step K mv m = (case mv of
     Do e \<Rightarrow> (case e of Change p c n pol rt sig \<Rightarrow> None | _ \<Rightarrow> machine_step K e m)
   | Tick c \<Rightarrow> if c \<in> cpus K \<and> 0 < t_counter (tasks (core m) (cpu_curr (core m) c))
       then machine_step K (tick c m) m else None)"

definition charged :: "move \<Rightarrow> nat" where
  "charged mv = (case mv of Do e \<Rightarrow> 0 | Tick c \<Rightarrow> 1)"

text \<open>The ticks of a run in which no processor takes up \<open>p\<close>, and where it ends.\<close>

fun bypass :: "'q kernel \<Rightarrow> ptr \<Rightarrow> move list \<Rightarrow> 'q machine \<Rightarrow> (nat \<times> 'q machine) option" where
  "bypass K p [] m = Some (0, m)"
| "bypass K p (mv # mvs) m = Option.bind (move_step K mv m) (\<lambda>m'.
     if p \<in> cpu_curr (core m') ` cpus K then None
     else map_option (\<lambda>(n, m''). (charged mv + n, m'')) (bypass K p mvs m'))"

text \<open>All tasks share time, and \<open>p\<close> waits with time left and may run everywhere.\<close>

definition time_sharing :: "'q sched \<Rightarrow> bool" where
  "time_sharing s \<longleftrightarrow> (\<forall>q\<in>set (all_tasks s). t_policy (tasks s q) AND NOT SCHED_YIELD = SCHED_OTHER)"

definition ready :: "'q kernel \<Rightarrow> ptr \<Rightarrow> 'q sched \<Rightarrow> bool" where
  "ready K p s \<longleftrightarrow> p \<in> set (list_elems K (runqueue s)) \<and> t_policy (tasks s p) = SCHED_OTHER
     \<and> 0 < t_counter (tasks s p) \<and> t_cpus_runnable (tasks s p) = NOT 0
     \<and> (\<forall>c\<in>cpus K. t_cpus_allowed (tasks s p) AND cpu_bit c \<noteq> 0)"

definition time_left :: "'q sched \<Rightarrow> ptr \<Rightarrow> int" where
  "time_left s p = (\<Sum>q\<in>set (all_tasks s) - {p}. t_counter (tasks s q))"

section \<open>What a step leaves alone\<close>

definition billing :: "task \<Rightarrow> int \<times> u32 \<times> u32" where
  "billing t = (t_counter t, t_policy t AND NOT SCHED_YIELD, t_cpus_allowed t)"

lemma or_yield [simp]: "((x :: u32) OR SCHED_YIELD) AND NOT SCHED_YIELD = x AND NOT SCHED_YIELD"
  by (rule bit_word_eqI) (auto simp: bit_simps)

lemma and_not_yield [simp]: "(x AND NOT SCHED_YIELD :: u32) AND NOT SCHED_YIELD = x AND NOT SCHED_YIELD"
  by (simp add: and.assoc)

lemma policy_other:
  assumes "(x :: u32) AND NOT SCHED_YIELD = SCHED_OTHER" "x AND SCHED_YIELD = 0"
  shows "x = SCHED_OTHER"
proof -
  have "x = x AND SCHED_YIELD OR x AND NOT SCHED_YIELD" by (rule bit_word_eqI) (auto simp: bit_simps)
  with assms show ?thesis by (metis SCHED_OTHER_def or.right_neutral)
qed

lemma only_resched_billing:
  "only_resched s s' \<Longrightarrow> billing (tasks s' q) = billing (tasks s q)"
  "only_resched s s' \<Longrightarrow> t_policy (tasks s' q) = t_policy (tasks s q)"
  "only_resched s s' \<Longrightarrow> t_cpus_runnable (tasks s' q) = t_cpus_runnable (tasks s q)"
  by (auto simp: only_resched_def billing_def)

lemmas idle_billing = only_resched_billing[OF only_resched_idle]

lemma wake_billing:
  "billing (tasks (snd (try_to_wake_up K c p sync s)) q) = billing (tasks s q)"
  "t_policy (tasks (snd (try_to_wake_up K c p sync s)) q) = t_policy (tasks s q)"
  "t_cpus_runnable (tasks (snd (try_to_wake_up K c p sync s)) q) = t_cpus_runnable (tasks s q)"
  by (auto simp: try_to_wake_up_def Let_def add_to_runqueue_def idle_billing) (auto simp: billing_def)

lemma yield_billing:
  "billing (tasks (snd (sys_sched_yield K p s)) q) = billing (tasks s q)"
  "q \<noteq> p \<Longrightarrow> t_policy (tasks (snd (sys_sched_yield K p s)) q) = t_policy (tasks s q)"
  "t_cpus_runnable (tasks (snd (sys_sched_yield K p s)) q) = t_cpus_runnable (tasks s q)"
  by (auto simp: sys_sched_yield_def Let_def move_last_runqueue_def billing_def simp del: SCHED_YIELD_def)

lemma tail_billing:
  "billing (tasks (schedule_tail K c p s) q) = billing (tasks s q)"
  "q \<noteq> p \<Longrightarrow> t_policy (tasks (schedule_tail K c p s) q) = t_policy (tasks s q)"
  "q \<noteq> p \<Longrightarrow> t_cpus_runnable (tasks (schedule_tail K c p s) q) = t_cpus_runnable (tasks s q)"
  by (auto simp: schedule_tail_def Let_def idle_billing task_release_cpu_def simp del: SCHED_YIELD_def)
    (auto simp: billing_def simp del: SCHED_YIELD_def)

lemma start_billing:
  assumes "t_policy (tasks s prev) AND NOT SCHED_YIELD = SCHED_OTHER"
  shows "billing (tasks (schedule_start K prev s) q) = billing (tasks s q)"
    "t_policy (tasks (schedule_start K prev s) q) = t_policy (tasks s q)"
    "t_cpus_runnable (tasks (schedule_start K prev s) q) = t_cpus_runnable (tasks s q)"
proof -
  have "t_policy (tasks s prev) \<noteq> SCHED_RR" using assms by auto
  then show "billing (tasks (schedule_start K prev s) q) = billing (tasks s q)"
    "t_policy (tasks (schedule_start K prev s) q) = t_policy (tasks s q)"
    "t_cpus_runnable (tasks (schedule_start K prev s) q) = t_cpus_runnable (tasks s q)"
    by (auto simp: schedule_start_def schedule_sleep_def Let_def del_from_runqueue_def billing_def)
qed

lemma switch_billing:
  assumes "schedule_switch K c prev nxt s = Inr s'"
  shows "billing (tasks s' q) = billing (tasks s q)" "q \<noteq> prev \<Longrightarrow> t_policy (tasks s' q) = t_policy (tasks s q)"
    "q \<noteq> nxt \<Longrightarrow> t_cpus_runnable (tasks s' q) = t_cpus_runnable (tasks s q)"
  using assms
  by (auto simp: schedule_switch_def switch_address_space_def task_set_cpu_def Let_def billing_def
      simp del: SCHED_YIELD_def split: if_splits)

section \<open>The choice while a task waits\<close>

lemma cpu_bit_not_all: "c < 32 \<Longrightarrow> cpu_bit c \<noteq> NOT 0"
  using cpu_bit_less[of c "if c = 0 then 1 else 0"] by (auto simp: bit_simps split: if_splits)

lemma ready_not_current:
  assumes "smp_ok K" "machine_ok K base m" "ready K p (core m)" "c \<in> cpus K"
  shows "cpu_curr (core m) c \<noteq> p" "leaving m c \<noteq> Some p"
  using assms cpu_bit_not_all[of c] machine_marks(2,4)[OF assms(2), of c] by (auto simp: ready_def smp_ok_def)

lemma current_other:
  assumes "machine_ok K base m" "time_sharing (core m)" "c \<in> cpus K"
  shows "t_policy (tasks (core m) (cpu_curr (core m) c)) AND NOT SCHED_YIELD = SCHED_OTHER"
proof (cases "cpu_curr (core m) c = idle_task K (core m) c")
  case True
  with assms(1,3) have "t_policy (tasks (core m) (cpu_curr (core m) c)) = SCHED_OTHER"
    by (auto simp: machine_ok_def idles_ok_def is_idle_def)
  then show ?thesis by simp
next
  case False
  with assms(1,3) have "cpu_curr (core m) c \<in> set (all_tasks (core m))"
    by (auto simp: machine_ok_def queued_ok_def all_ok_def)
  with assms(2) show ?thesis by (simp add: time_sharing_def)
qed

text \<open>Which of the tasks is chosen when the best one is not out of time: never an exhausted one.\<close>

lemma chosen_has_time:
  assumes s: "tasks_ok K s" "penalty_ok K" and sh: "time_sharing s" and p: "ready K p s" and c: "c \<in> cpus K"
    and q: "chosen K c mm s q"
  shows "0 < t_counter (tasks s q)" "q \<in> set (list_elems K (runqueue s))" "0 < goodness K (tasks s q) c mm"
proof -
  let ?g = "\<lambda>p. goodness K (tasks s p) c mm"
  have pq: "p \<in> set (list_elems K (runqueue s))" and can: "can_schedule K (tasks s p) c"
    using p c by (auto simp: ready_def can_schedule_def)
  have fit: "task_fits (tasks s x)" "x \<in> set (all_tasks s)" if "x \<in> set (list_elems K (runqueue s))" for x
    using s(1) that by (auto simp: tasks_ok_def task_ok_fits)
  have gp: "0 < ?g p"
    by (rule goodness_cases[OF fit(1)[OF pq] s(2), of c mm]) (use p in \<open>auto simp: ready_def\<close>)
  from chosen_in_runqueue[OF q] pq can have qq: "q \<in> set (list_elems K (runqueue s))" "can_schedule K (tasks s q) c" by auto
  have "first_max ?g (filter (\<lambda>p. can_schedule K (tasks s p) c) (list_elems K (runqueue s))) q"
    using q pq can by (auto simp: chosen_def Let_def filter_empty_conv split: if_splits)
  from first_max_greatest[OF this, of p] pq can gp have gq: "0 < ?g q" by simp
  have pol: "t_policy (tasks s q) AND NOT SCHED_YIELD = SCHED_OTHER"
    using sh fit(2)[OF qq(1)] by (simp add: time_sharing_def)
  have "0 \<le> t_counter (tasks s q)" using fit(1)[OF qq(1)] by (simp add: task_fits_def)
  moreover have "t_counter (tasks s q) \<noteq> 0"
    by (rule goodness_cases[OF fit(1)[OF qq(1)] s(2), of c mm])
      (use gq policy_other[OF pol] in \<open>auto simp del: SCHED_YIELD_def SCHED_OTHER_def\<close>)
  ultimately show "0 < t_counter (tasks s q)" "q \<in> set (list_elems K (runqueue s))" "0 < ?g q" using qq gq by simp_all
qed

lemma billing_parts:
  assumes "billing t = billing u"
  shows "t_counter t = t_counter u" "t_policy t AND NOT SCHED_YIELD = t_policy u AND NOT SCHED_YIELD"
    "t_cpus_allowed t = t_cpus_allowed u"
  using assms by (simp_all add: billing_def)

text \<open>The pass of a processor while \<open>p\<close> waits: no refill, and a task with time left, which may be \<open>p\<close>.\<close>

lemma ready_pass:
  assumes K: "smp_ok K" and m: "machine_ok K base m" and c: "c \<in> cpus K" and lv: "leaving m c = None"
    and sh: "time_sharing (core m)" and p: "ready K p (core m)" and st: "machine_step K (Pick c) m = Some m'"
  shows "0 < t_counter (tasks (core m) (cpu_curr (core m') c))"
    "cpu_curr (core m') c \<in> set (all_tasks (core m))"
    "billing (tasks (core m') q) = billing (tasks (core m) q)"
    "cpu_curr (core m') c \<noteq> p \<Longrightarrow> t_policy (tasks (core m') p) = t_policy (tasks (core m) p)"
    "cpu_curr (core m') c \<noteq> p \<Longrightarrow> t_cpus_runnable (tasks (core m') p) = t_cpus_runnable (tasks (core m) p)"
proof -
  let ?s = "core m" and ?prev = "cpu_curr (core m) c"
  let ?mm = "t_active_mm (tasks ?s ?prev)" and ?t = "schedule_start K ?prev ?s"
  have s: "core_ok K base (cpus K) (leaving m) ?s" using m by (simp add: machine_ok_core)
  note t = schedule_start_ok[OF K s c]
  have tok: "tasks_ok K ?t" using t(1) by (auto simp: core_ok_def all_ok_def tasks_ok_def)
  have pen: "penalty_ok K" using K by (simp add: smp_ok_def)
  note b = start_billing[OF current_other[OF m sh c], of K] and np = ready_not_current(1)[OF K m p c]
  have sh': "time_sharing ?t" using sh by (simp add: time_sharing_def schedule_start_frame billing_parts(2)[OF b(1)] del: SCHED_YIELD_def SCHED_OTHER_def)
  have "t_on_list (tasks ?s p)" "p \<noteq> init_task K" using m p by (auto simp: machine_ok_def rq_ok_def idles_ok_def ready_def)
  then have "p \<in> set (list_elems K (runqueue ?t))"
    using t(1) schedule_start_states(2)[of p ?prev K ?s] np by (auto simp: core_ok_def rq_ok_def)
  with p have p': "ready K p ?t"
    by (simp add: ready_def b(2,3) billing_parts(1,3)[OF b(1)] del: SCHED_OTHER_def)
  from repeat_schedule_stock[OF tok pen, of c ?mm] obtain nxt where
    r: "repeat_schedule K (\<lambda>s. Inr (recalculate K s)) c ?mm ?t
        = Some (Inr (nxt, if out_of_time K c ?mm ?t then recalculate K ?t else ?t))"
      "chosen K c ?mm (if out_of_time K c ?mm ?t then recalculate K ?t else ?t) nxt" by auto
  have no: "\<not> out_of_time K c ?mm ?t"
    using chosen_has_time(3)[OF tok pen sh' p' c] unfolding out_of_time_def by force
  note time = chosen_has_time[OF tok pen sh' p' c r(2)[unfolded if_not_P[OF no]]]
  from st lv c obtain s' where sw: "schedule_switch K c ?prev nxt ?t = Inr s'" "core m' = s'"
    by (auto simp: schedule_pass_def machine_marks(1)[OF m c] r(1) no Let_def split: sum.splits)
  note w = switch_billing[OF sw(1)] and cc = schedule_switch_states(5)[OF sw(1)]
  have curr: "cpu_curr (core m') c = nxt" using cc by (simp add: sw(2))
  show "0 < t_counter (tasks ?s (cpu_curr (core m') c))" "cpu_curr (core m') c \<in> set (all_tasks ?s)"
    using time(1,2) tok by (auto simp: curr billing_parts(1)[OF b(1)] tasks_ok_def schedule_start_frame)
  show "billing (tasks (core m') q) = billing (tasks ?s q)" by (simp add: sw(2) w(1) b(1))
  show "cpu_curr (core m') c \<noteq> p \<Longrightarrow> t_policy (tasks (core m') p) = t_policy (tasks ?s p)"
    "cpu_curr (core m') c \<noteq> p \<Longrightarrow> t_cpus_runnable (tasks (core m') p) = t_cpus_runnable (tasks ?s p)"
    unfolding curr using np w(2,3)[of p] b(2,3)[of p] by (simp_all add: sw(2))
qed

section \<open>Every step\<close>

lemma event_billing:
  assumes K: "smp_ok K" and m: "machine_ok K base m" and sh: "time_sharing (core m)" and p: "ready K p (core m)"
    and st: "machine_step K e m = Some m'" and e: "\<And>x a n pol rt sig. e \<noteq> Change x a n pol rt sig"
    and away: "p \<notin> cpu_curr (core m') ` cpus K"
  shows "billing (tasks (core m') q) = billing (tasks (core m) q)"
    and "t_policy (tasks (core m') p) = t_policy (tasks (core m) p)"
    and "t_cpus_runnable (tasks (core m') p) = t_cpus_runnable (tasks (core m) p)"
proof -
  have "billing (tasks (core m') q) = billing (tasks (core m) q)
    \<and> t_policy (tasks (core m') p) = t_policy (tasks (core m) p)
    \<and> t_cpus_runnable (tasks (core m') p) = t_cpus_runnable (tasks (core m) p)"
  proof (cases e)
    case (Pick c)
    with st have c: "c \<in> cpus K" "leaving m c = None" by (auto simp: Let_def split: if_splits)
    with away have "cpu_curr (core m') c \<noteq> p" by blast
    with ready_pass[OF K m c sh p st[unfolded Pick]] show ?thesis by blast
  next
    case (Tail c)
    with st obtain x where x: "leaving m c = Some x" "c \<in> cpus K" "core m' = schedule_tail K c x (core m)"
      by (auto split: option.splits if_splits)
    with ready_not_current(2)[OF K m p x(2)] show ?thesis by (simp add: tail_billing)
  next
    case (Wake c x sync)
    with st show ?thesis by (auto simp: wake_billing split: if_splits)
  next
    case (Yield c)
    with st have c: "c \<in> cpus K" "core m' = snd (sys_sched_yield K (cpu_curr (core m) c) (core m))" by (auto split: if_splits)
    with ready_not_current(1)[OF K m p c(1)] show ?thesis by (simp add: yield_billing)
  next
    case (Sleep c x)
    with st show ?thesis by (auto simp: billing_def split: if_splits)
  qed (use e in blast)
  then show "billing (tasks (core m') q) = billing (tasks (core m) q)"
    "t_policy (tasks (core m') p) = t_policy (tasks (core m) p)"
    "t_cpus_runnable (tasks (core m') p) = t_cpus_runnable (tasks (core m) p)" by blast+
qed

lemma step_keeps_queued:
  assumes K: "smp_ok K" and m: "machine_ok K base m" and p: "ready K p (core m)" and st: "machine_step K e m = Some m'"
  shows "p \<in> set (list_elems K (runqueue (core m')))" "all_tasks (core m') = all_tasks (core m)"
proof -
  have m': "machine_ok K base m'" by (rule machine_step_ok[OF K m st])
  have on: "t_on_list (tasks (core m) p)" "p \<noteq> init_task K"
    using m p by (auto simp: machine_ok_def rq_ok_def idles_ok_def ready_def)
  have "c \<in> cpus K" if "e = Pick c" for c using st that by (auto simp: Let_def split: if_splits)
  with ready_not_current(1)[OF K m p] machine_step_states(2)[OF K m st on(1)] have "t_on_list (tasks (core m') p)" by blast
  with m' on(2) show "p \<in> set (list_elems K (runqueue (core m')))" by (auto simp: machine_ok_def rq_ok_def)
  show "all_tasks (core m') = all_tasks (core m)" by (rule machine_step_states(4)[OF K m st])
qed

lemma move_step_keeps:
  assumes K: "smp_ok K" and m: "machine_ok K base m" and sh: "time_sharing (core m)" and p: "ready K p (core m)"
    and mv: "move_step K mv m = Some m'" and away: "p \<notin> cpu_curr (core m') ` cpus K"
  shows "machine_ok K base m'" "time_sharing (core m')" "ready K p (core m')"
    "int (charged mv) + time_left (core m') p = time_left (core m) p"
proof -
  have "machine_ok K base m' \<and> time_sharing (core m') \<and> ready K p (core m')
    \<and> int (charged mv) + time_left (core m') p = time_left (core m) p"
  proof (cases mv)
    case (Do e)
    with mv have st: "machine_step K e m = Some m'" and e: "e \<noteq> Change x a n pol rt sig" for x a n pol rt sig
      by (auto simp: move_step_def split: event.splits)
    note b = event_billing[OF K m sh p st e away] and f = step_keeps_queued[OF K m p st]
    have "time_sharing (core m')"
      using sh by (simp add: time_sharing_def f(2) billing_parts(2)[OF b(1)] del: SCHED_YIELD_def SCHED_OTHER_def)
    moreover have "ready K p (core m')"
      using p f(1) by (simp add: ready_def b(2,3) billing_parts(1,3)[OF b(1)] del: SCHED_OTHER_def)
    moreover have "time_left (core m') p = time_left (core m) p"
      by (simp add: time_left_def f(2) billing_parts(1)[OF b(1)])
    ultimately show ?thesis using machine_step_ok[OF K m st] by (simp add: charged_def Do)
  next
    case (Tick c)
    let ?q = "cpu_curr (core m) c"
    from mv Tick have c: "c \<in> cpus K" and st: "machine_step K (tick c m) m = Some m'"
      by (auto simp: move_step_def split: if_splits)
    note f = step_keeps_queued[OF K m p st] and np = ready_not_current(1)[OF K m p c]
    from st have idle: "\<not> is_idle K (core m) ?q"
      and t: "tasks (core m') = (tasks (core m))(?q := (tasks (core m) ?q)\<lparr>t_counter := t_counter (tasks (core m) ?q) - 1\<rparr>)"
      by (auto simp: tick_def Let_def change_task_def split: if_splits)
    have q: "?q \<in> set (all_tasks (core m)) - {p}"
      using m c idle np by (auto simp: machine_ok_def queued_ok_def all_ok_def is_idle_def)
    have "time_sharing (core m')" using sh by (simp add: time_sharing_def f(2) t)
    moreover have "ready K p (core m')" using p f(1) np by (simp add: ready_def t)
    moreover have "time_left (core m') p + 1 = time_left (core m) p"
      unfolding time_left_def f(2) t
      using sum.remove[OF _ q, of "\<lambda>q. t_counter (tasks (core m) q)"]
        sum.remove[OF _ q, of "\<lambda>x. t_counter (((tasks (core m))(?q := (tasks (core m) ?q)\<lparr>t_counter := t_counter (tasks (core m) ?q) - 1\<rparr>)) x)"]
      by simp
    ultimately show ?thesis using machine_step_ok[OF K m st] by (simp add: charged_def Tick)
  qed
  then show "machine_ok K base m'" "time_sharing (core m')" "ready K p (core m')"
    "int (charged mv) + time_left (core m') p = time_left (core m) p" by blast+
qed

lemma bypass_keeps:
  assumes K: "smp_ok K"
  shows "machine_ok K base m \<Longrightarrow> time_sharing (core m) \<Longrightarrow> ready K p (core m) \<Longrightarrow> bypass K p mvs m = Some (n, m')
    \<Longrightarrow> machine_ok K base m' \<and> time_sharing (core m') \<and> ready K p (core m')
      \<and> int n + time_left (core m') p = time_left (core m) p"
proof (induction mvs arbitrary: m n)
  case (Cons mv mvs)
  from Cons.prems(4) obtain u k where u: "move_step K mv m = Some u" "p \<notin> cpu_curr (core u) ` cpus K"
    "bypass K p mvs u = Some (k, m')" "n = charged mv + k"
    by (auto simp: bind_eq_Some_conv split: if_splits)
  note k = move_step_keeps[OF K Cons.prems(1-3) u(1,2)]
  from Cons.IH[OF k(1-3) u(3)] k(4) u(4) show ?case by simp
qed simp

lemma time_left_nonneg: "machine_ok K base m \<Longrightarrow> 0 \<le> time_left (core m) p"
  unfolding time_left_def by (rule sum_nonneg) (auto simp: machine_ok_def all_ok_def task_ok_def)

section \<open>No starvation\<close>

text \<open>
  C10: no starvation. While a time-sharing task that has time left waits on the run queue and all
  tasks share time, the counters of the others are not refilled, whatever the processors do: the
  ticks that pass without it are at most the time that the others had left at the beginning. Every
  \<open>schedule\<close> until then takes the waiting task or another one with time left, so that with the last of
  these ticks the waiting task is the next one on every processor.
\<close>

theorem no_starvation:
  assumes "smp_ok K" "machine_ok K base m" "time_sharing (core m)" "ready K p (core m)"
    and "bypass K p mvs m = Some (n, m')"
  shows "int n \<le> time_left (core m) p
    \<and> (\<forall>c\<in>cpus K. leaving m' c = None \<longrightarrow>
        (\<exists>m''. machine_step K (Pick c) m' = Some m'' \<and> 0 < t_counter (tasks (core m') (cpu_curr (core m'') c))
          \<and> (int n = time_left (core m) p \<longrightarrow> cpu_curr (core m'') c = p)))"
proof (intro conjI ballI impI)
  from bypass_keeps[OF assms] have k: "machine_ok K base m'" "time_sharing (core m')" "ready K p (core m')"
    "int n + time_left (core m') p = time_left (core m) p" by simp_all
  show "int n \<le> time_left (core m) p" using time_left_nonneg[OF k(1), of p] k(4) by linarith
  fix c assume c: "c \<in> cpus K" "leaving m' c = None"
  from pass_ok[OF assms(1) k(1) c] obtain nxt s' where
    "schedule_pass K (\<lambda>s. Inr (recalculate K s)) False (cpu_curr (core m') c) (core m') = Some (Inr (nxt, s'))" .
  then have "\<exists>m''. machine_step K (Pick c) m' = Some m''" using c by (simp add: Let_def)
  then obtain m'' where st: "machine_step K (Pick c) m' = Some m''" by blast
  note r = ready_pass(1,2)[OF assms(1) k(1) c k(2,3) st]
  have "cpu_curr (core m'') c = p" if "int n = time_left (core m) p"
  proof (rule ccontr)
    assume "cpu_curr (core m'') c \<noteq> p"
    with r(2) have "cpu_curr (core m'') c \<in> set (all_tasks (core m')) - {p}" by simp
    from member_le_sum[OF this, of "\<lambda>q. t_counter (tasks (core m') q)"] k(1)
    have "t_counter (tasks (core m') (cpu_curr (core m'') c)) \<le> time_left (core m') p"
      by (auto simp: time_left_def machine_ok_def all_ok_def task_ok_def)
    with r(1) k(4) that show False by simp
  qed
  with st r(1) show "\<exists>m''. machine_step K (Pick c) m' = Some m'' \<and> 0 < t_counter (tasks (core m') (cpu_curr (core m'') c))
      \<and> (int n = time_left (core m) p \<longrightarrow> cpu_curr (core m'') c = p)" by blast
qed

text \<open>
  Task 3 runs with two ticks left, task 4 waits with five: after a tick, a pass of \<open>schedule\<close> that
  keeps task 3 and a second tick, processor 0 goes over to task 4.
\<close>

definition contended :: "ptr list machine" where
  "contended =
     \<lparr>core = upd_task 4 (\<lambda>t. t\<lparr>t_counter := 5\<rparr>) (upd_task 3 (\<lambda>t. t\<lparr>t_counter := 2\<rparr>) small_state),
      leaving = (\<lambda>c. None)\<rparr>"

lemma contended_ok:
  "machine_ok (small_kernel True) (\<lambda>a. if a = 51 then 0 else 1) contended"
  "time_sharing (core contended)" "ready (small_kernel True) 4 (core contended)" "time_left (core contended) 4 = 2"
proof -
  let ?K = "small_kernel True" and ?u = "upd_task 3 (\<lambda>t. t\<lparr>t_counter := 2\<rparr>) small_state"
  have "quiet ?K small_state ?u" by (rule quiet_upd) (simp_all add: task_ok_def)
  moreover have "quiet ?K ?u (core contended)"
    unfolding contended_def machine.simps by (rule quiet_upd) (simp_all add: task_ok_def)
  ultimately have "quiet ?K small_state (core contended)" by (rule quiet_trans)
  then show "machine_ok ?K (\<lambda>a. if a = 51 then 0 else 1) contended"
    using machine_ok_quiet[OF small_machine_ok(2), of "core contended"] by (simp add: contended_def)
  show "time_sharing (core contended)" by (auto simp: time_sharing_def contended_def small_defs)
  have "cpus ?K = {0, 1}" by (auto simp: logical_cpus_def small_kernel_def)
  then show "ready ?K 4 (core contended)"
    by (simp add: ready_def contended_def small_defs cpu_bit_def)
  have "set (all_tasks (core contended)) - {4} = {2, 3}" by (auto simp: contended_def small_defs)
  then show "time_left (core contended) 4 = 2" by (simp add: time_left_def contended_def small_defs)
qed

lemma contended_run:
  "map_option (\<lambda>(n, m). (n, cpu_curr (core m) 0, leaving m 0)) (bypass (small_kernel True) 4 [Tick 0, Do (Pick 0), Tick 0] contended)
   = Some (2, 3, None)"
  by code_simp

theorem no_starvation_witness:
  "\<exists>m m'. bypass (small_kernel True) 4 [Tick 0, Do (Pick 0), Tick 0] contended = Some (2, m)
     \<and> machine_step (small_kernel True) (Pick 0) m = Some m' \<and> cpu_curr (core m') 0 = 4"
proof -
  obtain m where m: "bypass (small_kernel True) 4 [Tick 0, Do (Pick 0), Tick 0] contended = Some (2, m)" "leaving m 0 = None"
    using contended_run by (auto simp: map_option_eq_Some)
  have "0 \<in> cpus (small_kernel True)" by (auto simp: logical_cpus_def small_kernel_def)
  with no_starvation[OF small_machine_ok(1) contended_ok(1-3) m(1)] m contended_ok(4) show ?thesis by force
qed

end
