(* ===== verification/SchedQueues.thy ===== *)
theory SchedQueues
  imports SchedStates
begin

text \<open>
  The family of wake-ups that \<open>sched.h\<close> offers (\<open>wake_up\<close>, \<open>wake_up_all\<close>, \<open>wake_up_interruptible\<close> and
  so on), which tasks of a wait queue they wake, and the small inline functions next to them.
\<close>

section \<open>The macros\<close>

text \<open>\<open>wake_up\<close> itself is \<open>wake_up_one\<close> here; \<open>wake_up\<close> names the function \<open>__wake_up\<close>.\<close>

abbreviation TASK_NORMAL :: u32 where
  "TASK_NORMAL \<equiv> TASK_UNINTERRUPTIBLE OR TASK_INTERRUPTIBLE"

type_synonym waitqueue = "(ptr \<times> bool) list option"

definition wake_up_one :: "'q kernel \<Rightarrow> nat \<Rightarrow> waitqueue \<Rightarrow> 'q sched \<Rightarrow> 'q sched" where
  "wake_up_one K cpu x = wake_up K cpu x TASK_NORMAL 1"

definition wake_up_nr :: "'q kernel \<Rightarrow> nat \<Rightarrow> waitqueue \<Rightarrow> int \<Rightarrow> 'q sched \<Rightarrow> 'q sched" where
  "wake_up_nr K cpu x nr = wake_up K cpu x TASK_NORMAL nr"

definition wake_up_all :: "'q kernel \<Rightarrow> nat \<Rightarrow> waitqueue \<Rightarrow> 'q sched \<Rightarrow> 'q sched" where
  "wake_up_all K cpu x = wake_up K cpu x TASK_NORMAL 0"

definition wake_up_sync_one :: "'q kernel \<Rightarrow> nat \<Rightarrow> waitqueue \<Rightarrow> 'q sched \<Rightarrow> 'q sched" where
  "wake_up_sync_one K cpu x = wake_up_sync K cpu x TASK_NORMAL 1"

definition wake_up_sync_nr :: "'q kernel \<Rightarrow> nat \<Rightarrow> waitqueue \<Rightarrow> int \<Rightarrow> 'q sched \<Rightarrow> 'q sched" where
  "wake_up_sync_nr K cpu x nr = wake_up_sync K cpu x TASK_NORMAL nr"

definition wake_up_interruptible :: "'q kernel \<Rightarrow> nat \<Rightarrow> waitqueue \<Rightarrow> 'q sched \<Rightarrow> 'q sched" where
  "wake_up_interruptible K cpu x = wake_up K cpu x TASK_INTERRUPTIBLE 1"

definition wake_up_interruptible_nr :: "'q kernel \<Rightarrow> nat \<Rightarrow> waitqueue \<Rightarrow> int \<Rightarrow> 'q sched \<Rightarrow> 'q sched" where
  "wake_up_interruptible_nr K cpu x nr = wake_up K cpu x TASK_INTERRUPTIBLE nr"

definition wake_up_interruptible_all :: "'q kernel \<Rightarrow> nat \<Rightarrow> waitqueue \<Rightarrow> 'q sched \<Rightarrow> 'q sched" where
  "wake_up_interruptible_all K cpu x = wake_up K cpu x TASK_INTERRUPTIBLE 0"

definition wake_up_interruptible_sync :: "'q kernel \<Rightarrow> nat \<Rightarrow> waitqueue \<Rightarrow> 'q sched \<Rightarrow> 'q sched" where
  "wake_up_interruptible_sync K cpu x = wake_up_sync K cpu x TASK_INTERRUPTIBLE 1"

definition wake_up_interruptible_sync_nr :: "'q kernel \<Rightarrow> nat \<Rightarrow> waitqueue \<Rightarrow> int \<Rightarrow> 'q sched \<Rightarrow> 'q sched" where
  "wake_up_interruptible_sync_nr K cpu x nr = wake_up_sync K cpu x TASK_INTERRUPTIBLE nr"

text \<open>\<open>mmdrop\<close>: whether the page tables go (\<open>__mmdrop\<close>); \<open>set_task_state\<close> and \<open>need_resched\<close>.\<close>

definition mmdrop :: "ptr \<Rightarrow> 'q sched \<Rightarrow> bool \<times> 'q sched" where
  "mmdrop mm s = (mm_count s mm - 1 = 0, s\<lparr>mm_count := (mm_count s)(mm := mm_count s mm - 1)\<rparr>)"

definition set_task_state :: "ptr \<Rightarrow> u32 \<Rightarrow> 'q sched \<Rightarrow> 'q sched" where
  "set_task_state p state_value = upd_task p (\<lambda>t. t\<lparr>t_state := state_value\<rparr>)"

definition need_resched :: "ptr \<Rightarrow> 'q sched \<Rightarrow> bool" where
  "need_resched current s \<longleftrightarrow> t_need_resched (tasks s current) \<noteq> 0"

definition cond_resched_inline :: "'q kernel \<Rightarrow> bool \<Rightarrow> ptr \<Rightarrow> 'q sched \<Rightarrow> (panic + ptr \<times> 'q sched) option" where
  "cond_resched_inline K in_interrupt current s =
     (if need_resched current s then cond_resched K in_interrupt current s else Some (Inr (current, s)))"

section \<open>Which tasks are woken\<close>

definition woken :: "'q sched \<Rightarrow> 'q sched \<Rightarrow> ptr set \<Rightarrow> bool" where
  "woken s s' W \<longleftrightarrow> (\<forall>q. t_state (tasks s' q) = (if q \<in> W then TASK_RUNNING else t_state (tasks s q))
     \<and> (t_on_list (tasks s' q) \<longleftrightarrow> q \<in> W \<or> t_on_list (tasks s q)))"

lemma woken_refl: "woken s s {}"
  by (simp add: woken_def)

lemma woken_step: "woken (snd (try_to_wake_up K c p sync s)) s' W \<Longrightarrow> woken s s' (insert p W)"
  by (simp add: woken_def try_to_wake_up_frame)

text \<open>\<open>A\<close> tells the tasks that wait in a state of the mode, and are off the run queue.\<close>

definition asleep :: "'q sched \<Rightarrow> u32 \<Rightarrow> (ptr \<Rightarrow> bool) \<Rightarrow> ptr set \<Rightarrow> bool" where
  "asleep s mode A P \<longleftrightarrow> (\<forall>q\<in>P. A q \<longleftrightarrow> t_state (tasks s q) AND mode \<noteq> 0)
     \<and> (\<forall>q\<in>P. A q \<longrightarrow> \<not> t_on_list (tasks s q))"

lemma asleep_wake:
  "asleep s mode A (insert p P) \<Longrightarrow> p \<notin> P \<Longrightarrow> asleep (snd (try_to_wake_up K c p sync s)) mode A P"
  by (auto simp: asleep_def try_to_wake_up_frame)

lemma asleep_tail: "asleep s mode A (insert p P) \<Longrightarrow> asleep s mode A P"
  by (simp add: asleep_def)

lemma asleep_head:
  "asleep s mode A (insert p P) \<Longrightarrow> t_state (tasks s p) AND mode \<noteq> 0 \<longleftrightarrow> A p"
  "asleep s mode A (insert p P) \<Longrightarrow> A p \<Longrightarrow> fst (try_to_wake_up K c p sync s)"
  by (auto simp: asleep_def try_to_wake_up_frame)

lemma wake_exclusive_counted:
  assumes "asleep s mode A (set xs)" "distinct xs" "0 < nr" "nr < 2 ^ 31"
  shows "woken s (wake_up_entries K c mode sync (map (\<lambda>p. (p, True)) xs) nr s) (set (take (nat nr) (filter A xs)))"
  using assms
proof (induction xs arbitrary: s nr)
  case (Cons p xs)
  note a = asleep_head[of s mode A p "set xs"]
  show ?case
  proof (cases "A p")
    case False
    with Cons a show ?thesis by (auto dest: asleep_tail)
  next
    case True
    let ?u = "snd (try_to_wake_up K c p sync s)"
    obtain ok u where u: "try_to_wake_up K c p sync s = (ok, u)" by force
    have ok: ok using a(2)[of K c sync] Cons.prems(1) True u by simp
    have st: "t_state (tasks s p) AND mode \<noteq> 0" using a(1) Cons.prems(1) True by simp
    have w: "to_int32 (nr - 1) = nr - 1" by (rule to_int32_id) (use Cons.prems in simp_all)
    have tk: "take (nat nr) (filter A (p # xs)) = p # take (nat (nr - 1)) (filter A xs)"
      using True Cons.prems(3) by (simp add: take_Cons' nat_diff_distrib)
    have as: "asleep u mode A (set xs)" using asleep_wake[of s mode A p "set xs" K c sync] Cons.prems(1,2) u by simp
    show ?thesis
    proof (cases "nr - 1 = 0")
      case True
      then have "nr = 1" by simp
      with st ok u w woken_step[of K c p sync s u "{}"] woken_refl[of u] show ?thesis unfolding tk by (simp add: Let_def)
    next
      case False
      with Cons.IH[OF as, of "nr - 1"] Cons.prems have "woken u (wake_up_entries K c mode sync (map (\<lambda>p. (p, True)) xs) (nr - 1) u)
          (set (take (nat (nr - 1)) (filter A xs)))" by simp
      with woken_step[of K c p sync s] u have "woken s (wake_up_entries K c mode sync (map (\<lambda>p. (p, True)) xs) (nr - 1) u)
          (insert p (set (take (nat (nr - 1)) (filter A xs))))" by simp
      with st ok u w False show ?thesis unfolding tk by (simp add: Let_def)
    qed
  qed
qed (simp add: woken_refl)

text \<open>With the count 0 it goes below and does not come back to 0 before \<open>2\<^sup>3\<^sup>1\<close> tasks.\<close>

lemma wake_exclusive_all:
  assumes "asleep s mode A (set xs)" "distinct xs" "nr \<le> 0" "- (2 ^ 31) \<le> nr - int (length xs)"
  shows "woken s (wake_up_entries K c mode sync (map (\<lambda>p. (p, True)) xs) nr s) (set (filter A xs))"
  using assms
proof (induction xs arbitrary: s nr)
  case (Cons p xs)
  note a = asleep_head[of s mode A p "set xs"]
  show ?case
  proof (cases "A p")
    case False
    with Cons a show ?thesis by (auto dest: asleep_tail)
  next
    case True
    obtain ok u where u: "try_to_wake_up K c p sync s = (ok, u)" by force
    have ok: ok using a(2)[of K c sync] Cons.prems(1) True u by simp
    have st: "t_state (tasks s p) AND mode \<noteq> 0" using a(1) Cons.prems(1) True by simp
    have w: "to_int32 (nr - 1) = nr - 1" by (rule to_int32_id) (use Cons.prems in simp_all)
    have as: "asleep u mode A (set xs)" using asleep_wake[of s mode A p "set xs" K c sync] Cons.prems(1,2) u by simp
    from Cons.IH[OF as, of "nr - 1"] Cons.prems
    have "woken u (wake_up_entries K c mode sync (map (\<lambda>p. (p, True)) xs) (nr - 1) u) (set (filter A xs))" by simp
    with woken_step[of K c p sync s] u have "woken s (wake_up_entries K c mode sync (map (\<lambda>p. (p, True)) xs) (nr - 1) u)
        (insert p (set (filter A xs)))" by simp
    with st ok u w True Cons.prems(3) show ?thesis by (simp add: Let_def)
  qed
qed (simp add: woken_refl)

lemma wake_entries:
  assumes "asleep s mode A (set ns \<union> set xs)" "distinct (ns @ xs)" "0 \<le> nr" "nr < 2 ^ 31" "length xs < 2 ^ 31"
  shows "woken s (wake_up_entries K c mode sync (map (\<lambda>p. (p, False)) ns @ map (\<lambda>p. (p, True)) xs) nr s)
    (set (filter A ns) \<union> set (if nr = 0 then filter A xs else take (nat nr) (filter A xs)))"
  using assms(1,2)
proof (induction ns arbitrary: s)
  case Nil
  then show ?case
    using wake_exclusive_counted[of s mode A xs nr K c sync] wake_exclusive_all[of s mode A xs nr K c sync] assms(3-5)
    by (cases "nr = 0") (simp_all add: of_nat_less_iff[of "length xs" "2 ^ 31", symmetric] del: of_nat_less_iff)
next
  case (Cons p ns)
  note a = asleep_head[of s mode A p "set ns \<union> set xs"]
  obtain ok u where u: "try_to_wake_up K c p sync s = (ok, u)" by force
  show ?case
  proof (cases "A p")
    case False
    with Cons a(1) show ?thesis by (auto dest: asleep_tail)
  next
    case True
    have as: "asleep u mode A (set ns \<union> set xs)"
      using asleep_wake[of s mode A p "set ns \<union> set xs" K c sync] Cons.prems u by simp
    from woken_step[of K c p sync s, unfolded u snd_conv, OF Cons.IH[OF as]] Cons.prems True a(1) show ?thesis
      by (simp add: u)
  qed
qed

text \<open>The tasks that a wake-up of up to \<open>nr\<close> exclusive waiters (0: all) selects.\<close>

definition selected :: "'q sched \<Rightarrow> ptr list \<Rightarrow> ptr list \<Rightarrow> u32 \<Rightarrow> int \<Rightarrow> ptr set" where
  "selected s ns xs mode nr =
     (let waits = (\<lambda>p. t_state (tasks s p) AND mode \<noteq> 0)
      in set (filter waits ns) \<union> set (if nr = 0 then filter waits xs else take (nat nr) (filter waits xs)))"

lemma wake_up_selects:
  assumes "distinct (ns @ xs)" "\<forall>p\<in>set (ns @ xs). t_state (tasks s p) AND TASK_NORMAL \<noteq> 0 \<longrightarrow> \<not> t_on_list (tasks s p)"
    and "0 \<le> nr" "nr < 2 ^ 31" "length xs < 2 ^ 31" and "mode = TASK_NORMAL \<or> mode = TASK_INTERRUPTIBLE"
  defines "q \<equiv> Some (map (\<lambda>p. (p, False)) ns @ map (\<lambda>p. (p, True)) xs)"
  shows "woken s (wake_up K c q mode nr s) (selected s ns xs mode nr)"
    "woken s (wake_up_sync K c q mode nr s) (selected s ns xs mode nr)"
proof -
  have "x AND TASK_INTERRUPTIBLE = (x AND TASK_NORMAL) AND TASK_INTERRUPTIBLE" for x
    by (simp add: and.assoc)
  then have "t_state (tasks s p) AND TASK_NORMAL \<noteq> 0" if "t_state (tasks s p) AND mode \<noteq> 0" for p
    using that assms(6) by (metis and_zero_eq and.commute)
  with assms(2) have "asleep s mode (\<lambda>p. t_state (tasks s p) AND mode \<noteq> 0) (set ns \<union> set xs)"
    by (auto simp: asleep_def simp del: TASK_UNINTERRUPTIBLE_def TASK_INTERRUPTIBLE_def)
  from wake_entries[OF this assms(1,3-5)]
  show "woken s (wake_up K c q mode nr s) (selected s ns xs mode nr)"
    "woken s (wake_up_sync K c q mode nr s) (selected s ns xs mode nr)"
    by (simp_all add: wake_up_def wake_up_sync_def wake_up_common_def q_def selected_def Let_def
        del: TASK_UNINTERRUPTIBLE_def TASK_INTERRUPTIBLE_def)
qed

text \<open>
  C17: whom the ten wake-up macros wake. On a wait queue as \<open>add_wait_queue\<close> and
  \<open>add_wait_queue_exclusive\<close> build it, the exclusive waiters last, they make all waiting tasks that
  are not exclusive runnable, and of the exclusive ones the first, the first \<open>nr\<close> or all of them, in
  the order of the queue; tasks in other states stay as they are, the \<open>interruptible\<close> kind leaves
  uninterruptible sleepers alone, and the \<open>sync\<close> kind wakes the same tasks.
\<close>

theorem wake_up_macros:
  assumes "distinct (ns @ xs)" "\<forall>p\<in>set (ns @ xs). t_state (tasks s p) AND TASK_NORMAL \<noteq> 0 \<longrightarrow> \<not> t_on_list (tasks s p)"
    and "0 \<le> nr" "nr < 2 ^ 31" "length xs < 2 ^ 31"
    and "q = Some (map (\<lambda>p. (p, False)) ns @ map (\<lambda>p. (p, True)) xs)"
  shows "woken s (wake_up_one K c q s) (selected s ns xs TASK_NORMAL 1)
    \<and> woken s (wake_up_nr K c q nr s) (selected s ns xs TASK_NORMAL nr)
    \<and> woken s (wake_up_all K c q s) (selected s ns xs TASK_NORMAL 0)
    \<and> woken s (wake_up_sync_one K c q s) (selected s ns xs TASK_NORMAL 1)
    \<and> woken s (wake_up_sync_nr K c q nr s) (selected s ns xs TASK_NORMAL nr)
    \<and> woken s (wake_up_interruptible K c q s) (selected s ns xs TASK_INTERRUPTIBLE 1)
    \<and> woken s (wake_up_interruptible_nr K c q nr s) (selected s ns xs TASK_INTERRUPTIBLE nr)
    \<and> woken s (wake_up_interruptible_all K c q s) (selected s ns xs TASK_INTERRUPTIBLE 0)
    \<and> woken s (wake_up_interruptible_sync K c q s) (selected s ns xs TASK_INTERRUPTIBLE 1)
    \<and> woken s (wake_up_interruptible_sync_nr K c q nr s) (selected s ns xs TASK_INTERRUPTIBLE nr)"
  unfolding wake_up_one_def wake_up_nr_def wake_up_all_def wake_up_sync_one_def wake_up_sync_nr_def
    wake_up_interruptible_def wake_up_interruptible_nr_def wake_up_interruptible_all_def
    wake_up_interruptible_sync_def wake_up_interruptible_sync_nr_def assms(6)
  by (intro conjI wake_up_selects[OF assms(1,2)] assms(3-5)) simp_all

text \<open>One task waits with others, two exclusively; of the exclusive ones only the first is woken.\<close>

definition waiting_state :: "ptr list sched" where
  "waiting_state = small_state\<lparr>tasks := (\<lambda>p. plain_task\<lparr>t_state := (if p = 6 then TASK_UNINTERRUPTIBLE else TASK_INTERRUPTIBLE)\<rparr>)\<rparr>"

theorem wake_up_macros_witness:
  "let s' = wake_up_one (small_kernel True) 0 (Some [(5, False), (6, True), (7, True)]) waiting_state;
       s'' = wake_up_interruptible (small_kernel True) 0 (Some [(5, False), (6, True), (7, True)]) waiting_state
   in map (\<lambda>p. t_state (tasks s' p)) [5, 6, 7] = [TASK_RUNNING, TASK_RUNNING, TASK_INTERRUPTIBLE]
    \<and> map (\<lambda>p. t_state (tasks s'' p)) [5, 6, 7] = [TASK_RUNNING, TASK_UNINTERRUPTIBLE, TASK_RUNNING]"
proof -
  have sel: "selected waiting_state [5] [6, 7] TASK_NORMAL 1 = {5, 6}"
    "selected waiting_state [5] [6, 7] TASK_INTERRUPTIBLE 1 = {5, 7}"
    by (auto simp: selected_def waiting_state_def plain_task_def)
  have off: "\<forall>p\<in>set ([5] @ [6, 7]). t_state (tasks waiting_state p) AND TASK_NORMAL \<noteq> 0 \<longrightarrow> \<not> t_on_list (tasks waiting_state p)"
    by (simp add: waiting_state_def plain_task_def)
  have q: "Some [(5, False), (6, True), (7, True)] = Some (map (\<lambda>p. (p, False)) [5] @ map (\<lambda>p. (p, True)) [6, 7::ptr])" by simp
  have "woken waiting_state (wake_up_one (small_kernel True) 0 (Some [(5, False), (6, True), (7, True)]) waiting_state) {5, 6}
    \<and> woken waiting_state (wake_up_interruptible (small_kernel True) 0 (Some [(5, False), (6, True), (7, True)]) waiting_state) {5, 7}"
    using wake_up_macros[OF _ off _ _ _ q, of 1 "small_kernel True" 0] by (simp only: sel) simp
  then show ?thesis by (simp add: woken_def Let_def waiting_state_def)
qed

section \<open>The inline functions\<close>

text \<open>What a switch away from a kernel thread drops is what \<open>mmdrop\<close> drops.\<close>

lemma switch_drops_mm:
  assumes "t_mm (tasks s prev) = 0" "t_mm (tasks s nxt) \<noteq> 0" "t_active_mm (tasks s nxt) = t_mm (tasks s nxt)"
  shows "switch_address_space prev nxt s =
    Inr (snd (mmdrop (t_active_mm (tasks s prev)) (upd_task prev (\<lambda>t. t\<lparr>t_active_mm := 0\<rparr>) s)))"
  using assms by (simp add: switch_address_space_def mmdrop_def Let_def)

lemma cond_resched_inline_same: "cond_resched_inline K in_interrupt p s = cond_resched K in_interrupt p s"
  by (simp add: cond_resched_inline_def cond_resched_def need_resched_def)

lemma mmdrop_last: "fst (mmdrop a s) \<longleftrightarrow> mm_count s a = 1"
  by (auto simp: mmdrop_def)

end
