(* ===== verification/SchedTime.thy ===== *)
theory SchedTime
  imports SchedTask
begin

text \<open>
  Time in the scheduler: \<open>schedule_timeout\<close> (\<open>sched.c\<close>), the load
  averages and the conversions of clock ticks (\<open>sched.h\<close>). The timers (\<open>kernel/timer.c\<close>) and
  \<open>schedule\<close> itself appear as functions on the state.
\<close>

section \<open>Sleeping until a timeout\<close>

definition MAX_SCHEDULE_TIMEOUT :: int where
  "MAX_SCHEDULE_TIMEOUT = 2147483647"

text \<open>\<open>del_timer_sync\<close>, \<open>schedule\<close> and \<open>add_timer\<close> with the time at which the timer expires.\<close>

definition schedule_timeout ::
  "('s sched \<Rightarrow> 's sched) \<Rightarrow> (u32 \<Rightarrow> 's sched \<Rightarrow> 's sched) \<Rightarrow> ('s sched \<Rightarrow> 's sched) \<Rightarrow> ptr \<Rightarrow> int \<Rightarrow> 's sched \<Rightarrow> int \<times> 's sched" where
  "schedule_timeout schedule add_timer del_timer current timeout s =
     (if timeout = MAX_SCHEDULE_TIMEOUT then (if timeout < 0 then 0 else timeout, schedule s)
      else if timeout < 0 then (0, upd_task current (\<lambda>t. t\<lparr>t_state := TASK_RUNNING\<rparr>) s)
      else
        (let expire = word_of_int timeout + jiffies s;
             s' = del_timer (schedule (add_timer expire s));
             timeout = sint (expire - jiffies s')
         in (if timeout < 0 then 0 else timeout, s')))"

text \<open>The word arithmetic of \<open>expire - jiffies\<close>: it counts down from the timeout through the wrap-around.\<close>

lemma timeout_left:
  assumes "0 \<le> timeout" "timeout < 2 ^ 31" "d \<le> 2 ^ 31 + nat timeout"
  shows "sint (word_of_int timeout + j - (j + word_of_nat d) :: u32) = timeout - int d"
proof -
  have "word_of_int timeout + j - (j + word_of_nat d) = (word_of_int (timeout - int d) :: u32)"
    by (simp add: algebra_simps)
  moreover have "sint (word_of_int (timeout - int d) :: u32) = timeout - int d"
    unfolding sint_sbintrunc' by (rule signed_take_bit_int_eq_self) (use assms in auto)
  ultimately show ?thesis by simp
qed

text \<open>
  C32: \<open>schedule_timeout\<close> returns what is left of the timeout, never less than 0, even when
  \<open>jiffies\<close> wraps around in between: with \<open>d\<close> ticks passed it is the timeout less \<open>d\<close>. A negative
  timeout returns 0 at once with the task running, and \<open>MAX_SCHEDULE_TIMEOUT\<close> comes back unchanged.
\<close>

theorem schedule_timeout_left:
  assumes "timeout < 2 ^ 31"
    and "\<And>e. jiffies (del_timer (schedule (add_timer e s))) = jiffies s + word_of_nat d"
    and "0 \<le> timeout \<Longrightarrow> d \<le> 2 ^ 31 + nat timeout"
  shows "fst (schedule_timeout schedule add_timer del_timer me timeout s) =
      (if timeout = MAX_SCHEDULE_TIMEOUT then timeout else max 0 (timeout - max 0 (if timeout < 0 then 0 else int d)))
    \<and> (timeout < 0 \<longrightarrow> snd (schedule_timeout schedule add_timer del_timer me timeout s) =
        upd_task me (\<lambda>t. t\<lparr>t_state := TASK_RUNNING\<rparr>) s)"
  using assms timeout_left[of timeout d "jiffies s"]
  by (auto simp: schedule_timeout_def MAX_SCHEDULE_TIMEOUT_def Let_def)

text \<open>Fifteen ticks before \<open>jiffies\<close> wraps around, a sleep of 100 ticks interrupted after 40.\<close>

theorem schedule_timeout_left_witness:
  "fst (schedule_timeout (\<lambda>s. s\<lparr>jiffies := jiffies s + 40\<rparr>) (\<lambda>e s. s) (\<lambda>s. s) 3 100 (small_state\<lparr>jiffies := - 15\<rparr>)) = 60"
  using schedule_timeout_left[where timeout = 100 and d = 40 and schedule = "\<lambda>s. s\<lparr>jiffies := jiffies s + 40\<rparr>"
      and add_timer = "\<lambda>e s. s" and del_timer = "\<lambda>s. s" and s = "small_state\<lparr>jiffies := - 15\<rparr>" and me = 3]
  by (simp add: MAX_SCHEDULE_TIMEOUT_def)

section \<open>Load averages\<close>

definition FSHIFT :: nat where [simp]: "FSHIFT = 11"
definition FIXED_1 :: u32 where [simp]: "FIXED_1 = 2048"
definition EXP_1 :: u32 where [simp]: "EXP_1 = 1884"
definition EXP_5 :: u32 where [simp]: "EXP_5 = 2014"
definition EXP_15 :: u32 where [simp]: "EXP_15 = 2037"

definition CALC_LOAD :: "u32 \<Rightarrow> u32 \<Rightarrow> u32 \<Rightarrow> u32" where
  "CALC_LOAD load exp n = drop_bit FSHIFT (load * exp + n * (FIXED_1 - exp))"

definition CT_TO_SECS :: "'q kernel \<Rightarrow> u32 \<Rightarrow> u32" where
  "CT_TO_SECS K x = x div word_of_int (HZ K)"

definition CT_TO_USECS :: "'q kernel \<Rightarrow> u32 \<Rightarrow> u32" where
  "CT_TO_USECS K x = (x mod word_of_int (HZ K)) * 1000000 div word_of_int (HZ K)"

text \<open>
  A load average is a weighted mean and never overflows below 1024 runnable tasks. With the
  old load and the number of tasks (both in fixed point) at most \<open>B\<close>, \<open>B\<close> below 2 ^ 21, the new load is
  the exact quotient of the weighted sum and again at most \<open>B\<close>.
\<close>

theorem CALC_LOAD_mean:
  assumes "exp \<in> {EXP_1, EXP_5, EXP_15}" "unat load \<le> B" "unat n \<le> B" "B < 2 ^ 21"
  shows "unat (CALC_LOAD load exp n) = (unat load * unat exp + unat n * (2048 - unat exp)) div 2048
    \<and> unat (CALC_LOAD load exp n) \<le> B"
proof -
  have e: "unat exp \<le> 2048" "unat (FIXED_1 - exp) = 2048 - unat exp" using assms(1) by auto
  have "unat load * unat exp + unat n * (2048 - unat exp) \<le> B * unat exp + B * (2048 - unat exp)"
    using assms by (intro add_mono mult_right_mono) simp_all
  also have "\<dots> = B * 2048" using e(1) by (simp flip: distrib_left)
  finally have le: "unat load * unat exp + unat n * (2048 - unat exp) \<le> B * 2048" .
  have small: "unat load * unat exp + unat n * (2048 - unat exp) < 2 ^ 32" using le assms(4) by simp
  have "unat (load * exp + n * (FIXED_1 - exp)) = unat load * unat exp + unat n * (2048 - unat exp)"
    using small e(2) by (simp add: unat_word_ariths)
  then have v: "unat (CALC_LOAD load exp n) = (unat load * unat exp + unat n * (2048 - unat exp)) div 2048"
    by (simp add: CALC_LOAD_def unat_div drop_bit_eq_div)
  moreover have "(unat load * unat exp + unat n * (2048 - unat exp)) div 2048 \<le> B" using le by (simp add: div_le_mono)
  ultimately show ?thesis by simp
qed

theorem CALC_LOAD_mean_witness: "unat (CALC_LOAD 2048 EXP_1 4096) = 2212"
  using CALC_LOAD_mean[of EXP_1 2048 4096 4096] by simp

text \<open>Both conversions together lose less than a microsecond for each tick of a second.\<close>

lemma CT_TO_USECS_exact:
  assumes "0 < HZ K" "HZ K \<le> 4294"
  shows "uint (CT_TO_SECS K x) = uint x div HZ K" "uint (CT_TO_USECS K x) = (uint x mod HZ K) * 1000000 div HZ K"
    "uint (CT_TO_USECS K x) < 1000000"
proof -
  have hz: "uint (word_of_int (HZ K) :: u32) = HZ K" using assms by (simp add: uint_word_of_int)
  have r: "0 \<le> uint x mod HZ K" "uint x mod HZ K < HZ K" using assms by simp_all
  then have "uint x mod HZ K \<le> 4293" using assms by linarith
  then have m: "(uint x mod HZ K) * 1000000 < 2 ^ 32" by simp
  show "uint (CT_TO_SECS K x) = uint x div HZ K" by (simp add: CT_TO_SECS_def uint_div hz)
  have "uint ((x mod word_of_int (HZ K)) * 1000000 :: u32) = (uint x mod HZ K) * 1000000"
    using m r by (simp add: uint_word_ariths uint_mod hz)
  then show u: "uint (CT_TO_USECS K x) = (uint x mod HZ K) * 1000000 div HZ K"
    by (simp add: CT_TO_USECS_def uint_div hz)
  let ?a = "(uint x mod HZ K) * 1000000"
  have "HZ K * (?a div HZ K) \<le> ?a"
    using mult_div_mod_eq[of "HZ K" ?a] pos_mod_sign[OF assms(1), of ?a] by linarith
  also have "\<dots> < HZ K * 1000000" using r(2) by simp
  finally show "uint (CT_TO_USECS K x) < 1000000" unfolding u using assms(1) by (rule mult_less_cancel_left_pos[THEN iffD1, rotated])
qed

end
