(* ===== verification/SchedSleep.thy ===== *)
theory SchedSleep
  imports SchedTask
begin

text \<open>
  Sleeping on a wait queue: the \<open>sleep_on\<close> family of \<open>sched.c\<close> and the macros \<open>wait_event\<close> of
  \<open>sched.h\<close>. A state is a wait queue, the list of its tasks, with the state of the scheduler;
  \<open>schedule\<close> and everything that happens before it returns is a function on it.
\<close>

section \<open>The \<open>sleep_on\<close> family\<close>

text \<open>
  The state, the entry at the head of the queue, the call of \<open>schedule\<close> or \<open>schedule_timeout\<close>,
  and the entry taken out again.
\<close>

definition sleep_head :: "ptr \<Rightarrow> u32 \<Rightarrow> ptr list \<times> 's sched \<Rightarrow> ptr list \<times> 's sched" where
  "sleep_head current st = (\<lambda>(q, s). (current # q, upd_task current (\<lambda>t. t\<lparr>t_state := st\<rparr>) s))"

definition sleep_tail :: "ptr \<Rightarrow> ptr list \<times> 's sched \<Rightarrow> ptr list \<times> 's sched" where
  "sleep_tail current = (\<lambda>(q, s). (remove1 current q, s))"

definition sleep_on ::
  "(ptr list \<times> 's sched \<Rightarrow> ptr list \<times> 's sched) \<Rightarrow> ptr \<Rightarrow> ptr list \<times> 's sched \<Rightarrow> ptr list \<times> 's sched" where
  "sleep_on schedule current x = sleep_tail current (schedule (sleep_head current TASK_UNINTERRUPTIBLE x))"

definition interruptible_sleep_on ::
  "(ptr list \<times> 's sched \<Rightarrow> ptr list \<times> 's sched) \<Rightarrow> ptr \<Rightarrow> ptr list \<times> 's sched \<Rightarrow> ptr list \<times> 's sched" where
  "interruptible_sleep_on schedule current x = sleep_tail current (schedule (sleep_head current TASK_INTERRUPTIBLE x))"

definition sleep_on_timeout ::
  "(int \<Rightarrow> ptr list \<times> 's sched \<Rightarrow> int \<times> ptr list \<times> 's sched) \<Rightarrow> ptr \<Rightarrow> int \<Rightarrow> ptr list \<times> 's sched
    \<Rightarrow> int \<times> ptr list \<times> 's sched" where
  "sleep_on_timeout timeout_call current timeout x =
     (case timeout_call timeout (sleep_head current TASK_UNINTERRUPTIBLE x) of
        (timeout, y) \<Rightarrow> (timeout, sleep_tail current y))"

definition interruptible_sleep_on_timeout ::
  "(int \<Rightarrow> ptr list \<times> 's sched \<Rightarrow> int \<times> ptr list \<times> 's sched) \<Rightarrow> ptr \<Rightarrow> int \<Rightarrow> ptr list \<times> 's sched
    \<Rightarrow> int \<times> ptr list \<times> 's sched" where
  "interruptible_sleep_on_timeout timeout_call current timeout x =
     (case timeout_call timeout (sleep_head current TASK_INTERRUPTIBLE x) of
        (timeout, y) \<Rightarrow> (timeout, sleep_tail current y))"

section \<open>Waiting for a condition\<close>

definition ERESTARTSYS :: int where [simp]: "ERESTARTSYS = 512"

definition set_running :: "ptr \<Rightarrow> ptr list \<times> 's sched \<Rightarrow> ptr list \<times> 's sched" where
  "set_running current = (\<lambda>(q, s). (q, upd_task current (\<lambda>t. t\<lparr>t_state := TASK_RUNNING\<rparr>) s))"

definition set_current_state :: "ptr \<Rightarrow> u32 \<Rightarrow> ptr list \<times> 's sched \<Rightarrow> ptr list \<times> 's sched" where
  "set_current_state current st = (\<lambda>(q, s). (q, upd_task current (\<lambda>t. t\<lparr>t_state := st\<rparr>) s))"

definition signal_pending :: "ptr \<Rightarrow> ptr list \<times> 's sched \<Rightarrow> bool" where
  "signal_pending current = (\<lambda>(q, s). t_sigpending (tasks s current))"

text \<open>The endless loops; the condition reads the state and has no effect.\<close>

partial_function (option) wait_event_loop ::
  "(ptr list \<times> 's sched \<Rightarrow> bool) \<Rightarrow> (ptr list \<times> 's sched \<Rightarrow> ptr list \<times> 's sched) \<Rightarrow> ptr
    \<Rightarrow> ptr list \<times> 's sched \<Rightarrow> (ptr list \<times> 's sched) option" where
  "wait_event_loop condition schedule current x =
     (let x = set_current_state current TASK_UNINTERRUPTIBLE x in
      if condition x then Some x else wait_event_loop condition schedule current (schedule x))"

partial_function (option) wait_event_interruptible_loop ::
  "(ptr list \<times> 's sched \<Rightarrow> bool) \<Rightarrow> (ptr list \<times> 's sched \<Rightarrow> ptr list \<times> 's sched) \<Rightarrow> ptr
    \<Rightarrow> ptr list \<times> 's sched \<Rightarrow> (int \<times> ptr list \<times> 's sched) option" where
  "wait_event_interruptible_loop condition schedule current x =
     (let x = set_current_state current TASK_INTERRUPTIBLE x in
      if condition x then Some (0, x)
      else if signal_pending current x then Some (- ERESTARTSYS, x)
      else wait_event_interruptible_loop condition schedule current (schedule x))"

declare wait_event_loop.simps [code] wait_event_interruptible_loop.simps [code]

definition add_wait_queue :: "ptr \<Rightarrow> ptr list \<times> 's sched \<Rightarrow> ptr list \<times> 's sched" where
  "add_wait_queue current = (\<lambda>(q, s). (current # q, s))"

definition wait_event ::
  "(ptr list \<times> 's sched \<Rightarrow> bool) \<Rightarrow> (ptr list \<times> 's sched \<Rightarrow> ptr list \<times> 's sched) \<Rightarrow> ptr
    \<Rightarrow> ptr list \<times> 's sched \<Rightarrow> (ptr list \<times> 's sched) option" where
  "wait_event condition schedule current x =
     (if condition x then Some x
      else map_option (\<lambda>x. sleep_tail current (set_running current x))
        (wait_event_loop condition schedule current (add_wait_queue current x)))"

definition wait_event_interruptible ::
  "(ptr list \<times> 's sched \<Rightarrow> bool) \<Rightarrow> (ptr list \<times> 's sched \<Rightarrow> ptr list \<times> 's sched) \<Rightarrow> ptr
    \<Rightarrow> ptr list \<times> 's sched \<Rightarrow> (int \<times> ptr list \<times> 's sched) option" where
  "wait_event_interruptible condition schedule current x =
     (if condition x then Some (0, x)
      else map_option (\<lambda>(ret, x). (ret, sleep_tail current (set_running current x)))
        (wait_event_interruptible_loop condition schedule current (add_wait_queue current x)))"

text \<open>How the loop of \<open>wait_event_interruptible\<close> goes on after \<open>n\<close> calls of \<open>schedule\<close>.\<close>

definition after_calls ::
  "(ptr list \<times> 's sched \<Rightarrow> ptr list \<times> 's sched) \<Rightarrow> ptr \<Rightarrow> nat \<Rightarrow> ptr list \<times> 's sched \<Rightarrow> ptr list \<times> 's sched" where
  "after_calls schedule current n x =
     set_current_state current TASK_INTERRUPTIBLE (((\<lambda>x. schedule (set_current_state current TASK_INTERRUPTIBLE x)) ^^ n) x)"

lemma interruptible_loop_at:
  assumes "\<And>m. m < n \<Longrightarrow> \<not> condition (after_calls schedule current m x) \<and> \<not> signal_pending current (after_calls schedule current m x)"
    and "condition (after_calls schedule current n x) \<or> signal_pending current (after_calls schedule current n x)"
  shows "wait_event_interruptible_loop condition schedule current x =
    Some (if condition (after_calls schedule current n x) then 0 else - ERESTARTSYS, after_calls schedule current n x)"
  using assms
proof (induction n arbitrary: x)
  case 0
  then show ?case by (subst wait_event_interruptible_loop.simps) (auto simp: after_calls_def Let_def)
next
  case (Suc n)
  let ?y = "schedule (set_current_state current TASK_INTERRUPTIBLE x)"
  have sh: "after_calls schedule current (Suc m) x = after_calls schedule current m ?y" for m
    by (simp add: after_calls_def funpow_Suc_right del: funpow.simps)
  have "\<not> condition (set_current_state current TASK_INTERRUPTIBLE x) \<and> \<not> signal_pending current (set_current_state current TASK_INTERRUPTIBLE x)"
    using Suc.prems(1)[of 0] by (simp add: after_calls_def)
  then have "wait_event_interruptible_loop condition schedule current x = wait_event_interruptible_loop condition schedule current ?y"
    by (subst wait_event_interruptible_loop.simps) (simp add: Let_def)
  moreover have "wait_event_interruptible_loop condition schedule current ?y =
      Some (if condition (after_calls schedule current n ?y) then 0 else - ERESTARTSYS, after_calls schedule current n ?y)"
  proof (rule Suc.IH)
    show "\<not> condition (after_calls schedule current m ?y) \<and> \<not> signal_pending current (after_calls schedule current m ?y)"
      if "m < n" for m using Suc.prems(1)[of "Suc m"] that unfolding sh by simp
    show "condition (after_calls schedule current n ?y) \<or> signal_pending current (after_calls schedule current n ?y)"
      using Suc.prems(2) unfolding sh .
  qed
  ultimately show ?case by (simp add: sh)
qed

text \<open>
  \<open>wait_event_interruptible\<close> returns at the first moment at which the condition holds or a signal is
  pending, with 0 just when the condition holds. It looks at both with the task already in the queue
  and no longer running, so that a wake-up in between is not lost, and leaves it running.
\<close>

lemma wait_event_interruptible_returns:
  assumes "\<not> condition x"
    and "\<And>m. m < n \<Longrightarrow> \<not> condition (after_calls schedule me m (add_wait_queue me x))
      \<and> \<not> signal_pending me (after_calls schedule me m (add_wait_queue me x))"
    and "condition (after_calls schedule me n (add_wait_queue me x))
      \<or> signal_pending me (after_calls schedule me n (add_wait_queue me x))"
  shows "wait_event_interruptible condition schedule me x =
      Some (if condition (after_calls schedule me n (add_wait_queue me x)) then 0 else - ERESTARTSYS,
        sleep_tail me (set_running me (after_calls schedule me n (add_wait_queue me x))))"
    and "t_state (tasks (snd (sleep_tail me (set_running me y))) me) = TASK_RUNNING"
    and "t_state (tasks (snd (after_calls schedule me n y)) me) = TASK_INTERRUPTIBLE"
  using assms interruptible_loop_at[where x = "add_wait_queue me x", OF assms(2,3)]
  by (simp_all add: wait_event_interruptible_def sleep_tail_def set_running_def after_calls_def set_current_state_def
      split: prod.splits)

end
