(* ===== verification/SchedLinks.thy ===== *)
theory SchedLinks
  imports SchedTask
begin

text \<open>
  The links of \<open>sched.h\<close> between tasks, as the pointers they are: the ring that \<open>for_each_task\<close>
  follows with \<open>SET_LINKS\<close> and \<open>REMOVE_LINKS\<close>, the children of a task, and the hash of the process
  identifiers. An address 0 is \<open>NULL\<close>.
\<close>

section \<open>The ring of all tasks and the family\<close>

record links =
  next_task :: "ptr \<Rightarrow> ptr"
  prev_task :: "ptr \<Rightarrow> ptr"
  p_pptr :: "ptr \<Rightarrow> ptr"
  p_cptr :: "ptr \<Rightarrow> ptr"
  p_ysptr :: "ptr \<Rightarrow> ptr"
  p_osptr :: "ptr \<Rightarrow> ptr"

text \<open>The assignments of the two macros, in their order.\<close>

definition REMOVE_LINKS :: "ptr \<Rightarrow> links \<Rightarrow> links" where
  "REMOVE_LINKS p l =
     (let l = l\<lparr>prev_task := (prev_task l)(next_task l p := prev_task l p)\<rparr>;
          l = l\<lparr>next_task := (next_task l)(prev_task l p := next_task l p)\<rparr>;
          l = (if p_osptr l p \<noteq> 0 then l\<lparr>p_ysptr := (p_ysptr l)(p_osptr l p := p_ysptr l p)\<rparr> else l)
      in if p_ysptr l p \<noteq> 0 then l\<lparr>p_osptr := (p_osptr l)(p_ysptr l p := p_osptr l p)\<rparr>
         else l\<lparr>p_cptr := (p_cptr l)(p_pptr l p := p_osptr l p)\<rparr>)"

definition SET_LINKS :: "ptr \<Rightarrow> ptr \<Rightarrow> links \<Rightarrow> links" where
  "SET_LINKS init p l =
     (let l = l\<lparr>next_task := (next_task l)(p := init)\<rparr>;
          l = l\<lparr>prev_task := (prev_task l)(p := prev_task l init)\<rparr>;
          l = l\<lparr>next_task := (next_task l)(prev_task l init := p)\<rparr>;
          l = l\<lparr>prev_task := (prev_task l)(init := p)\<rparr>;
          l = l\<lparr>p_ysptr := (p_ysptr l)(p := 0)\<rparr>;
          l = l\<lparr>p_osptr := (p_osptr l)(p := p_cptr l (p_pptr l p))\<rparr>;
          l = (if p_osptr l p \<noteq> 0 then l\<lparr>p_ysptr := (p_ysptr l)(p_osptr l p := p)\<rparr> else l)
      in l\<lparr>p_cptr := (p_cptr l)(p_pptr l p := p)\<rparr>)"

text \<open>\<open>for_each_task\<close> visits what follows \<open>init_task\<close> until it is back there.\<close>

partial_function (option) walk :: "(ptr \<Rightarrow> ptr) \<Rightarrow> ptr \<Rightarrow> ptr \<Rightarrow> ptr list option" where
  "walk nxt init p =
     (if p = init then Some []
      else Option.bind (walk nxt init (nxt p)) (\<lambda>ps. Some (p # ps)))"

declare walk.simps [code]

definition for_each_task :: "ptr \<Rightarrow> links \<Rightarrow> ptr list" where
  "for_each_task init l = (case walk (next_task l) init (next_task l init) of Some ps \<Rightarrow> ps | None \<Rightarrow> [])"

text \<open>The pointers from \<open>a\<close> through \<open>ps\<close> to \<open>b\<close>, forwards and backwards.\<close>

fun linked :: "links \<Rightarrow> ptr \<Rightarrow> ptr list \<Rightarrow> ptr \<Rightarrow> bool" where
  "linked l a [] b \<longleftrightarrow> next_task l a = b \<and> prev_task l b = a"
| "linked l a (p # ps) b \<longleftrightarrow> next_task l a = p \<and> prev_task l p = a \<and> linked l p ps b"

definition ring :: "ptr \<Rightarrow> links \<Rightarrow> ptr list \<Rightarrow> bool" where
  "ring init l ps \<longleftrightarrow> distinct (init # ps) \<and> linked l init ps init"

lemma linked_append: "linked l a (ps @ p # qs) b \<longleftrightarrow> linked l a ps p \<and> linked l p qs b"
  by (induction ps arbitrary: a) auto

lemma linked_frame:
  assumes "linked l a ps b"
    and "\<And>x. x = a \<or> x \<in> set ps \<Longrightarrow> next_task l' x = next_task l x"
    and "\<And>x. x = b \<or> x \<in> set ps \<Longrightarrow> prev_task l' x = prev_task l x"
  shows "linked l' a ps b"
  using assms by (induction ps arbitrary: a) auto

lemma walk_linked:
  assumes "linked l a ps init" "init \<notin> set ps"
  shows "walk (next_task l) init (next_task l a) = Some ps"
  using assms
proof (induction ps arbitrary: a)
  case Nil
  then show ?case by (subst walk.simps) simp
next
  case (Cons p ps)
  then have "walk (next_task l) init (next_task l p) = Some ps" by simp
  with Cons.prems show ?case by (subst walk.simps) simp
qed

lemma for_each_task_ring: "ring init l ps \<Longrightarrow> for_each_task init l = ps"
  using walk_linked[of l init ps init] by (simp add: ring_def for_each_task_def)

lemma ring_unique: "ring init l ps \<Longrightarrow> ring init l qs \<Longrightarrow> ps = qs"
  using for_each_task_ring by metis

lemma linked_ends:
  assumes "linked l a ps b"
  shows "next_task l a = (if ps = [] then b else hd ps)" "prev_task l b = (if ps = [] then a else last ps)"
  using assms by (induction ps arbitrary: a) auto

lemma SET_LINKS_ring_fields:
  "next_task (SET_LINKS init p l) = (next_task l)(p := init, (if init = p then prev_task l p else prev_task l init) := p)"
  "prev_task (SET_LINKS init p l) = (prev_task l)(p := prev_task l init, init := p)"
  by (auto simp: SET_LINKS_def Let_def)

lemma REMOVE_LINKS_ring_fields:
  assumes "next_task l p \<noteq> p"
  shows "next_task (REMOVE_LINKS p l) = (next_task l)(prev_task l p := next_task l p)"
    "prev_task (REMOVE_LINKS p l) = (prev_task l)(next_task l p := prev_task l p)"
  using assms by (auto simp: REMOVE_LINKS_def Let_def)

text \<open>\<open>SET_LINKS\<close> puts a task at the end of the ring, \<open>REMOVE_LINKS\<close> takes one out.\<close>

lemma ring_SET_LINKS:
  assumes r: "ring init l ps" and p: "p \<noteq> init" "p \<notin> set ps"
  shows "ring init (SET_LINKS init p l) (ps @ [p])"
proof -
  let ?l = "SET_LINKS init p l"
  from r have lk: "linked l init ps init" and d: "distinct (init # ps)" by (simp_all add: ring_def)
  let ?z = "if ps = [] then init else last ps"
  have z: "prev_task l init = ?z" using linked_ends(2)[OF lk] .
  have zp: "?z \<noteq> p" using p by (auto dest: last_in_set)
  have f: "next_task ?l = (next_task l)(p := init, ?z := p)" "prev_task ?l = (prev_task l)(p := ?z, init := p)"
    unfolding SET_LINKS_ring_fields z using p by auto
  have "linked ?l init ps p"
  proof (cases ps rule: rev_cases)
    case Nil
    with p f show ?thesis by simp
  next
    case (snoc qs q)
    then have "linked l init qs q" using lk linked_append[of l init qs q "[]" init] by simp
    then have "linked ?l init qs q"
      by (rule linked_frame) (use snoc d p f in auto)
    with snoc p d f show ?thesis by (simp add: linked_append)
  qed
  moreover have "linked ?l p [] init" using f zp p by simp
  ultimately have "linked ?l init (ps @ [p]) init" by (simp add: linked_append)
  with d p show ?thesis by (simp add: ring_def)
qed

lemma ring_REMOVE_LINKS:
  assumes r: "ring init l ps" and p: "p \<in> set ps"
  shows "ring init (REMOVE_LINKS p l) (remove1 p ps)"
proof -
  let ?l = "REMOVE_LINKS p l"
  from p obtain xs ys where ps: "ps = xs @ p # ys" by (meson split_list)
  from r have d: "distinct (init # ps)" and lk: "linked l init xs p" "linked l p ys init"
    by (simp_all add: ring_def ps linked_append)
  let ?a = "if xs = [] then init else last xs" and ?b = "if ys = [] then init else hd ys"
  have ends: "prev_task l p = ?a" "next_task l p = ?b"
    using linked_ends(2)[OF lk(1)] linked_ends(1)[OF lk(2)] by simp_all
  have ab: "?b \<noteq> p" "?a \<noteq> p" using d ps by (auto dest: last_in_set hd_in_set)
  have f: "next_task ?l = (next_task l)(?a := ?b)" "prev_task ?l = (prev_task l)(?b := ?a)"
    using REMOVE_LINKS_ring_fields[of l p] ab unfolding ends by auto
  have "linked ?l init (xs @ ys) init"
  proof (cases ys)
    case Nil
    show ?thesis
    proof (cases xs rule: rev_cases)
      case (snoc zs z)
      then have "linked l init zs z" using lk(1) by (simp add: linked_append)
      then have "linked ?l init zs z" by (rule linked_frame) (use snoc d ps f Nil in auto)
      with snoc Nil f show ?thesis by (simp add: linked_append)
    qed (use Nil f in simp)
  next
    case (Cons y zs)
    then have "linked l y zs init" using lk(2) by simp
    then have rest: "linked ?l y zs init"
      by (rule linked_frame) (use Cons d ps f in \<open>auto dest: last_in_set\<close>)
    have "linked ?l init xs y"
    proof (cases xs rule: rev_cases)
      case (snoc us u)
      then have "linked l init us u" using lk(1) by (simp add: linked_append)
      then have "linked ?l init us u" by (rule linked_frame) (use snoc Cons d ps f in auto)
      with snoc Cons f show ?thesis by (simp add: linked_append)
    qed (use Cons f in simp)
    with rest Cons show ?thesis by (simp add: linked_append)
  qed
  moreover have "remove1 p ps = xs @ ys" using d by (simp add: ps remove1_append)
  ultimately show ?thesis using d by (simp add: ring_def ps)
qed

definition ring_ok :: "ptr \<Rightarrow> links \<Rightarrow> bool" where
  "ring_ok init l \<longleftrightarrow> (\<exists>ps. ring init l ps)"

interpretation ring: task_list "ring_ok init" "\<lambda>p. p \<noteq> init" "for_each_task init" "SET_LINKS init" REMOVE_LINKS
  for init
proof
  fix l p assume "ring_ok init l"
  then obtain ps where r: "ring init l ps" by (auto simp: ring_ok_def)
  note e = for_each_task_ring[OF r]
  show "distinct (for_each_task init l)" using r by (simp add: e ring_def)
  show "ring_ok init (SET_LINKS init p l)" "for_each_task init (SET_LINKS init p l) = for_each_task init l @ [p]"
    if "p \<noteq> init" "p \<notin> set (for_each_task init l)"
    using ring_SET_LINKS[OF r] that for_each_task_ring unfolding e ring_ok_def by blast+
  show "ring_ok init (REMOVE_LINKS p l)" "for_each_task init (REMOVE_LINKS p l) = remove1 p (for_each_task init l)"
    if "p \<in> set (for_each_task init l)"
    using ring_REMOVE_LINKS[OF r] that for_each_task_ring unfolding e ring_ok_def by blast+
qed

section \<open>Children\<close>

text \<open>From \<open>s\<close> through the siblings \<open>ks\<close>, youngest first, to \<open>s'\<close>; \<open>y\<close> and \<open>y'\<close> are the younger siblings at both ends.\<close>

fun siblings :: "links \<Rightarrow> ptr \<Rightarrow> ptr \<Rightarrow> ptr list \<Rightarrow> ptr \<Rightarrow> ptr \<Rightarrow> bool" where
  "siblings l y s [] y' s' \<longleftrightarrow> y = y' \<and> s = s'"
| "siblings l y s (k # ks) y' s' \<longleftrightarrow> s = k \<and> k \<noteq> 0 \<and> p_ysptr l k = y \<and> siblings l k (p_osptr l k) ks y' s'"

definition family :: "links \<Rightarrow> ptr \<Rightarrow> ptr list \<Rightarrow> bool" where
  "family l q ks \<longleftrightarrow> distinct ks \<and> (\<forall>k\<in>set ks. p_pptr l k = q) \<and> (\<exists>y. siblings l 0 (p_cptr l q) ks y 0)"

lemma siblings_append:
  "siblings l y s (xs @ zs) y' s' \<longleftrightarrow> (\<exists>y1 s1. siblings l y s xs y1 s1 \<and> siblings l y1 s1 zs y' s')"
  by (induction xs arbitrary: y s) auto

lemma siblings_frame:
  assumes "siblings l y s ks y' s'"
    and "\<And>k. k \<in> set ks \<Longrightarrow> p_ysptr l' k = p_ysptr l k" "\<And>k. k \<in> set ks \<Longrightarrow> p_osptr l' k = p_osptr l k"
  shows "siblings l' y s ks y' s'"
  using assms by (induction ks arbitrary: y s) auto

lemma siblings_end: "siblings l y s ks y' s' \<Longrightarrow> y' = (if ks = [] then y else last ks)"
  by (induction ks arbitrary: y s) auto

lemma REMOVE_LINKS_family_fields:
  assumes "p_osptr l p \<noteq> p"
  shows "p_ysptr (REMOVE_LINKS p l) = (if p_osptr l p \<noteq> 0 then (p_ysptr l)(p_osptr l p := p_ysptr l p) else p_ysptr l)"
    "p_osptr (REMOVE_LINKS p l) = (if p_ysptr l p \<noteq> 0 then (p_osptr l)(p_ysptr l p := p_osptr l p) else p_osptr l)"
    "p_cptr (REMOVE_LINKS p l) = (if p_ysptr l p = 0 then (p_cptr l)(p_pptr l p := p_osptr l p) else p_cptr l)"
    "p_pptr (REMOVE_LINKS p l) = p_pptr l"
  using assms by (auto simp: REMOVE_LINKS_def Let_def)

lemma SET_LINKS_family_fields:
  assumes "p_cptr l (p_pptr l p) \<noteq> p"
  shows "p_ysptr (SET_LINKS init p l) =
      (if p_cptr l (p_pptr l p) \<noteq> 0 then (p_ysptr l)(p := 0, p_cptr l (p_pptr l p) := p) else (p_ysptr l)(p := 0))"
    "p_osptr (SET_LINKS init p l) = (p_osptr l)(p := p_cptr l (p_pptr l p))"
    "p_cptr (SET_LINKS init p l) = (p_cptr l)(p_pptr l p := p)"
    "p_pptr (SET_LINKS init p l) = p_pptr l"
  using assms by (auto simp: SET_LINKS_def Let_def)

lemma family_other:
  assumes "family l q ks" "p_cptr l' q = p_cptr l q"
    and "\<And>k. k \<in> set ks \<Longrightarrow> p_ysptr l' k = p_ysptr l k \<and> p_osptr l' k = p_osptr l k \<and> p_pptr l' k = p_pptr l k"
  shows "family l' q ks"
  using assms siblings_frame[of l 0 "p_cptr l q" ks _ 0 l'] unfolding family_def by metis

lemma family_REMOVE_LINKS:
  assumes all: "\<And>q. family l q (C q)" and p: "p \<in> set (C (p_pptr l p))"
  shows "family (REMOVE_LINKS p l) q (remove1 p (C q))"
proof -
  let ?q = "p_pptr l p" and ?l = "REMOVE_LINKS p l"
  from p obtain xs zs where ks: "C ?q = xs @ p # zs" by (meson split_list)
  from all[of ?q] obtain y where d: "distinct (xs @ p # zs)" and par: "\<forall>k\<in>set (xs @ p # zs). p_pptr l k = ?q"
    and sib: "siblings l 0 (p_cptr l ?q) (xs @ p # zs) y 0" unfolding family_def ks by blast
  from sib obtain y1 where x: "siblings l 0 (p_cptr l ?q) xs y1 p" and y1: "p_ysptr l p = y1" and p0: "p \<noteq> 0"
    and z: "siblings l p (p_osptr l p) zs y 0" by (auto simp: siblings_append)
  have ys: "y1 = (if xs = [] then 0 else last xs)" by (rule siblings_end[OF x])
  have os: "p_osptr l p = (if zs = [] then 0 else hd zs)" using z by (cases zs) auto
  have zs0: "zs \<noteq> [] \<Longrightarrow> hd zs \<noteq> 0" using z by (cases zs) auto
  have xs0: "xs \<noteq> [] \<Longrightarrow> last xs \<noteq> 0" using x by (cases xs rule: rev_cases) (auto simp: siblings_append)
  have np: "p_osptr l p \<noteq> p" using os d p0 by (cases zs) auto
  note f = REMOVE_LINKS_family_fields[OF np, unfolded y1]
  show ?thesis
  proof (cases "q = ?q")
    case True
    have "siblings ?l 0 (p_cptr ?l ?q) xs y1 (p_osptr l p)"
    proof (cases xs rule: rev_cases)
      case Nil
      with ys f show ?thesis by simp
    next
      case (snoc us u)
      with x have "siblings l 0 (p_cptr l ?q) us (p_ysptr l u) u" "u \<noteq> 0" by (auto simp: siblings_append)
      moreover from this(1) have "siblings ?l 0 (p_cptr l ?q) us (p_ysptr l u) u"
        by (rule siblings_frame) (use f snoc d ys os in \<open>auto dest: hd_in_set\<close>)
      ultimately show ?thesis using snoc f ys d os
        by (auto simp: siblings_append)
    qed
    moreover have "\<exists>y'. siblings ?l y1 (p_osptr l p) zs y' 0"
    proof (cases zs)
      case Nil
      with os show ?thesis by simp
    next
      case (Cons k ks')
      with z have "siblings l k (p_osptr l k) ks' y 0" "k \<noteq> 0" by auto
      moreover from this(1) have "siblings ?l k (p_osptr l k) ks' y 0"
        by (rule siblings_frame) (use f Cons d ys os in \<open>auto dest: last_in_set\<close>)
      ultimately show ?thesis using Cons f ys d os by (auto dest: last_in_set)
    qed
    ultimately have "\<exists>y'. siblings ?l 0 (p_cptr ?l ?q) (xs @ zs) y' 0" by (auto simp: siblings_append)
    moreover have "remove1 p (C q) = xs @ zs" using True d ks by (simp add: remove1_append)
    moreover have "distinct (xs @ zs)" "\<forall>k\<in>set (xs @ zs). p_pptr ?l k = ?q" using d par f(4) by simp_all
    ultimately show ?thesis using True by (simp add: family_def)
  next
    case False
    have away: "k \<notin> set (C ?q)" if "k \<in> set (C q)" for k
      using all[of q] all[of ?q] that False by (auto simp: family_def)
    have "p \<notin> set (C q)" using away p by blast
    then have r: "remove1 p (C q) = C q" by (rule remove1_idem)
    have "last xs \<notin> set (C q)" if "xs \<noteq> []" using away[of "last xs"] that ks by auto
    moreover have "hd zs \<notin> set (C q)" if "zs \<noteq> []" using away[of "hd zs"] that ks by auto
    ultimately show ?thesis unfolding r
      by (intro family_other[OF all]) (use False f ys os in auto)
  qed
qed

lemma family_SET_LINKS:
  assumes all: "\<And>q. family l q (C q)" and p: "p \<noteq> 0" "\<And>q. p \<notin> set (C q)"
  shows "family (SET_LINKS init p l) q (if q = p_pptr l p then p # C q else C q)"
proof -
  let ?q = "p_pptr l p" and ?l = "SET_LINKS init p l"
  obtain y where s: "siblings l 0 (p_cptr l ?q) (C ?q) y 0" and d: "distinct (C ?q)" "\<forall>k\<in>set (C ?q). p_pptr l k = ?q"
    using all[of ?q] by (auto simp: family_def)
  have c: "p_cptr l ?q = (if C ?q = [] then 0 else hd (C ?q))" using s by (cases "C ?q") auto
  have np: "p_cptr l ?q \<noteq> p" using p c by (metis hd_in_set)
  note f = SET_LINKS_family_fields[OF np, of init]
  show ?thesis
  proof (cases "q = ?q")
    case True
    have "\<exists>y. siblings ?l p (p_cptr l ?q) (C ?q) y 0"
    proof (cases "C ?q")
      case Nil
      with c show ?thesis by simp
    next
      case (Cons k ks)
      with s have "siblings l k (p_osptr l k) ks y 0" "k \<noteq> 0" by auto
      moreover from this(1) have "siblings ?l k (p_osptr l k) ks y 0"
        by (rule siblings_frame) (use f Cons d c p(2)[of ?q] in auto)
      ultimately show ?thesis using Cons c f p(2)[of ?q] by auto
    qed
    with True d f p(1) p(2)[of ?q] np show ?thesis by (auto simp: family_def)
  next
    case False
    have "hd (C ?q) \<notin> set (C q)" if "C ?q \<noteq> []"
    proof
      assume "hd (C ?q) \<in> set (C q)"
      with all[of q] have "p_pptr l (hd (C ?q)) = q" by (simp add: family_def)
      with d(2) that False show False by auto
    qed
    then show ?thesis using False p(2)[of q]
      by (simp, intro family_other[OF all]) (use False f c in auto)
  qed
qed

text \<open>The links that \<open>reparent_to_init\<close> changes (\<open>sched.c\<close>).\<close>

definition reparent_links :: "ptr \<Rightarrow> ptr \<Rightarrow> ptr \<Rightarrow> links \<Rightarrow> links" where
  "reparent_links init child_reaper this_task l =
     (let l = REMOVE_LINKS this_task l;
          l = l\<lparr>p_pptr := (p_pptr l)(this_task := child_reaper)\<rparr>
      in SET_LINKS init this_task l)"

text \<open>
  The pointer updates of \<open>REMOVE_LINKS\<close> and \<open>SET_LINKS\<close> implement lists: from consistent links,
  where \<open>for_each_task\<close> visits \<open>ps\<close> and every task \<open>q\<close> has the children \<open>C q\<close>, \<open>reparent_to_init\<close> moves
  a task to the end of the one and to the front of the children of init, takes it away from its
  old parent, and leaves all links consistent.
\<close>

lemma reparent_to_init_links:
  assumes "ring init l ps" "\<And>q. family l q (C q)"
    and "this_task \<in> set ps" "this_task \<in> set (C (p_pptr l this_task))"
  shows "for_each_task init (reparent_links init child_reaper this_task l) = remove1 this_task ps @ [this_task]
    \<and> ring init (reparent_links init child_reaper this_task l) (remove1 this_task ps @ [this_task])
    \<and> family (reparent_links init child_reaper this_task l) q
        (if q = child_reaper then this_task # remove1 this_task (C q) else remove1 this_task (C q))"
proof -
  let ?l1 = "REMOVE_LINKS this_task l"
  let ?l2 = "?l1\<lparr>p_pptr := (p_pptr ?l1)(this_task := child_reaper)\<rparr>"
  have d: "distinct (init # ps)" using assms(1) by (simp add: ring_def)
  have "ring init ?l1 (remove1 this_task ps)" by (rule ring_REMOVE_LINKS[OF assms(1,3)])
  then have r2: "ring init ?l2 (remove1 this_task ps)" by (auto simp: ring_def intro: linked_frame)
  have r3: "ring init (SET_LINKS init this_task ?l2) (remove1 this_task ps @ [this_task])"
    by (rule ring_SET_LINKS[OF r2]) (use d assms(3) in auto)
  have gone: "this_task \<notin> set (remove1 this_task (C q))" for q using assms(2)[of q] by (simp add: family_def)
  have "family ?l1 q (remove1 this_task (C q))" for q by (rule family_REMOVE_LINKS[OF assms(2,4)])
  then have f2: "family ?l2 q (remove1 this_task (C q))" for q
    by (rule family_other) (use gone[of q] in auto)
  have nz: "this_task \<noteq> 0"
  proof -
    obtain y where "siblings l 0 (p_cptr l (p_pptr l this_task)) (C (p_pptr l this_task)) y 0"
      using assms(2)[of "p_pptr l this_task"] by (auto simp: family_def)
    moreover have "k \<noteq> 0" if "siblings l y s ks y' s'" "k \<in> set ks" for k y s ks y' s'
      using that by (induction ks arbitrary: y s) auto
    ultimately show ?thesis using assms(4) by blast
  qed
  have "family (SET_LINKS init this_task ?l2) q
      (if q = p_pptr ?l2 this_task then this_task # remove1 this_task (C q) else remove1 this_task (C q))"
    by (rule family_SET_LINKS[OF f2 nz gone])
  then have f3: "family (reparent_links init child_reaper this_task l) q
      (if q = child_reaper then this_task # remove1 this_task (C q) else remove1 this_task (C q))"
    by (simp add: reparent_links_def Let_def)
  have r4: "ring init (reparent_links init child_reaper this_task l) (remove1 this_task ps @ [this_task])"
    using r3 by (simp add: reparent_links_def Let_def)
  with f3 for_each_task_ring[OF r4] show ?thesis by blast
qed

text \<open>Init 2, its child 3, and a kernel thread 4 that 3 has started.\<close>

definition small_links :: links where
  "small_links =
     \<lparr>next_task = (\<lambda>p. if p = 4 then 1 else p + 1), prev_task = (\<lambda>p. if p = 1 then 4 else p - 1),
      p_pptr = (\<lambda>p. if p = 1 then 0 else p - 1),
      p_cptr = (\<lambda>p. if p \<in> {1, 2, 3} then p + 1 else 0), p_ysptr = (\<lambda>p. 0), p_osptr = (\<lambda>p. 0)\<rparr>"

lemma reparent_links_small:
  "for_each_task 1 (reparent_links 1 2 3 small_links) = [2, 4, 3]
    \<and> family (reparent_links 1 2 4 small_links) 2 [4, 3]"
proof -
  let ?C = "\<lambda>q. if q \<in> {1, 2, 3} then [q + 1] else []"
  have "ring 1 small_links [2, 3, 4]" by (simp add: ring_def small_links_def)
  moreover have "family small_links q (?C q)" for q by (auto simp: family_def small_links_def)
  ultimately show ?thesis
    using reparent_to_init_links[of 1 small_links "[2, 3, 4]" ?C 3 2]
      reparent_to_init_links[of 1 small_links "[2, 3, 4]" ?C 4 2 2] by (simp add: small_links_def)
qed

end
