(* ===== verification/SchedPids.thy ===== *)
theory SchedPids
  imports SchedTask
begin

text \<open>
  The hash of the process identifiers (\<open>sched.h\<close>): a table of chains through the tasks, each with
  a pointer back to the place that points to it. An address 0 is \<open>NULL\<close>.
\<close>

text \<open>A place that holds a pointer: a bucket of \<open>pidhash\<close> or the field \<open>pidhash_next\<close> of a task.\<close>

datatype place = Bucket nat | NextOf ptr

record pids =
  pidhash :: "nat \<Rightarrow> ptr"
  pidhash_next :: "ptr \<Rightarrow> ptr"
  pidhash_pprev :: "ptr \<Rightarrow> place"

text \<open>\<open>PIDHASH_SZ\<close> is 1024; the shift of an \<open>int\<close> keeps its sign.\<close>

definition pid_hashfn :: "u32 \<Rightarrow> nat" where
  "pid_hashfn x = unat ((signed_drop_bit 8 x XOR x) AND 1023)"

definition read_place :: "pids \<Rightarrow> place \<Rightarrow> ptr" where
  "read_place h pl = (case pl of Bucket b \<Rightarrow> pidhash h b | NextOf p \<Rightarrow> pidhash_next h p)"

definition write_place :: "place \<Rightarrow> ptr \<Rightarrow> pids \<Rightarrow> pids" where
  "write_place pl v h =
     (case pl of Bucket b \<Rightarrow> h\<lparr>pidhash := (pidhash h)(b := v)\<rparr>
      | NextOf p \<Rightarrow> h\<lparr>pidhash_next := (pidhash_next h)(p := v)\<rparr>)"

definition set_pprev :: "ptr \<Rightarrow> place \<Rightarrow> pids \<Rightarrow> pids" where
  "set_pprev p pl h = h\<lparr>pidhash_pprev := (pidhash_pprev h)(p := pl)\<rparr>"

definition hash_pid :: "(ptr \<Rightarrow> u32) \<Rightarrow> ptr \<Rightarrow> pids \<Rightarrow> pids" where
  "hash_pid pid p h =
     (let htable = Bucket (pid_hashfn (pid p));
          h = write_place (NextOf p) (read_place h htable) h;
          h = (if read_place h (NextOf p) \<noteq> 0 then set_pprev (read_place h htable) (NextOf p) h else h);
          h = write_place htable p h
      in set_pprev p htable h)"

definition unhash_pid :: "ptr \<Rightarrow> pids \<Rightarrow> pids" where
  "unhash_pid p h =
     (let h = (if pidhash_next h p \<noteq> 0 then set_pprev (pidhash_next h p) (pidhash_pprev h p) h else h)
      in write_place (pidhash_pprev h p) (pidhash_next h p) h)"

partial_function (option) chase :: "(ptr \<Rightarrow> u32) \<Rightarrow> u32 \<Rightarrow> pids \<Rightarrow> ptr \<Rightarrow> ptr option" where
  "chase pid i h p = (if p = 0 \<or> pid p = i then Some p else chase pid i h (pidhash_next h p))"

definition find_task_by_pid :: "(ptr \<Rightarrow> u32) \<Rightarrow> u32 \<Rightarrow> pids \<Rightarrow> ptr option" where
  "find_task_by_pid pid i h = chase pid i h (pidhash h (pid_hashfn i))"

section \<open>Chains\<close>

fun chain :: "pids \<Rightarrow> place \<Rightarrow> ptr list \<Rightarrow> bool" where
  "chain h pl [] \<longleftrightarrow> read_place h pl = 0"
| "chain h pl (p # ps) \<longleftrightarrow> p \<noteq> 0 \<and> read_place h pl = p \<and> pidhash_pprev h p = pl \<and> chain h (NextOf p) ps"

text \<open>\<open>C b\<close> is the chain of bucket \<open>b\<close>.\<close>

definition pids_ok :: "(ptr \<Rightarrow> u32) \<Rightarrow> pids \<Rightarrow> (nat \<Rightarrow> ptr list) \<Rightarrow> bool" where
  "pids_ok pid h C \<longleftrightarrow> (\<forall>b. chain h (Bucket b) (C b) \<and> distinct (C b) \<and> (\<forall>p\<in>set (C b). pid_hashfn (pid p) = b))"

lemma read_write_place [simp]:
  "read_place (write_place pl v h) pl' = (if pl' = pl then v else read_place h pl')"
  by (auto simp: read_place_def write_place_def split: place.splits)

lemma place_frame [simp]:
  "pidhash_pprev (write_place pl v h) = pidhash_pprev h"
  "pidhash_pprev (set_pprev p pl h) = (pidhash_pprev h)(p := pl)"
  "read_place (set_pprev p pl' h) pl = read_place h pl" "pidhash_next (set_pprev p pl h) = pidhash_next h"
  by (simp_all add: read_place_def write_place_def set_pprev_def split: place.splits)

lemma chain_frame:
  assumes "chain h pl ps" "read_place h' pl = read_place h pl"
    and "\<And>p. p \<in> set ps \<Longrightarrow> read_place h' (NextOf p) = read_place h (NextOf p) \<and> pidhash_pprev h' p = pidhash_pprev h p"
  shows "chain h' pl ps"
  using assms by (induction ps arbitrary: pl) auto

lemma chain_nonzero: "chain h pl ps \<Longrightarrow> 0 \<notin> set ps"
  by (induction ps arbitrary: pl) auto

lemma chase_chain:
  assumes "chain h pl ps"
  shows "chase pid i h (read_place h pl) = Some (case filter (\<lambda>p. pid p = i) ps of [] \<Rightarrow> 0 | p # _ \<Rightarrow> p)"
  using assms
proof (induction ps arbitrary: pl)
  case Nil
  then show ?case by (subst chase.simps) simp
next
  case (Cons p ps)
  then have "chase pid i h (pidhash_next h p) = Some (case filter (\<lambda>p. pid p = i) ps of [] \<Rightarrow> 0 | p # _ \<Rightarrow> p)"
    using Cons.IH[of "NextOf p"] by (simp add: read_place_def)
  with Cons.prems show ?case by (subst chase.simps) simp
qed

lemma find_task_chain:
  assumes "pids_ok pid h C"
  shows "find_task_by_pid pid i h =
    Some (case filter (\<lambda>p. pid p = i) (C (pid_hashfn i)) of [] \<Rightarrow> 0 | p # _ \<Rightarrow> p)"
proof -
  have "chain h (Bucket (pid_hashfn i)) (C (pid_hashfn i))" using assms by (simp add: pids_ok_def)
  from chase_chain[OF this] show ?thesis by (simp add: find_task_by_pid_def read_place_def)
qed

lemma chain_disjoint:
  assumes "pids_ok pid h C" "p \<in> set (C b)" "p \<in> set (C d)"
  shows "b = d"
  using assms unfolding pids_ok_def by metis

lemma hash_pid_ok:
  assumes ok: "pids_ok pid h C" and p: "p \<noteq> 0" "p \<notin> set (C (pid_hashfn (pid p)))"
  shows "pids_ok pid (hash_pid pid p h) (C(pid_hashfn (pid p) := p # C (pid_hashfn (pid p))))"
proof -
  let ?b = "pid_hashfn (pid p)" and ?h = "hash_pid pid p h"
  let ?q = "read_place h (Bucket ?b)"
  have out: "p \<notin> set (C d)" for d
  proof
    assume "p \<in> set (C d)"
    with ok have "pid_hashfn (pid p) = d" by (simp add: pids_ok_def)
    with \<open>p \<in> set (C d)\<close> p(2) show False by simp
  qed
  have r: "read_place ?h pl = (if pl = Bucket ?b then p else if pl = NextOf p then ?q else read_place h pl)" for pl
    by (simp add: hash_pid_def Let_def)
  have pp: "pidhash_pprev ?h = (if ?q \<noteq> 0 then (pidhash_pprev h)(?q := NextOf p, p := Bucket ?b)
      else (pidhash_pprev h)(p := Bucket ?b))"
    by (simp add: hash_pid_def Let_def)
  have cb: "chain h (Bucket ?b) (C ?b)" "distinct (C ?b)" using ok by (simp_all add: pids_ok_def)
  have q: "?q = (if C ?b = [] then 0 else hd (C ?b))" using cb(1) by (cases "C ?b") auto
  have "chain ?h (NextOf p) (C ?b)"
  proof (cases "C ?b")
    case Nil
    with q show ?thesis by (simp add: r)
  next
    case (Cons k ks)
    with cb have ch: "chain h (NextOf k) ks" and "k \<noteq> 0" by auto
    have "chain ?h (NextOf k) ks"
    proof (rule chain_frame[OF ch])
      show "read_place ?h (NextOf k) = read_place h (NextOf k)" using out[of ?b] Cons by (auto simp: r)
      fix a assume "a \<in> set ks"
      then have "a \<noteq> p" "a \<noteq> ?q" using out[of ?b] Cons cb(2) q by auto
      then show "read_place ?h (NextOf a) = read_place h (NextOf a) \<and> pidhash_pprev ?h a = pidhash_pprev h a"
        by (simp add: r pp)
    qed
    moreover have "?q = k" "k \<noteq> p" using q Cons out[of ?b] by auto
    ultimately show ?thesis using Cons \<open>k \<noteq> 0\<close> by (simp add: r pp)
  qed
  then have new: "chain ?h (Bucket ?b) (p # C ?b)" using p(1) by (simp add: r pp)
  have old: "chain ?h (Bucket d) (C d)" if "d \<noteq> ?b" for d
  proof (rule chain_frame)
    show "chain h (Bucket d) (C d)" using ok by (simp add: pids_ok_def)
    show "read_place ?h (Bucket d) = read_place h (Bucket d)" using that by (simp add: r)
    fix k assume k: "k \<in> set (C d)"
    have "k \<noteq> p" using out[of d] k by blast
    have "k \<noteq> hd (C ?b)" if "C ?b \<noteq> []"
      using chain_disjoint[OF ok k, of ?b] that \<open>d \<noteq> ?b\<close> by auto
    then have "k \<noteq> ?q \<or> ?q = 0" using q by auto
    with \<open>k \<noteq> p\<close> show "read_place ?h (NextOf k) = read_place h (NextOf k) \<and> pidhash_pprev ?h k = pidhash_pprev h k"
      by (cases "?q = 0") (simp_all add: r pp)
  qed
  show ?thesis unfolding pids_ok_def
  proof
    fix d
    let ?D = "C(?b := p # C ?b)"
    have d: "distinct (C d)" "\<forall>k\<in>set (C d). pid_hashfn (pid k) = d" using ok by (simp_all add: pids_ok_def)
    show "chain ?h (Bucket d) (?D d) \<and> distinct (?D d) \<and> (\<forall>k\<in>set (?D d). pid_hashfn (pid k) = d)"
    proof (cases "d = ?b")
      case True
      from d p(2) have "distinct (p # C ?b)" "\<forall>k\<in>set (p # C ?b). pid_hashfn (pid k) = ?b"
        unfolding True by simp_all
      then show ?thesis unfolding True fun_upd_same using new by blast
    next
      case False
      then have "?D d = C d" by simp
      with d old[OF False] show ?thesis by metis
    qed
  qed
qed

fun segment :: "pids \<Rightarrow> place \<Rightarrow> ptr list \<Rightarrow> bool" where
  "segment h pl [] \<longleftrightarrow> True"
| "segment h pl (p # ps) \<longleftrightarrow> p \<noteq> 0 \<and> read_place h pl = p \<and> pidhash_pprev h p = pl \<and> segment h (NextOf p) ps"

definition end_place :: "place \<Rightarrow> ptr list \<Rightarrow> place" where
  "end_place pl ps = (if ps = [] then pl else NextOf (last ps))"

lemma chain_append: "chain h pl (xs @ zs) \<longleftrightarrow> segment h pl xs \<and> chain h (end_place pl xs) zs"
  by (induction xs arbitrary: pl) (auto simp: end_place_def)

lemma segment_frame:
  assumes "segment h pl xs" "xs \<noteq> [] \<Longrightarrow> read_place h' pl = read_place h pl"
    and "\<And>k. k \<in> set (butlast xs) \<Longrightarrow> read_place h' (NextOf k) = read_place h (NextOf k)"
    and "\<And>k. k \<in> set xs \<Longrightarrow> pidhash_pprev h' k = pidhash_pprev h k"
  shows "segment h' pl xs"
  using assms
proof (induction xs arbitrary: pl)
  case (Cons a xs)
  have "segment h' (NextOf a) xs"
  proof (cases "xs = []")
    case False
    with Cons.prems show ?thesis by (intro Cons.IH) simp_all
  qed simp
  with Cons.prems show ?case by simp
qed simp

lemma unhash_pid_ok:
  assumes ok: "pids_ok pid h C" and p: "p \<in> set (C (pid_hashfn (pid p)))"
  shows "pids_ok pid (unhash_pid p h) (C(pid_hashfn (pid p) := remove1 p (C (pid_hashfn (pid p)))))"
proof -
  let ?b = "pid_hashfn (pid p)" and ?h = "unhash_pid p h" and ?r = "pidhash_next h p"
  from p obtain xs zs where Cb: "C ?b = xs @ p # zs" by (meson split_list)
  let ?e = "end_place (Bucket ?b) xs"
  have cb: "chain h (Bucket ?b) (xs @ p # zs)" and d: "distinct (xs @ p # zs)"
    using ok unfolding pids_ok_def Cb[symmetric] by blast+
  then have x: "segment h (Bucket ?b) xs" and pe: "pidhash_pprev h p = ?e" and z: "chain h (NextOf p) zs"
    by (auto simp: chain_append)
  have rz: "?r = (if zs = [] then 0 else hd zs)" using z by (cases zs) (auto simp: read_place_def)
  have rn: "?r \<noteq> 0 \<longleftrightarrow> zs \<noteq> []" using rz chain_nonzero[OF z] by (cases zs) auto
  have rp: "?r \<noteq> p" if "zs \<noteq> []" using rz d that by (cases zs) auto
  have uh: "?h = write_place ?e ?r (if zs \<noteq> [] then set_pprev ?r ?e h else h)"
    using rn by (cases "zs = []") (simp_all add: unhash_pid_def Let_def pe)
  have r: "read_place ?h pl = (if pl = ?e then ?r else read_place h pl)" for pl
    unfolding uh by simp
  have pp: "pidhash_pprev ?h = (if zs \<noteq> [] then (pidhash_pprev h)(hd zs := ?e) else pidhash_pprev h)"
    unfolding uh using rz by simp
  have "segment ?h (Bucket ?b) xs"
  proof (rule segment_frame[OF x])
    show "read_place ?h (Bucket ?b) = read_place h (Bucket ?b)" if "xs \<noteq> []" using that by (simp add: r end_place_def)
    fix k assume k: "k \<in> set (butlast xs)"
    then have "xs \<noteq> []" by auto
    with k d have "k \<noteq> last xs"
      by (cases xs rule: rev_cases) auto
    with \<open>xs \<noteq> []\<close> show "read_place ?h (NextOf k) = read_place h (NextOf k)" by (simp add: r end_place_def)
  next
    fix k assume "k \<in> set xs"
    with d show "pidhash_pprev ?h k = pidhash_pprev h k" by (cases zs) (auto simp: pp)
  qed
  moreover have "chain ?h ?e zs"
  proof (cases zs)
    case Nil
    with rz show ?thesis by (simp add: r)
  next
    case (Cons k ks)
    with z have ch: "chain h (NextOf k) ks" and "k \<noteq> 0" by auto
    have "chain ?h (NextOf k) ks"
    proof (rule chain_frame[OF ch])
      have e: "?e \<noteq> NextOf q" if "q = k \<or> q \<in> set ks" for q
        using d Cons that by (cases xs rule: rev_cases) (auto simp: end_place_def)
      show "read_place ?h (NextOf k) = read_place h (NextOf k)" using e[of k] by (simp add: r)
      fix q assume "q \<in> set ks"
      with e[of q] d Cons show "read_place ?h (NextOf q) = read_place h (NextOf q) \<and> pidhash_pprev ?h q = pidhash_pprev h q"
        by (auto simp: r pp)
    qed
    with Cons rz \<open>k \<noteq> 0\<close> show ?thesis by (simp add: r pp)
  qed
  ultimately have new: "chain ?h (Bucket ?b) (xs @ zs)" by (simp add: chain_append)
  have rem: "remove1 p (C ?b) = xs @ zs" using d by (simp add: Cb remove1_append)
  have old: "chain ?h (Bucket a) (C a)" if "a \<noteq> ?b" for a
  proof (rule chain_frame)
    show "chain h (Bucket a) (C a)" using ok by (simp add: pids_ok_def)
    show "read_place ?h (Bucket a) = read_place h (Bucket a)" using that by (simp add: r end_place_def)
    fix k assume k: "k \<in> set (C a)"
    have "k \<notin> set (xs @ p # zs)" using chain_disjoint[OF ok k, of ?b] that unfolding Cb by blast
    then have "xs \<noteq> [] \<Longrightarrow> k \<noteq> last xs" "zs \<noteq> [] \<Longrightarrow> k \<noteq> hd zs" by auto
    then show "read_place ?h (NextOf k) = read_place h (NextOf k) \<and> pidhash_pprev ?h k = pidhash_pprev h k"
      by (auto simp: r pp end_place_def)
  qed
  show ?thesis unfolding pids_ok_def rem
  proof
    fix a
    let ?D = "C(?b := xs @ zs)"
    show "chain ?h (Bucket a) (?D a) \<and> distinct (?D a) \<and> (\<forall>k\<in>set (?D a). pid_hashfn (pid k) = a)"
    proof (cases "a = ?b")
      case True
      have "\<forall>k\<in>set (xs @ p # zs). pid_hashfn (pid k) = ?b"
        using ok unfolding pids_ok_def Cb[symmetric] by blast
      moreover have "distinct (xs @ zs)" "set (xs @ zs) \<subseteq> set (xs @ p # zs)" using d by auto
      ultimately show ?thesis unfolding True fun_upd_same using new by blast
    next
      case False
      then have "?D a = C a" by simp
      moreover have "distinct (C a) \<and> (\<forall>k\<in>set (C a). pid_hashfn (pid k) = a)" using ok by (simp add: pids_ok_def)
      ultimately show ?thesis using old[OF False] by metis
    qed
  qed
qed

section \<open>The hash is a map\<close>

lemma pid_hashfn_less: "pid_hashfn x < 1024"
proof -
  have "(signed_drop_bit 8 x XOR x) AND 1023 \<le> 1023" by (rule word_and_le1)
  then show ?thesis by (simp add: pid_hashfn_def word_le_nat_alt)
qed

text \<open>With unique identifiers a task that is taken out is not found any more, the others are.\<close>

lemma find_unhash_pid:
  assumes ok: "pids_ok pid h C"
    and unique: "\<And>a b. a \<in> set (C (pid_hashfn (pid a))) \<Longrightarrow> b \<in> set (C (pid_hashfn (pid b))) \<Longrightarrow> pid a = pid b \<Longrightarrow> a = b"
    and p: "p \<in> set (C (pid_hashfn (pid p)))"
  shows "find_task_by_pid pid i (unhash_pid p h) = (if i = pid p then Some 0 else find_task_by_pid pid i h)"
proof -
  note h = unhash_pid_ok[OF ok p]
  have all: "\<And>k b. k \<in> set (C b) \<Longrightarrow> pid_hashfn (pid k) = b" using ok by (auto simp: pids_ok_def)
  have "filter (\<lambda>k. pid k = pid p) (remove1 p (C (pid_hashfn (pid p)))) = []"
  proof -
    have "distinct (C (pid_hashfn (pid p)))" using ok by (simp add: pids_ok_def)
    then have rem: "set (remove1 p (C (pid_hashfn (pid p)))) = set (C (pid_hashfn (pid p))) - {p}" by simp
    have "k = p" if "k \<in> set (C (pid_hashfn (pid p)))" "pid k = pid p" for k
      using unique[of k p] that p all[OF that(1)] by simp
    then show ?thesis unfolding filter_empty_conv rem by blast
  qed
  moreover have "filter (\<lambda>k. pid k = i) (remove1 p ks) = filter (\<lambda>k. pid k = i) ks" if "i \<noteq> pid p" for ks
    using that by (induction ks) auto
  ultimately show ?thesis
    unfolding find_task_chain[OF h] find_task_chain[OF ok] by (auto simp: fun_upd_apply)
qed

lemma find_task_unique:
  assumes ok: "pids_ok pid h C"
    and unique: "\<And>a b. a \<in> set (C (pid_hashfn (pid a))) \<Longrightarrow> b \<in> set (C (pid_hashfn (pid b))) \<Longrightarrow> pid a = pid b \<Longrightarrow> a = b"
    and p: "p \<in> set (C (pid_hashfn (pid p)))" "p \<noteq> 0"
  shows "find_task_by_pid pid i h = Some p \<longleftrightarrow> i = pid p"
proof -
  have all: "\<And>k b. k \<in> set (C b) \<Longrightarrow> pid_hashfn (pid k) = b" using ok by (auto simp: pids_ok_def)
  show ?thesis
  proof (cases "filter (\<lambda>k. pid k = i) (C (pid_hashfn i))")
    case Nil
    then have "i \<noteq> pid p" using p(1) by (auto simp: filter_empty_conv)
    then show ?thesis using Nil p(2) unfolding find_task_chain[OF ok] by simp
  next
    case (Cons q qs)
    then have "q \<in> set (filter (\<lambda>k. pid k = i) (C (pid_hashfn i)))" by simp
    then have q: "q \<in> set (C (pid_hashfn i))" "pid q = i" by simp_all
    have "i = pid p \<Longrightarrow> q = p" using unique[of q p] q p(1) by simp
    then show ?thesis using Cons q(2) unfolding find_task_chain[OF ok] by auto
  qed
qed

text \<open>
  C19: the hash of the process identifiers implements a map. With consistent chains the index is
  always inside the table and \<open>find_task_by_pid\<close> ends; after \<open>hash_pid\<close> it finds the new task under
  its identifier, after \<open>unhash_pid\<close> nothing any more, and every other identifier keeps its task; the
  chains stay consistent.
\<close>

theorem pidhash_refines_map:
  assumes ok: "pids_ok pid h C"
    and unique: "\<And>a b. a \<in> set (C (pid_hashfn (pid a))) \<Longrightarrow> b \<in> set (C (pid_hashfn (pid b))) \<Longrightarrow> pid a = pid b \<Longrightarrow> a = b"
  shows "pid_hashfn i < 1024
    \<and> (p \<noteq> 0 \<and> p \<notin> set (C (pid_hashfn (pid p))) \<longrightarrow>
        find_task_by_pid pid i (hash_pid pid p h) = (if i = pid p then Some p else find_task_by_pid pid i h)
        \<and> (\<exists>D. pids_ok pid (hash_pid pid p h) D))
    \<and> (p \<in> set (C (pid_hashfn (pid p))) \<longrightarrow>
        find_task_by_pid pid i (unhash_pid p h) = (if i = pid p then Some 0 else find_task_by_pid pid i h)
        \<and> (\<exists>D. pids_ok pid (unhash_pid p h) D))"
proof (intro conjI impI)
  show "pid_hashfn i < 1024" by (rule pid_hashfn_less)
next
  assume "p \<noteq> 0 \<and> p \<notin> set (C (pid_hashfn (pid p)))"
  then have p: "p \<noteq> 0" "p \<notin> set (C (pid_hashfn (pid p)))" by simp_all
  note h = hash_pid_ok[OF ok p]
  show "find_task_by_pid pid i (hash_pid pid p h) = (if i = pid p then Some p else find_task_by_pid pid i h)"
    unfolding find_task_chain[OF h] find_task_chain[OF ok] by auto
  show "\<exists>D. pids_ok pid (hash_pid pid p h) D" using h by blast
next
  assume p: "p \<in> set (C (pid_hashfn (pid p)))"
  note h = unhash_pid_ok[OF ok p]
  show "find_task_by_pid pid i (unhash_pid p h) = (if i = pid p then Some 0 else find_task_by_pid pid i h)"
    by (rule find_unhash_pid[OF ok unique p])
  show "\<exists>D. pids_ok pid (unhash_pid p h) D" using h by blast
qed

text \<open>Two tasks of one bucket: the process identifiers 1 and 1029 have the same hash value.\<close>

definition small_pid :: "ptr \<Rightarrow> u32" where
  "small_pid p = (if p = 1 then 1 else 1029)"

definition no_pids :: pids where
  "no_pids = \<lparr>pidhash = (\<lambda>_. 0), pidhash_next = (\<lambda>_. 0), pidhash_pprev = (\<lambda>_. Bucket 0)\<rparr>"

definition small_pids :: pids where
  "small_pids = hash_pid small_pid 2 (hash_pid small_pid 1 no_pids)"

lemma small_hash: "pid_hashfn 1 = 1" "pid_hashfn 1029 = 1"
  by code_simp+

lemma small_pids_ok: "pids_ok small_pid small_pids (\<lambda>b. if b = 1 then [2, 1] else [])"
proof -
  have "pids_ok small_pid no_pids (\<lambda>_. [])" by (simp add: pids_ok_def no_pids_def read_place_def)
  from hash_pid_ok[OF this, of 1] have one: "pids_ok small_pid (hash_pid small_pid 1 no_pids) ((\<lambda>_. [])(1 := [1]))"
    by (simp add: small_pid_def small_hash)
  have "(\<lambda>b. if b = (1 :: nat) then [2, 1] else []) = ((\<lambda>_. [])(1 := [1 :: ptr]))(1 := [2, 1])" by auto
  with hash_pid_ok[OF one, of 2] show ?thesis by (simp add: small_pids_def small_pid_def small_hash)
qed

theorem pidhash_refines_map_witness:
  "find_task_by_pid small_pid 1 (unhash_pid 1 small_pids) = Some 0
   \<and> find_task_by_pid small_pid 1029 (unhash_pid 1 small_pids) = find_task_by_pid small_pid 1029 small_pids"
proof -
  let ?C = "\<lambda>b. if b = (1 :: nat) then [2, 1 :: ptr] else []"
  have unique: "a = b" if "a \<in> set (?C (pid_hashfn (small_pid a)))" "b \<in> set (?C (pid_hashfn (small_pid b)))"
      "small_pid a = small_pid b" for a b
  proof -
    have "a \<in> {2, 1}" "b \<in> {2, 1}" using that(1,2) by (simp_all split: if_splits)
    with that(3) show ?thesis by (auto simp: small_pid_def)
  qed
  have "1 \<in> set (?C (pid_hashfn (small_pid 1)))" by (simp add: small_pid_def small_hash)
  then have "\<And>i. find_task_by_pid small_pid i (unhash_pid 1 small_pids)
      = (if i = small_pid 1 then Some 0 else find_task_by_pid small_pid i small_pids)"
    using pidhash_refines_map[where p = 1, OF small_pids_ok unique] by blast
  then show ?thesis by (simp add: small_pid_def)
qed

end
