(* ===== verification/SchedBoot.thy ===== *)
theory SchedBoot
  imports SchedRuns SchedLinks SchedPids
begin

text \<open>
  The start of the system: the tables as the compiler fills them (\<open>INIT_TASK\<close> and \<open>INIT_MM\<close> of
  \<open>sched.h\<close>, the statics of \<open>sched.c\<close>), \<open>sched_init\<close> and \<open>init_idle\<close>. The addresses of the objects
  that other files define are parameters. Static memory is zero.
\<close>

record init_env =
  init_mm :: ptr
  root_user :: ptr
  CAP_INIT_EFF_SET :: u32

definition DEF_COUNTER :: "'q kernel \<Rightarrow> int" where
  "DEF_COUNTER K = 10 * HZ K div 100"

definition DEF_NICE :: int where [simp]: "DEF_NICE = 0"

definition zero_task :: task where
  "zero_task =
     \<lparr>t_state = 0, t_flags = 0, t_sigpending = False, t_need_resched = 0, t_counter = 0, t_nice = 0,
      t_policy = 0, t_mm = 0, t_active_mm = 0, t_processor = 0, t_cpus_runnable = 0,
      t_cpus_allowed = 0, t_on_list = False, t_sleep_time = 0, t_rt_priority = 0, t_uid = 0,
      t_euid = 0, t_cap_effective = 0, t_user = 0, t_share = 0\<rparr>"

text \<open>The list head of \<open>INIT_TASK\<close> points to itself: the task counts as one on the run queue.\<close>

definition INIT_TASK :: "'q kernel \<Rightarrow> init_env \<Rightarrow> task" where
  "INIT_TASK K E = zero_task
     \<lparr>t_state := 0, t_flags := 0, t_sigpending := False, t_counter := DEF_COUNTER K, t_nice := DEF_NICE,
      t_policy := SCHED_OTHER, t_mm := 0, t_active_mm := init_mm E, t_cpus_runnable := NOT 0,
      t_cpus_allowed := NOT 0, t_on_list := True, t_cap_effective := CAP_INIT_EFF_SET E, t_user := root_user E\<rparr>"

definition INIT_TASK_links :: "ptr \<Rightarrow> links" where
  "INIT_TASK_links tsk =
     \<lparr>next_task = (\<lambda>_. 0)(tsk := tsk), prev_task = (\<lambda>_. 0)(tsk := tsk), p_pptr = (\<lambda>_. 0)(tsk := tsk),
      p_cptr = (\<lambda>_. 0), p_ysptr = (\<lambda>_. 0), p_osptr = (\<lambda>_. 0)\<rparr>"

definition INIT_MM_count :: int where
  "INIT_MM_count = 1"

text \<open>\<open>q\<^sub>0\<close> is what \<open>LIST_HEAD(runqueue_head)\<close> makes.\<close>

definition initial_sched :: "'q kernel \<Rightarrow> init_env \<Rightarrow> 'q \<Rightarrow> 'q sched" where
  "initial_sched K E q\<^sub>0 =
     \<lparr>tasks = (\<lambda>_. zero_task)(init_task K := INIT_TASK K E), runqueue = q\<^sub>0, nr_running = 0,
      cpu_curr = (\<lambda>_. 0)(0 := init_task K), last_schedule = (\<lambda>_. 0), init_tasks = (\<lambda>_. 0)(0 := init_task K),
      all_tasks = [], pid_table = (\<lambda>_. None), jiffies = 0, cycles = 0,
      mm_count = (\<lambda>_. 0)(init_mm E := INIT_MM_count), user_processes = (\<lambda>_. 0), ipis = [], context_swtch = 0\<rparr>"

definition PIDHASH_SZ :: nat where
  "PIDHASH_SZ = 4096 div 4"

text \<open>
  \<open>sched_init\<close> on the processor \<open>cpu\<close>. The timers and the bottom halves it sets up, and
  \<open>enter_lazy_tlb\<close>, are elsewhere.
\<close>

definition sched_init :: "'q kernel \<Rightarrow> init_env \<Rightarrow> nat \<Rightarrow> 'q sched \<times> pids \<Rightarrow> 'q sched \<times> pids" where
  "sched_init K E cpu = (\<lambda>(s, h).
     let s = upd_task (init_task K) (\<lambda>t. t\<lparr>t_processor := cpu\<rparr>) s;
         h = foldl (\<lambda>h nr. h\<lparr>pidhash := (pidhash h)(nr := 0)\<rparr>) h [0..<PIDHASH_SZ];
         s = s\<lparr>mm_count := (mm_count s)(init_mm E := mm_count s (init_mm E) + 1)\<rparr>
     in (s, h))"

section \<open>What the initialisation establishes\<close>

lemma clear_pidhash:
  "foldl (\<lambda>h nr. h\<lparr>pidhash := (pidhash h)(nr := 0)\<rparr>) h [0..<n] = h\<lparr>pidhash := (\<lambda>b. if b < n then 0 else pidhash h b)\<rparr>"
  by (induction n) (auto simp: fun_eq_iff)

text \<open>The first call of \<open>schedule\<close>, by the idle task with an empty run queue: it stays.\<close>

lemma first_schedule:
  assumes "list_elems K (runqueue s) = []" "idle_task K s (t_processor (tasks s p)) = p"
    "t_state (tasks s p) = TASK_RUNNING" "t_policy (tasks s p) = SCHED_OTHER" "t_processor (tasks s p) = c"
  shows "schedule_pass K refill False p s = Some (Inr (p,
    s\<lparr>cpu_curr := (cpu_curr s)(c := p), tasks := (tasks s)(p := (tasks s p)
       \<lparr>t_need_resched := 0, t_processor := c, t_cpus_runnable := cpu_bit c, t_policy := SCHED_OTHER\<rparr>)\<rparr>))"
proof -
  have start: "schedule_start K p s = upd_task p (\<lambda>t. t\<lparr>t_need_resched := 0\<rparr>) s" (is "_ = ?s")
    using assms by (simp add: schedule_start_def schedule_sleep_def Let_def)
  have "repeat_schedule K refill c mm ?s = Some (Inr (p, ?s))" for mm
    using assms by (subst repeat_schedule.simps) (simp add: idle_task_def)
  then show ?thesis using assms
    by (simp add: schedule_pass_def start Let_def schedule_switch_def task_set_cpu_def)
qed

text \<open>
  C13: the initialisation establishes the invariants. On a kernel for several processors that has
  found one, \<open>sched_init\<close> and \<open>init_idle\<close> lead to a state in which the idle task can call \<open>schedule\<close>;
  after that call the run queue, the processors and the address spaces are as the invariants of the
  scheduler demand, where the reference that \<open>sched_init\<close> takes on \<open>init_mm\<close> is that of the idle
  task, which borrows it. The ring of tasks and all families are empty, and the hash table has no task.
\<close>

theorem boot_establishes_invariants:
  assumes K: "smp_ok K" "logical_cpus K = [0]" "cpu_number_map K 0 = 0"
    and E: "init_mm E \<noteq> 0" "list_elems K q\<^sub>0 = []" and i: "init_task K \<noteq> 0"
    and init: "sched_init K E 0 (initial_sched K E q\<^sub>0, h) = (s, h')"
  shows "(\<exists>m. machine_step K (Pick 0) \<lparr>core = init_idle K 0 (init_task K) s, leaving = (\<lambda>_. None)\<rparr> = Some m
      \<and> machine_ok K ((\<lambda>_. 0)(init_mm E := 1)) m \<and> cpu_curr (core m) 0 = init_task K)
    \<and> for_each_task (init_task K) (INIT_TASK_links (init_task K)) = []
    \<and> (\<forall>pid i. find_task_by_pid pid i h' = Some 0)"
proof (intro conjI allI)
  let ?i = "init_task K"
  let ?s = "init_idle K 0 ?i s"
  have s: "s = (upd_task ?i (\<lambda>t. t\<lparr>t_processor := 0\<rparr>) (initial_sched K E q\<^sub>0))\<lparr>mm_count := (\<lambda>_. 0)(init_mm E := 2)\<rparr>"
    and h': "pidhash h' b = (if b < 1024 then 0 else pidhash h b)" for b
    using init by (auto simp: sched_init_def clear_pidhash PIDHASH_SZ_def initial_sched_def INIT_MM_count_def Let_def)
  have si: "?s = s\<lparr>cpu_curr := (cpu_curr s)(0 := ?i), last_schedule := (last_schedule s)(0 := cycles s)\<rparr>"
    by (simp add: init_idle_def)
  have c: "cpus K = {0}" using K(2) by simp
  have smp: "CONFIG_SMP K" using K(1) by (simp add: smp_ok_def)
  let ?m = "?s\<lparr>cpu_curr := (cpu_curr ?s)(0 := ?i), tasks := (tasks ?s)(?i := (tasks ?s ?i)
    \<lparr>t_need_resched := 0, t_processor := 0, t_cpus_runnable := cpu_bit 0, t_policy := SCHED_OTHER\<rparr>)\<rparr>"
  have idle: "idle_task K ?s 0 = ?i" unfolding si using smp K(3) by (simp add: idle_task_def s initial_sched_def)
  have pass: "schedule_pass K (\<lambda>s. Inr (recalculate K s)) False ?i ?s = Some (Inr (?i, ?m))"
    by (rule first_schedule) (use idle E in \<open>simp_all add: si\<close>, simp_all add: s initial_sched_def INIT_TASK_def)
  have step: "machine_step K (Pick 0) \<lparr>core = ?s, leaving = (\<lambda>_. None)\<rparr> = Some \<lparr>core = ?m, leaving = (\<lambda>_. None)\<rparr>"
    using pass c by (simp add: si Let_def)
  define b where b: "b = ?m"
  have t: "tasks b p = (if p = ?i then (INIT_TASK K E)\<lparr>t_processor := 0, t_cpus_runnable := cpu_bit 0\<rparr> else zero_task)" for p
    unfolding b si by (simp add: s initial_sched_def INIT_TASK_def zero_task_def)
  have f: "runqueue b = q\<^sub>0" "nr_running b = 0" "cpu_curr b 0 = ?i" "all_tasks b = []" "idle_task K b 0 = ?i"
    "mm_count b = (\<lambda>_. 0)(init_mm E := 2)"
    unfolding b si using smp K(3) by (simp_all add: s initial_sched_def idle_task_def)
  have idles: "is_idle K b p \<longleftrightarrow> p = ?i" for p unfolding is_idle_def c image_insert image_empty f(5) by simp
  have "rq_ok K b" using E(2) by (simp add: rq_ok_def f t INIT_TASK_def zero_task_def)
  moreover have "idles_ok K b" using E(2)
    unfolding idles_ok_def idles c f by (simp add: t INIT_TASK_def zero_task_def)
  moreover have "all_ok K b" using E(2) by (simp add: all_ok_def f)
  moreover have "queued_ok K (cpus K) b" by (simp add: queued_ok_def c f)
  moreover have "marks_ok K b (\<lambda>_. None)" unfolding marks_ok_def c by (simp add: f t)
  moreover have "mm_ok K ((\<lambda>_. 0)(init_mm E := 1)) b"
    using E(1) unfolding mm_ok_def borrowers_def c f
    by (simp add: f t INIT_TASK_def zero_task_def)
  ultimately have "machine_ok K ((\<lambda>_. 0)(init_mm E := 1)) \<lparr>core = b, leaving = (\<lambda>_. None)\<rparr>"
    by (simp add: machine_ok_def)
  with step[folded b] f(3) show "\<exists>m. machine_step K (Pick 0) \<lparr>core = ?s, leaving = (\<lambda>_. None)\<rparr> = Some m
      \<and> machine_ok K ((\<lambda>_. 0)(init_mm E := 1)) m \<and> cpu_curr (core m) 0 = ?i"
    by (intro exI[of _ "\<lparr>core = b, leaving = (\<lambda>_. None)\<rparr>"]) simp
  have "ring ?i (INIT_TASK_links ?i) []" by (simp add: ring_def INIT_TASK_links_def)
  then show "for_each_task ?i (INIT_TASK_links ?i) = []" by (rule for_each_task_ring)
  fix pid i
  have "pidhash h' (pid_hashfn i) = 0" using pid_hashfn_less[of i] by (simp add: h')
  then show "find_task_by_pid pid i h' = Some 0" unfolding find_task_by_pid_def by (subst chase.simps) simp
qed

definition one_cpu :: "ptr list kernel" where
  "one_cpu = (small_kernel True)\<lparr>smp_num_cpus := 1\<rparr>"

theorem boot_establishes_invariants_witness:
  "\<exists>m. machine_step one_cpu (Pick 0)
      \<lparr>core = init_idle one_cpu 0 1 (fst (sched_init one_cpu \<lparr>init_mm = 9, root_user = 8, CAP_INIT_EFF_SET = 0\<rparr> 0
         (initial_sched one_cpu \<lparr>init_mm = 9, root_user = 8, CAP_INIT_EFF_SET = 0\<rparr> [], no_pids))), leaving = (\<lambda>_. None)\<rparr> = Some m
    \<and> machine_ok one_cpu ((\<lambda>_. 0)(9 := 1)) m"
proof -
  have "list_laws one_cpu" using small_kernel_laws[of True] by (simp add: list_laws_def one_cpu_def)
  then have k: "smp_ok one_cpu" "logical_cpus one_cpu = [0]" "cpu_number_map one_cpu 0 = 0" "init_task one_cpu = 1"
    by (simp_all add: smp_ok_def one_cpu_def small_kernel_def penalty_ok_def logical_cpus_def)
  from boot_establishes_invariants[OF k(1-3), of "\<lparr>init_mm = 9, root_user = 8, CAP_INIT_EFF_SET = 0\<rparr>" "[]", OF _ _ _ prod.collapse[symmetric], of no_pids]
  show ?thesis using k(4) by (auto simp: one_cpu_def small_kernel_def)
qed

end
