(* ===== verification/FairShare.thy ===== *)
theory FairShare
  imports SchedSelect "HOL-Library.Signed_Division"
begin

text \<open>
  The fair-share scheduler of the patch (\<open>patch_v3.patch\<close>): the refill of the counters that divides
  the time between users instead of processes, the system call \<open>incshare\<close>, and the bookkeeping at
  the creation and the end of a task. The patched functions that are not in the repository appear as
  parameters: \<open>proc_sel\<close>, and what \<open>do_fork\<close> does around the inserted line.
\<close>

section \<open>The refill\<close>

text \<open>
  The new value of a counter, \<open>None\<close> when the processor traps: on a division by 0, and on the
  quotient that does not fit. A division truncates towards 0.
\<close>

definition fair_counter :: "int \<Rightarrow> int \<Rightarrow> int \<Rightarrow> int option" where
  "fair_counter procCount share processes =
     (let a = to_int32 (share * procCount) in
      if processes = 0 \<or> a = - (2 ^ 31) \<and> processes = - 1 then None
      else Some (if a sdiv processes = 0 then 1 else a sdiv processes))"

fun refill_tasks :: "int \<Rightarrow> ptr list \<Rightarrow> 'q sched \<Rightarrow> panic + 'q sched" where
  "refill_tasks procCount [] s = Inr s"
| "refill_tasks procCount (p # ps) s =
     (case fair_counter procCount (t_share (tasks s p)) (user_processes s (t_user (tasks s p))) of
        None \<Rightarrow> Inl Divide_error
      | Some c \<Rightarrow> refill_tasks procCount ps (upd_task p (\<lambda>t. t\<lparr>t_counter := c\<rparr>) s))"

definition procCount :: "'q sched \<Rightarrow> int" where
  "procCount s = to_int32 (int (length (all_tasks s)))"

definition fair_refill :: "'q sched \<Rightarrow> panic + 'q sched" where
  "fair_refill s = refill_tasks (procCount s) (all_tasks s) s"

text \<open>The patched \<open>schedule\<close>.\<close>

definition fair_schedule ::
  "'q kernel \<Rightarrow> bool \<Rightarrow> ptr \<Rightarrow> 'q sched \<Rightarrow> (panic + ptr \<times> 'q sched) option" where
  "fair_schedule K in_interrupt current s =
     (if t_active_mm (tasks s current) = 0 then Some (Inl Bug)
      else schedule_loop K fair_refill in_interrupt current s)"

section \<open>The process counts of the users\<close>

definition add_processes :: "ptr \<Rightarrow> int \<Rightarrow> 'q sched \<Rightarrow> 'q sched" where
  "add_processes u n s = s\<lparr>user_processes := (user_processes s)(u := to_int32 (user_processes s u + n))\<rparr>"

definition inc_share :: "ptr \<Rightarrow> 'q sched \<Rightarrow> 'q sched" where
  "inc_share p s =
     add_processes (t_user (tasks s p)) 1 (upd_task p (\<lambda>t. t\<lparr>t_share := to_int32 (t_share t + 1)\<rparr>) s)"

definition sys_incshare :: "(ptr \<Rightarrow> bool) \<Rightarrow> 'q sched \<Rightarrow> int \<times> 'q sched" where
  "sys_incshare proc_sel s = (0, fold (\<lambda>p s. if proc_sel p then inc_share p s else s) (all_tasks s) s)"

definition unhash_process :: "ptr \<Rightarrow> 'q sched \<Rightarrow> panic + 'q sched" where
  "unhash_process p s =
     (if task_on_runqueue s p then Inl Bug
      else Inr (s\<lparr>all_tasks := remove1 p (all_tasks s),
                 pid_table := (\<lambda>i. if pid_table s i = Some p then None else pid_table s i)\<rparr>))"

definition release_task :: "ptr \<Rightarrow> 'q sched \<Rightarrow> panic + 'q sched" where
  "release_task p s =
     (let u = t_user (tasks s p);
          s = add_processes u (- 1) s;
          s = (if t_share (tasks s p) = 2 then add_processes u (- 1) s else s)
      in unhash_process p s)"


lemma add_processes_frame [simp]:
  "tasks (add_processes u n s) = tasks s" "all_tasks (add_processes u n s) = all_tasks s"
  "runqueue (add_processes u n s) = runqueue s" "pid_table (add_processes u n s) = pid_table s"
  "user_processes (add_processes u n s) = (user_processes s)(u := to_int32 (user_processes s u + n))"
  by (simp_all add: add_processes_def)

lemma inc_share_frame [simp]:
  "all_tasks (inc_share p s) = all_tasks s"
  "tasks (inc_share p s) = (tasks s)(p := tasks s p\<lparr>t_share := to_int32 (t_share (tasks s p) + 1)\<rparr>)"
  "user_processes (inc_share p s) =
     (user_processes s)(t_user (tasks s p) := to_int32 (user_processes s (t_user (tasks s p)) + 1))"
  by (simp_all add: inc_share_def)

text \<open>\<open>proc_sel(p, 0, 0)\<close> selects the caller; the loop then comes down to one call.\<close>

lemma fold_select:
  assumes "distinct ps" "\<And>p. p \<in> set ps \<Longrightarrow> sel p \<longleftrightarrow> p = q"
  shows "fold (\<lambda>p s. if sel p then f p s else s) ps s = (if q \<in> set ps then f q s else s)"
  using assms by (induction ps arbitrary: s) auto

lemma sys_incshare_caller:
  assumes "distinct (all_tasks s)" "me \<in> set (all_tasks s)" "\<And>p. proc_sel p \<longleftrightarrow> p = me"
  shows "sys_incshare proc_sel s = (0, inc_share me s)"
  using assms by (simp add: sys_incshare_def fold_select[where q = me])

section \<open>Shares\<close>

definition user_tasks :: "'q sched \<Rightarrow> ptr \<Rightarrow> ptr set" where
  "user_tasks s u = {p \<in> set (all_tasks s). t_user (tasks s p) = u}"

definition shares :: "'q sched \<Rightarrow> ptr \<Rightarrow> int" where
  "shares s u = (\<Sum>p\<in>user_tasks s u. t_share (tasks s p))"


lemma refill_tasks_ok:
  assumes "distinct ps"
    and "\<And>p. p \<in> set ps \<Longrightarrow> fair_counter n (t_share (tasks s p)) (user_processes s (t_user (tasks s p))) = Some (c p)"
  shows "\<exists>s'. refill_tasks n ps s = Inr s'
    \<and> (\<forall>q. tasks s' q = (if q \<in> set ps then tasks s q\<lparr>t_counter := c q\<rparr> else tasks s q))
    \<and> runqueue s' = runqueue s \<and> all_tasks s' = all_tasks s \<and> user_processes s' = user_processes s"
  using assms
proof (induction ps arbitrary: s)
  case (Cons p ps)
  let ?s = "upd_task p (\<lambda>t. t\<lparr>t_counter := c p\<rparr>) s"
  have step: "refill_tasks n (p # ps) s = refill_tasks n ps ?s" using Cons.prems(2)[of p] by simp
  have "\<exists>s'. refill_tasks n ps ?s = Inr s'
    \<and> (\<forall>q. tasks s' q = (if q \<in> set ps then tasks ?s q\<lparr>t_counter := c q\<rparr> else tasks ?s q))
    \<and> runqueue s' = runqueue ?s \<and> all_tasks s' = all_tasks ?s \<and> user_processes s' = user_processes ?s"
    by (rule Cons.IH) (use Cons.prems in auto)
  then show ?case unfolding step using Cons.prems(1) by auto
qed simp

lemma fair_counter_exact:
  assumes "0 < processes" "0 \<le> share * n" "share * n < 2 ^ 31"
  shows "fair_counter n share processes = Some (max 1 (share * n div processes))"
proof -
  have a: "to_int32 (share * n) = share * n" using assms by (intro to_int32_id) simp_all
  have d: "share * n sdiv processes = share * n div processes"
    using assms(1,2) by (cases "share * n = 0") (auto simp: signed_divide_int_def sgn_if)
  have "0 \<le> share * n div processes" using assms by (simp add: pos_imp_zdiv_nonneg_iff)
  then show ?thesis using assms by (simp add: fair_counter_def a d max_def)
qed

text \<open>
  The accounts are in order: no task has fewer than one share, and the count of a user is the sum of
  the shares of its tasks plus a surplus \<open>l u\<close> (the kernel's own threads, and what is never given
  back); \<open>b\<close> bounds the counts.
\<close>

definition accounts_ok :: "'q sched \<Rightarrow> (ptr \<Rightarrow> int) \<Rightarrow> int \<Rightarrow> bool" where
  "accounts_ok s l b \<longleftrightarrow> distinct (all_tasks s) \<and> (\<forall>p\<in>set (all_tasks s). 1 \<le> t_share (tasks s p))
     \<and> (\<forall>u. user_processes s u = shares s u + l u \<and> 0 \<le> l u \<and> shares s u + l u \<le> b)"

lemma share_le_processes:
  assumes "accounts_ok s l b" "p \<in> set (all_tasks s)"
  shows "1 \<le> t_share (tasks s p)" "t_share (tasks s p) \<le> user_processes s (t_user (tasks s p))"
    "user_processes s (t_user (tasks s p)) \<le> b"
proof -
  let ?u = "t_user (tasks s p)"
  have "t_share (tasks s p) \<le> shares s ?u"
    unfolding shares_def by (rule member_le_sum) (use assms in \<open>force simp: user_tasks_def accounts_ok_def\<close>)+
  moreover have "user_processes s ?u = shares s ?u + l ?u" "0 \<le> l ?u" "shares s ?u + l ?u \<le> b"
    using assms by (simp_all add: accounts_ok_def)
  ultimately show "t_share (tasks s p) \<le> user_processes s ?u" "user_processes s ?u \<le> b" by simp_all
  show "1 \<le> t_share (tasks s p)" using assms by (simp add: accounts_ok_def)
qed


definition fair_value :: "'q sched \<Rightarrow> ptr \<Rightarrow> int" where
  "fair_value s p =
     max 1 (t_share (tasks s p) * int (length (all_tasks s)) div user_processes s (t_user (tasks s p)))"

lemma fair_refill_ok:
  assumes ok: "accounts_ok s l b" and b: "b * int (length (all_tasks s)) < 2 ^ 30"
  shows "\<exists>s'. fair_refill s = Inr s'
    \<and> (\<forall>p. tasks s' p = (if p \<in> set (all_tasks s) then tasks s p\<lparr>t_counter := fair_value s p\<rparr> else tasks s p))
    \<and> runqueue s' = runqueue s \<and> all_tasks s' = all_tasks s \<and> user_processes s' = user_processes s"
proof -
  let ?n = "int (length (all_tasks s))"
  have small: "1 * ?n < 2 ^ 30" "t_share (tasks s p) * ?n < 2 ^ 30" if "p \<in> set (all_tasks s)" for p
  proof -
    note sh = share_le_processes[OF ok that]
    have "1 * ?n \<le> t_share (tasks s p) * ?n" "t_share (tasks s p) * ?n \<le> b * ?n"
      by (rule mult_right_mono; use sh in simp)+
    with b show "1 * ?n < 2 ^ 30" "t_share (tasks s p) * ?n < 2 ^ 30" by simp_all
  qed
  have n: "procCount s = ?n"
  proof (cases "all_tasks s")
    case (Cons p ps)
    with small(1)[of p] show ?thesis unfolding procCount_def by (intro to_int32_id) simp_all
  qed (simp add: procCount_def to_int32_def)
  have "fair_counter ?n (t_share (tasks s p)) (user_processes s (t_user (tasks s p))) = Some (fair_value s p)"
    if p: "p \<in> set (all_tasks s)" for p
    unfolding fair_value_def using share_le_processes[OF ok p] small(2)[OF p] by (intro fair_counter_exact) simp_all
  from refill_tasks_ok[of "all_tasks s", OF _ this] ok show ?thesis
    unfolding fair_refill_def n by (auto simp: accounts_ok_def)
qed

lemma fair_value_bounds:
  assumes ok: "accounts_ok s l b" and b: "b * int (length (all_tasks s)) < 2 ^ 30" and p: "p \<in> set (all_tasks s)"
  shows "1 \<le> fair_value s p" "fair_value s p \<le> 2 ^ 30"
proof -
  let ?n = "int (length (all_tasks s))" and ?P = "user_processes s (t_user (tasks s p))"
  note sh = share_le_processes[OF ok p]
  have "t_share (tasks s p) * ?n \<le> ?P * ?n" by (rule mult_right_mono) (use sh in simp_all)
  then have "t_share (tasks s p) * ?n div ?P \<le> ?P * ?n div ?P" by (rule zdiv_mono1) (use sh in simp)
  also have "\<dots> = ?n" using sh by simp
  finally have d: "t_share (tasks s p) * ?n div ?P \<le> ?n" .
  have "1 * ?n \<le> b * ?n" by (rule mult_right_mono) (use sh in simp_all)
  with b d show "fair_value s p \<le> 2 ^ 30" by (simp add: fair_value_def)
  show "1 \<le> fair_value s p" by (simp add: fair_value_def)
qed

section \<open>The totals of the users\<close>





text \<open>Two users: task 3 alone, and the tasks 4 and 5, of which 4 has called \<open>incshare\<close>.\<close>

definition fair_state :: "ptr list sched" where
  "fair_state = small_state
     \<lparr>tasks := small_tasks(3 := small_tasks 3\<lparr>t_user := 61\<rparr>, 4 := small_tasks 4\<lparr>t_share := 2\<rparr>, 2 := small_tasks 2\<lparr>t_user := 59\<rparr>),
      all_tasks := [2, 3, 4, 5], user_processes := (\<lambda>u. 0)(59 := 1, 60 := 3, 61 := 1)\<rparr>"

lemma fair_state_users:
  "user_tasks fair_state 59 = {2}" "user_tasks fair_state 60 = {4, 5}" "user_tasks fair_state 61 = {3}"
  "u \<notin> {59, 60, 61} \<Longrightarrow> user_tasks fair_state u = {}"
  by (auto simp: user_tasks_def fair_state_def small_defs)

lemma fair_state_ok: "accounts_ok fair_state (\<lambda>_. 0) 3"
proof -
  have "user_processes fair_state u = shares fair_state u \<and> shares fair_state u \<le> 3" for u
    by (cases "u = 59"; cases "u = 60"; cases "u = 61")
      (simp_all add: shares_def fair_state_users, simp_all add: fair_state_def small_defs)
  moreover have "distinct (all_tasks fair_state)" "\<forall>p. 1 \<le> t_share (tasks fair_state p)"
    by (simp_all add: fair_state_def small_defs)
  ultimately show ?thesis by (simp add: accounts_ok_def)
qed


section \<open>The patched scheduler\<close>

text \<open>
  The patched loop from \<open>repeat_schedule\<close> on ends after at most one refill, without a trap, and
  chooses the first of the tasks of greatest goodness, as the original does. The refill must reach
  every task of the run queue.
\<close>

theorem fair_schedule_ends:
  assumes ok: "accounts_ok s l b" and b: "b * int (length (all_tasks s)) < 2 ^ 30" and pen: "penalty_ok K"
    and rq: "\<And>p. p \<in> set (list_elems K (runqueue s)) \<Longrightarrow> p \<in> set (all_tasks s) \<and> task_fits (tasks s p)"
  shows "\<exists>s' p. fair_refill s = Inr s'
    \<and> repeat_schedule K fair_refill cpu mm s = Some (Inr (p, if out_of_time K cpu mm s then s' else s))
    \<and> chosen K cpu mm (if out_of_time K cpu mm s then s' else s) p"
proof -
  obtain s' where s': "fair_refill s = Inr s'" "runqueue s' = runqueue s"
    "\<And>p. tasks s' p = (if p \<in> set (all_tasks s) then tasks s p\<lparr>t_counter := fair_value s p\<rparr> else tasks s p)"
    using fair_refill_ok[OF ok b] by blast
  have "task_fits (tasks s' p) \<and> t_counter (tasks s' p) \<noteq> 0" if "p \<in> set (list_elems K (runqueue s'))" for p
    using rq[of p] fair_value_bounds[OF ok b, of p] that by (simp add: s' task_fits_def)
  moreover have "task_fits (tasks s p)" if "p \<in> set (list_elems K (runqueue s))" for p
    using rq[OF that] by simp
  ultimately show ?thesis using repeat_schedule_once[where refill = fair_refill and s = s and s' = s', OF _ pen s'(1)] s'(1)
    by blast
qed

theorem fair_schedule_ends_witness:
  "\<exists>s' p. fair_refill fair_state = Inr s'
     \<and> repeat_schedule (small_kernel True) fair_refill 0 50 fair_state
       = Some (Inr (p, if out_of_time (small_kernel True) 0 50 fair_state then s' else fair_state))"
proof -
  have rq: "p \<in> set (all_tasks fair_state) \<and> task_fits (tasks fair_state p)"
    if "p \<in> set (list_elems (small_kernel True) (runqueue fair_state))" for p
    using that by (auto simp: fair_state_def small_defs task_fits_def nice_ok_def)
  have "penalty_ok (small_kernel True)" by (simp add: penalty_ok_def small_kernel_def)
  moreover have "3 * int (length (all_tasks fair_state)) < 2 ^ 30" by (simp add: fair_state_def)
  ultimately show ?thesis using fair_schedule_ends[OF fair_state_ok, of "small_kernel True" 0 50] rq by blast
qed

section \<open>Every history of the accounts\<close>













section \<open>More than one call of \<open>incshare\<close>\<close>

lemma incshare_calls:
  assumes "distinct (all_tasks s)" "p \<in> set (all_tasks s)"
    and "0 \<le> t_share (tasks s p)" "t_share (tasks s p) + int k < 2 ^ 31"
    and "0 \<le> user_processes s (t_user (tasks s p))" "user_processes s (t_user (tasks s p)) + int k < 2 ^ 31"
  defines "s' \<equiv> ((\<lambda>s. snd (sys_incshare (\<lambda>q. q = p) s)) ^^ k) s"
  shows "all_tasks s' = all_tasks s" "tasks s' p = tasks s p\<lparr>t_share := t_share (tasks s p) + int k\<rparr>"
    "user_processes s' = (user_processes s)(t_user (tasks s p) := user_processes s (t_user (tasks s p)) + int k)"
proof -
  have "all_tasks s' = all_tasks s \<and> tasks s' p = tasks s p\<lparr>t_share := t_share (tasks s p) + int k\<rparr>
    \<and> user_processes s' = (user_processes s)(t_user (tasks s p) := user_processes s (t_user (tasks s p)) + int k)"
    using assms(4,6) unfolding s'_def
  proof (induction k)
    case (Suc k)
    let ?t = "((\<lambda>s. snd (sys_incshare (\<lambda>q. q = p) s)) ^^ k) s"
    have "all_tasks ?t = all_tasks s \<and> tasks ?t p = tasks s p\<lparr>t_share := t_share (tasks s p) + int k\<rparr>
      \<and> user_processes ?t = (user_processes s)(t_user (tasks s p) := user_processes s (t_user (tasks s p)) + int k)"
      by (rule Suc.IH) (use Suc.prems in simp_all)
    then have t: "all_tasks ?t = all_tasks s" "tasks ?t p = tasks s p\<lparr>t_share := t_share (tasks s p) + int k\<rparr>"
      "user_processes ?t = (user_processes s)(t_user (tasks s p) := user_processes s (t_user (tasks s p)) + int k)"
      by blast+
    have c: "sys_incshare (\<lambda>q. q = p) ?t = (0, inc_share p ?t)"
      by (rule sys_incshare_caller) (use assms(1,2) t(1) in simp_all)
    have "to_int32 (t_share (tasks s p) + int k + 1) = t_share (tasks s p) + int k + 1"
      "to_int32 (user_processes s (t_user (tasks s p)) + int k + 1) = user_processes s (t_user (tasks s p)) + int k + 1"
      by (rule to_int32_id; use assms(3,5) Suc.prems in simp)+
    with t c show ?case by (simp add: algebra_simps)
  qed simp
  then show "all_tasks s' = all_tasks s" "tasks s' p = tasks s p\<lparr>t_share := t_share (tasks s p) + int k\<rparr>"
    "user_processes s' = (user_processes s)(t_user (tasks s p) := user_processes s (t_user (tasks s p)) + int k)" by blast+
qed

text \<open>
  A task may call \<open>incshare\<close> once; more often breaks the accounts of its user for good. A task
  that exits after \<open>k\<close> calls takes its own process off the count when \<open>k\<close> is 0 or 1, and leaves
  \<open>k\<close> processes too many behind otherwise, because the exit tests for a share of exactly 2. All later
  quotients of that user are taken by the inflated count.
\<close>

theorem incshare_leaks:
  assumes ok: "accounts_ok s l b" and b: "b + int k < 2 ^ 31" and p: "p \<in> set (all_tasks s)"
    and one: "t_share (tasks s p) = 1"
    and s': "((\<lambda>s. snd (sys_incshare (\<lambda>q. q = p) s)) ^^ k) s = s'" and off: "\<not> task_on_runqueue s' p"
  shows "\<exists>s''. release_task p s' = Inr s'' \<and> user_processes s'' (t_user (tasks s p))
    = user_processes s (t_user (tasks s p)) - 1 + (if k \<le> 1 then 0 else int k)"
proof -
  let ?u = "t_user (tasks s p)"
  note sh = share_le_processes[OF ok p]
  have d: "distinct (all_tasks s)" using ok by (simp add: accounts_ok_def)
  note c = incshare_calls[OF d p, of k, unfolded s']
  have c': "all_tasks s' = all_tasks s" "tasks s' p = tasks s p\<lparr>t_share := 1 + int k\<rparr>"
    "user_processes s' = (user_processes s)(?u := user_processes s ?u + int k)"
    by (rule c[unfolded one]; use sh b one in simp)+
  have "to_int32 (user_processes s ?u + int k - 1) = user_processes s ?u + int k - 1"
    "k = 1 \<Longrightarrow> to_int32 (user_processes s ?u - 1) = user_processes s ?u - 1"
    by (rule to_int32_id; use sh b one in simp)+
  then show ?thesis
    using off by (auto simp: release_task_def unhash_process_def task_on_runqueue_def Let_def c')
qed

theorem incshare_leaks_witness:
  "\<exists>s''. release_task 5 ((\<lambda>s. snd (sys_incshare (\<lambda>q. q = 5) s)) (snd (sys_incshare (\<lambda>q. q = 5) fair_state))) = Inr s''
     \<and> user_processes s'' 60 = 4"
proof -
  let ?s = "((\<lambda>s. snd (sys_incshare (\<lambda>q. q = 5) s)) ^^ 2) fair_state"
  have "\<not> task_on_runqueue ?s 5"
    by (simp add: numeral_2_eq_2 sys_incshare_def task_on_runqueue_def fair_state_def small_defs)
  from incshare_leaks[OF fair_state_ok _ _ _ refl this] show ?thesis
    by (simp add: numeral_2_eq_2) (simp add: fair_state_def small_defs)
qed

section \<open>Real-time tasks\<close>

text \<open>
  The fair counters can outrank real-time tasks. The original quanta keep the goodness of a
  \<open>SCHED_OTHER\<close> task below 1000, where the real-time priorities begin; the fair refill gives the only
  task of a user a counter equal to the number of all tasks, so with 1100 tasks or more it is
  preferred to every real-time task of priority up to 99.
\<close>

theorem fair_refill_outranks_realtime:
  assumes ok: "accounts_ok s l b" and b: "b * int (length (all_tasks s)) < 2 ^ 30" and pen: "penalty_ok K"
    and alone: "user_tasks s (t_user (tasks s p)) = {p}" "l (t_user (tasks s p)) = 0"
    and many: "1100 \<le> length (all_tasks s)"
    and p: "t_policy (tasks s p) = SCHED_OTHER" "task_fits (tasks s p)"
    and q: "t_policy (tasks s q) \<in> {SCHED_FIFO, SCHED_RR}" "task_fits (tasks s q)"
  shows "\<exists>s'. fair_refill s = Inr s' \<and> goodness K (tasks s' q) cpu mm < goodness K (tasks s' p) cpu mm"
proof -
  obtain s' where s': "fair_refill s = Inr s'"
    "\<And>p. tasks s' p = (if p \<in> set (all_tasks s) then tasks s p\<lparr>t_counter := fair_value s p\<rparr> else tasks s p)"
    using fair_refill_ok[OF ok b] by blast
  have pin: "p \<in> set (all_tasks s)" using alone(1) by (auto simp: user_tasks_def)
  note sh = share_le_processes[OF ok pin]
  have "user_processes s (t_user (tasks s p)) = t_share (tasks s p)"
    using ok alone by (simp add: accounts_ok_def shares_def)
  then have v: "fair_value s p = int (length (all_tasks s))" using sh(1) many by (simp add: fair_value_def)
  have fits: "task_fits (tasks s' p)" "task_fits (tasks s' q)"
    using p(2) q(2) pin fair_value_bounds[OF ok b, of p] fair_value_bounds[OF ok b, of q]
    by (auto simp: s'(2) task_fits_def)
  have tq: "t_policy (tasks s' q) = t_policy (tasks s q)" "t_rt_priority (tasks s' q) = t_rt_priority (tasks s q)"
    by (simp_all add: s'(2))
  have "goodness K (tasks s' q) cpu mm \<le> 1099"
    unfolding goodness_exact[OF fits(2) pen] using q by (auto simp: tq task_fits_def)
  moreover have "int (length (all_tasks s)) < goodness K (tasks s' p) cpu mm"
    unfolding goodness_exact[OF fits(1) pen] using p pin pen many
    by (auto simp: s'(2) v task_fits_def nice_ok_def penalty_ok_def)
  ultimately show ?thesis using s'(1) many by (intro exI[of _ s']) linarith
qed

definition crowd_tasks :: "ptr list" where
  "crowd_tasks = [2..<1102]"

lemma set_crowd_tasks [simp]: "p \<in> set crowd_tasks \<longleftrightarrow> 2 \<le> p \<and> p < 1102"
  unfolding crowd_tasks_def set_upt by (rule atLeastLessThan_iff)

lemma crowd_tasks [simp]: "distinct crowd_tasks" "length crowd_tasks = 1100"
  unfolding crowd_tasks_def length_upt by (rule distinct_upt) arith

definition crowd :: "ptr list sched" where
  "crowd = small_state
     \<lparr>tasks := (\<lambda>p. plain_task)(2 := plain_task\<lparr>t_user := 61\<rparr>, 3 := plain_task\<lparr>t_policy := SCHED_FIFO\<rparr>),
      all_tasks := crowd_tasks, user_processes := (\<lambda>u. 0)(60 := 1099, 61 := 1)\<rparr>"

lemma crowd_simps [simp]:
  "all_tasks crowd = crowd_tasks" "user_processes crowd = (\<lambda>u. 0)(60 := 1099, 61 := 1)"
  "tasks crowd = (\<lambda>p. plain_task)(2 := plain_task\<lparr>t_user := 61\<rparr>, 3 := plain_task\<lparr>t_policy := SCHED_FIFO\<rparr>)"
  by (simp_all add: crowd_def)

lemma crowd_users:
  "user_tasks crowd u = (if u = 60 then {3..<1102} else if u = 61 then {2} else {})"
  by (auto simp: user_tasks_def plain_task_def)

lemma crowd_ok: "accounts_ok crowd (\<lambda>_. 0) 1099"
proof -
  have one: "t_share (tasks crowd p) = 1" for p by (simp add: plain_task_def)
  have "shares crowd u = int (card (user_tasks crowd u))" for u unfolding shares_def one by simp
  then show ?thesis unfolding accounts_ok_def one by (simp add: crowd_users)
qed

theorem fair_refill_outranks_realtime_witness:
  "\<exists>s'. fair_refill crowd = Inr s' \<and> goodness (small_kernel False) (tasks s' 3) 0 50 < goodness (small_kernel False) (tasks s' 2) 0 50"
proof (rule fair_refill_outranks_realtime[OF crowd_ok])
  show "user_tasks crowd (t_user (tasks crowd 2)) = {2}" by (simp add: crowd_users)
qed (simp_all add: small_kernel_def plain_task_def penalty_ok_def task_fits_def nice_ok_def)

end
