(* ===== verification/SchedProcs.thy ===== *)
theory SchedProcs
  imports SchedBoot FairShare
begin

text \<open>
  The parts of \<open>sched.c\<close> and \<open>sched.h\<close> that work on a whole process: \<open>reparent_to_init\<close>, \<open>daemonize\<close>
  and \<open>unhash_process\<close>, over the scheduler's fields, the links between tasks, the hash of the
  process identifiers and the other fields of a \<open>task_struct\<close> they touch. \<open>exit_mm\<close>, \<open>exit_fs\<close>,
  \<open>exit_files\<close>, \<open>switch_uid\<close> and \<open>list_del\<close> on thread groups are defined elsewhere: parameters.
\<close>

section \<open>Processes\<close>

record proc =
  p_pid :: u32
  p_opptr :: ptr
  p_exit_signal :: int
  p_ptrace :: u32
  p_cap_inheritable :: u32
  p_cap_permitted :: u32
  p_keep_capabilities :: bool
  p_rlim :: "(u32 \<times> u32) list"
  p_session :: int
  p_pgrp :: int
  p_tty :: ptr
  p_fs :: ptr
  p_files :: ptr

record ('q, 'g) procs =
  sched_of :: "'q sched"
  links_of :: links
  pids_of :: pids
  proc :: "ptr \<Rightarrow> proc"
  threads :: 'g
  nr_threads :: int
  fs_count :: "ptr \<Rightarrow> int"
  files_count :: "ptr \<Rightarrow> int"

record ('q, 'g) proc_env = init_env +
  child_reaper :: ptr
  SIGCHLD :: int
  CAP_INIT_INH_SET :: u32
  CAP_FULL_SET :: u32
  switch_uid :: "ptr \<Rightarrow> ptr \<Rightarrow> 'q sched \<Rightarrow> 'q sched"
  del_thread :: "ptr \<Rightarrow> 'g \<Rightarrow> 'g"
  exit_mm :: "ptr \<Rightarrow> ('q, 'g) procs \<Rightarrow> ('q, 'g) procs"
  exit_fs :: "ptr \<Rightarrow> ('q, 'g) procs \<Rightarrow> ('q, 'g) procs"
  exit_files :: "ptr \<Rightarrow> ('q, 'g) procs \<Rightarrow> ('q, 'g) procs"

definition upd_proc :: "ptr \<Rightarrow> (proc \<Rightarrow> proc) \<Rightarrow> ('q, 'g) procs \<Rightarrow> ('q, 'g) procs" where
  "upd_proc p f P = P\<lparr>proc := (proc P)(p := f (proc P p))\<rparr>"

lemma upd_proc_frame [simp]:
  "proc (upd_proc p f P) = (proc P)(p := f (proc P p))" "sched_of (upd_proc p f P) = sched_of P"
  "links_of (upd_proc p f P) = links_of P" "pids_of (upd_proc p f P) = pids_of P"
  "threads (upd_proc p f P) = threads P" "nr_threads (upd_proc p f P) = nr_threads P"
  "fs_count (upd_proc p f P) = fs_count P" "files_count (upd_proc p f P) = files_count P"
  by (simp_all add: upd_proc_def)

section \<open>\<open>reparent_to_init\<close>\<close>





text \<open>A kernel thread 4, started by the real-time task 3, with limits of its own.\<close>

definition small_env :: "(ptr list, ptr list) proc_env" where
  "small_env =
     \<lparr>init_mm = 9, root_user = 8, CAP_INIT_EFF_SET = 255, child_reaper = 2, SIGCHLD = 17,
      CAP_INIT_INH_SET = 0, CAP_FULL_SET = NOT 0,
      switch_uid = (\<lambda>u p. upd_task p (\<lambda>t. t\<lparr>t_user := u\<rparr>)), del_thread = remove1,
      exit_mm = (\<lambda>p P. P),
      exit_fs = (\<lambda>p P. (upd_proc p (\<lambda>t. t\<lparr>p_fs := 0\<rparr>) P)
        \<lparr>fs_count := (fs_count P)(p_fs (proc P p) := fs_count P (p_fs (proc P p)) - 1)\<rparr>),
      exit_files = (\<lambda>p P. (upd_proc p (\<lambda>t. t\<lparr>p_files := 0\<rparr>) P)
        \<lparr>files_count := (files_count P)(p_files (proc P p) := files_count P (p_files (proc P p)) - 1)\<rparr>)\<rparr>"

definition small_proc :: "ptr \<Rightarrow> proc" where
  "small_proc p =
     \<lparr>p_pid = word_of_nat p, p_opptr = 1, p_exit_signal = 0, p_ptrace = 0, p_cap_inheritable = 0, p_cap_permitted = 0,
      p_keep_capabilities = False, p_rlim = (if p = 1 then [(1, 1), (2, 2), (3, 3)] else [(7, 7), (7, 7), (7, 7)]),
      p_session = 5, p_pgrp = 5, p_tty = 6, p_fs = (if p = 1 then 70 else 71), p_files = (if p = 1 then 80 else 81)\<rparr>"

definition small_procs :: "(ptr list, ptr list) procs" where
  "small_procs =
     \<lparr>sched_of = upd_task 4 (\<lambda>t. t\<lparr>t_policy := SCHED_FIFO, t_rt_priority := 50\<rparr>) small_state,
      links_of = small_links, pids_of = hash_pid word_of_nat 4 (hash_pid word_of_nat 3 no_pids),
      proc = small_proc, threads = [2, 3, 4], nr_threads = 3,
      fs_count = (\<lambda>a. if a = 70 then 1 else if a = 71 then 3 else 0),
      files_count = (\<lambda>a. if a = 80 then 1 else if a = 81 then 3 else 0)\<rparr>"


section \<open>\<open>unhash_process\<close>\<close>

definition unhash_process_links :: "('q, 'g) proc_env \<Rightarrow> ptr \<Rightarrow> ('q, 'g) procs \<Rightarrow> panic + ('q, 'g) procs" where
  "unhash_process_links E p P =
     (if task_on_runqueue (sched_of P) p then Inl Bug
      else let P = P\<lparr>nr_threads := nr_threads P - 1\<rparr>;
               P = P\<lparr>pids_of := unhash_pid p (pids_of P)\<rparr>;
               P = P\<lparr>links_of := REMOVE_LINKS p (links_of P)\<rparr>
           in Inr (P\<lparr>threads := del_thread E p (threads P)\<rparr>))"

text \<open>What the scheduler sees of the links: the tasks in the order of the ring, and who has an identifier.\<close>

definition sched_view :: "'q kernel \<Rightarrow> ('q, 'g) procs \<Rightarrow> 'q sched" where
  "sched_view K P = (sched_of P)
     \<lparr>all_tasks := for_each_task (init_task K) (links_of P),
      pid_table := (\<lambda>i. case find_task_by_pid (\<lambda>p. p_pid (proc P p)) (word_of_int i) (pids_of P) of
          Some q \<Rightarrow> if q = 0 then None else Some q | None \<Rightarrow> None)\<rparr>"

text \<open>
  C20: \<open>unhash_process\<close> on pointers, chains and counters implements \<open>unhash_process\<close> on the lists and
  maps of the scheduler. From consistent links and chains both panic for a task on the run queue, or
  both take exactly this task out of the list of all tasks and out of the map of identifiers; the
  ring and the chains stay consistent and one thread less is counted.
\<close>

theorem unhash_process_refines:
  fixes P :: "('q, 'g) procs"
  assumes "ring (init_task K) (links_of P) ps" "p \<in> set ps" "p \<noteq> 0"
    and "pids_ok (\<lambda>p. p_pid (proc P p)) (pids_of P) C" "p \<in> set (C (pid_hashfn (p_pid (proc P p))))"
    and "\<And>a b. a \<in> set (C (pid_hashfn (p_pid (proc P a)))) \<Longrightarrow> b \<in> set (C (pid_hashfn (p_pid (proc P b)))) \<Longrightarrow>
      p_pid (proc P a) = p_pid (proc P b) \<Longrightarrow> a = b"
  shows "map_sum id (sched_view K) (unhash_process_links E p P) = unhash_process p (sched_view K P)
    \<and> (\<forall>Q. unhash_process_links E p P = Inr Q \<longrightarrow>
        ring (init_task K) (links_of Q) (remove1 p ps) \<and> (\<exists>D. pids_ok (\<lambda>p. p_pid (proc Q p)) (pids_of Q) D)
        \<and> nr_threads Q = nr_threads P - 1)"
proof (cases "task_on_runqueue (sched_of P) p")
  case True
  then show ?thesis by (simp add: unhash_process_links_def unhash_process_def sched_view_def task_on_runqueue_def)
next
  case False
  let ?pid = "\<lambda>p. p_pid (proc P p)"
  let ?Q = "P\<lparr>nr_threads := nr_threads P - 1, pids_of := unhash_pid p (pids_of P),
    links_of := REMOVE_LINKS p (links_of P), threads := del_thread E p (threads P)\<rparr>"
  have Q: "unhash_process_links E p P = Inr ?Q" using False by (simp add: unhash_process_links_def Let_def)
  have r: "ring (init_task K) (REMOVE_LINKS p (links_of P)) (remove1 p ps)" by (rule ring_REMOVE_LINKS[OF assms(1,2)])
  have table: "(case find_task_by_pid ?pid i (unhash_pid p (pids_of P)) of Some q \<Rightarrow> if q = 0 then None else Some q | None \<Rightarrow> None) =
      (if (case find_task_by_pid ?pid i (pids_of P) of Some q \<Rightarrow> if q = 0 then None else Some q | None \<Rightarrow> None) = Some p
       then None
       else (case find_task_by_pid ?pid i (pids_of P) of Some q \<Rightarrow> if q = 0 then None else Some q | None \<Rightarrow> None))" for i
    using find_unhash_pid[OF assms(4,6,5), of i] find_task_unique[OF assms(4,6,5,3), of i]
    by (auto split: option.splits)
  have "sched_view K ?Q = (sched_view K P)\<lparr>all_tasks := remove1 p (all_tasks (sched_view K P)),
      pid_table := (\<lambda>i. if pid_table (sched_view K P) i = Some p then None else pid_table (sched_view K P) i)\<rparr>"
    using for_each_task_ring[OF r] for_each_task_ring[OF assms(1)] table
    by (simp add: sched_view_def cong: if_cong)
  moreover have "\<not> task_on_runqueue (sched_view K P) p" using False by (simp add: sched_view_def task_on_runqueue_def)
  ultimately have "map_sum id (sched_view K) (unhash_process_links E p P) = unhash_process p (sched_view K P)"
    unfolding Q by (simp add: unhash_process_def)
  moreover have "\<exists>D. pids_ok ?pid (unhash_pid p (pids_of P)) D" using unhash_pid_ok[OF assms(4,5)] by blast
  ultimately show ?thesis using r unfolding Q by simp
qed

definition exited_procs :: "(ptr list, ptr list) procs" where
  "exited_procs = small_procs\<lparr>sched_of := upd_task 4 (\<lambda>t. t\<lparr>t_on_list := False, t_state := TASK_ZOMBIE\<rparr>) small_state\<rparr>"

theorem unhash_process_refines_witness:
  "map_sum id (sched_view (small_kernel True)) (unhash_process_links small_env 4 exited_procs)
     = unhash_process 4 (sched_view (small_kernel True) exited_procs)"
proof -
  have pid: "p_pid (proc exited_procs q) = word_of_nat q" for q
    by (simp add: exited_procs_def small_procs_def small_proc_def)
  have h: "pid_hashfn 3 = 3" "pid_hashfn 4 = 4" by code_simp+
  have "pids_ok word_of_nat no_pids (\<lambda>_. [])" by (simp add: pids_ok_def no_pids_def read_place_def)
  from hash_pid_ok[OF this, of 3] have "pids_ok word_of_nat (hash_pid word_of_nat 3 no_pids) ((\<lambda>_. [])(3 := [3]))"
    by (simp add: h)
  from hash_pid_ok[OF this, of 4] have ok: "pids_ok (\<lambda>p. p_pid (proc exited_procs p)) (pids_of exited_procs) ((\<lambda>_. [])(3 := [3], 4 := [4]))"
    by (simp add: h pid) (simp add: exited_procs_def small_procs_def)
  have r: "ring (init_task (small_kernel True)) (links_of exited_procs) [2, 3, 4]"
    by (simp add: ring_def small_links_def small_procs_def small_kernel_def exited_procs_def)
  show ?thesis
    by (rule conjunct1[OF unhash_process_refines[OF r _ _ ok]])
      (simp_all add: pid h, auto split: if_splits)
qed

section \<open>\<open>daemonize\<close>\<close>

definition daemonize :: "'q kernel \<Rightarrow> ('q, 'g) proc_env \<Rightarrow> ptr \<Rightarrow> ('q, 'g) procs \<Rightarrow> ('q, 'g) procs" where
  "daemonize K E current P =
     (let P = exit_mm E current P;
          P = upd_proc current (\<lambda>t. t\<lparr>p_session := 1, p_pgrp := 1, p_tty := 0\<rparr>) P;
          P = exit_fs E current P;
          fs = p_fs (proc P (init_task K));
          P = upd_proc current (\<lambda>t. t\<lparr>p_fs := fs\<rparr>) P;
          P = P\<lparr>fs_count := (fs_count P)(fs := fs_count P fs + 1)\<rparr>;
          P = exit_files E current P;
          files = p_files (proc P (init_task K));
          P = upd_proc current (\<lambda>t. t\<lparr>p_files := files\<rparr>) P
      in P\<lparr>files_count := (files_count P)(files := files_count P files + 1)\<rparr>)"

text \<open>The counts of the shared tables: the users among the tasks \<open>T\<close>, and the references from elsewhere.\<close>

definition users :: "ptr set \<Rightarrow> (ptr \<Rightarrow> ptr) \<Rightarrow> ptr \<Rightarrow> int" where
  "users T f a = int (card {p \<in> T. f p = a})"

definition counts_ok :: "ptr set \<Rightarrow> (ptr \<Rightarrow> int) \<Rightarrow> (ptr \<Rightarrow> int) \<Rightarrow> ('q, 'g) procs \<Rightarrow> bool" where
  "counts_ok T b c P \<longleftrightarrow>
     (\<forall>a. a \<noteq> 0 \<longrightarrow> fs_count P a = b a + users T (\<lambda>p. p_fs (proc P p)) a)
     \<and> (\<forall>a. a \<noteq> 0 \<longrightarrow> files_count P a = c a + users T (\<lambda>p. p_files (proc P p)) a)"

text \<open>
  What the three functions of \<open>kernel/exit.c\<close> do to the tables: \<open>exit_fs\<close> and \<open>exit_files\<close> give back
  the table of the task and clear its pointer, \<open>exit_mm\<close> leaves both alone.
\<close>

definition exits_ok :: "('q, 'g) proc_env \<Rightarrow> bool" where
  "exits_ok E \<longleftrightarrow>
     (\<forall>p P. proc (exit_mm E p P) = proc P \<and> fs_count (exit_mm E p P) = fs_count P \<and> files_count (exit_mm E p P) = files_count P)
     \<and> (\<forall>p P. proc (exit_fs E p P) = (proc P)(p := (proc P p)\<lparr>p_fs := 0\<rparr>)
        \<and> (\<forall>a. a \<noteq> 0 \<longrightarrow> fs_count (exit_fs E p P) a = fs_count P a - (if a = p_fs (proc P p) then 1 else 0))
        \<and> files_count (exit_fs E p P) = files_count P)
     \<and> (\<forall>p P. proc (exit_files E p P) = (proc P)(p := (proc P p)\<lparr>p_files := 0\<rparr>)
        \<and> (\<forall>a. a \<noteq> 0 \<longrightarrow> files_count (exit_files E p P) a = files_count P a - (if a = p_files (proc P p) then 1 else 0))
        \<and> fs_count (exit_files E p P) = fs_count P)"

lemma users_upd:
  assumes "finite T" "p \<in> T"
  shows "users T (f(p := v)) a = users T f a - (if f p = a then 1 else 0) + (if v = a then 1 else 0)"
proof -
  have s: "{q \<in> T. (f(p := v)) q = a} = {q \<in> T - {p}. f q = a} \<union> (if v = a then {p} else {})"
    and t: "{q \<in> T. f q = a} = {q \<in> T - {p}. f q = a} \<union> (if f p = a then {p} else {})" using assms(2) by auto
  have fin: "finite {q \<in> T - {p}. f q = a}" using assms(1) by simp
  show ?thesis unfolding users_def s t using fin by (auto simp: card_insert_if)
qed

text \<open>
  \<open>daemonize\<close> keeps the reference counts right. A task other than init that calls it drops its
  tables of directories and files, whatever they were, shares those of init from then on, and the
  count of every table is again the number of tasks that use it plus the references from elsewhere;
  it belongs to the session and the group of init and has no terminal.
\<close>

theorem daemonize_counts:
  fixes P :: "('q, 'g) procs"
  assumes "exits_ok E" "counts_ok T b c P" "finite T" "p \<in> T" "p \<noteq> init_task K"
    and "p_fs (proc P (init_task K)) \<noteq> 0" "p_files (proc P (init_task K)) \<noteq> 0"
  defines "Q \<equiv> daemonize K E p P"
  shows "counts_ok T b c Q
    \<and> proc Q = (proc P)(p := (proc P p)\<lparr>p_session := 1, p_pgrp := 1, p_tty := 0,
        p_fs := p_fs (proc P (init_task K)), p_files := p_files (proc P (init_task K))\<rparr>)"
proof -
  let ?fs = "p_fs (proc P (init_task K))" and ?files = "p_files (proc P (init_task K))"
  have pr: "proc Q = (proc P)(p := (proc P p)\<lparr>p_session := 1, p_pgrp := 1, p_tty := 0, p_fs := ?fs, p_files := ?files\<rparr>)"
    using assms(1,5) by (simp add: Q_def daemonize_def Let_def exits_ok_def)
  have fs: "fs_count Q a = fs_count P a - (if a = p_fs (proc P p) then 1 else 0) + (if a = ?fs then 1 else 0)" if "a \<noteq> 0" for a
    using assms(1,5) that by (simp add: Q_def daemonize_def Let_def exits_ok_def)
  have files: "files_count Q a = files_count P a - (if a = p_files (proc P p) then 1 else 0) + (if a = ?files then 1 else 0)" if "a \<noteq> 0" for a
    using assms(1,5) that by (simp add: Q_def daemonize_def Let_def exits_ok_def)
  have u: "(\<lambda>q. p_fs (proc Q q)) = (\<lambda>q. p_fs (proc P q))(p := ?fs)" "(\<lambda>q. p_files (proc Q q)) = (\<lambda>q. p_files (proc P q))(p := ?files)"
    unfolding pr by auto
  have "counts_ok T b c Q"
    using assms(2) fs files unfolding counts_ok_def u users_upd[OF assms(3,4)] by auto
  with pr show ?thesis by blast
qed

lemma small_env_exits: "exits_ok small_env"
  by (auto simp: exits_ok_def small_env_def)

theorem daemonize_counts_witness:
  "counts_ok {1, 2, 3, 4} (\<lambda>_. 0) (\<lambda>_. 0) (daemonize (small_kernel True) small_env 4 small_procs)
   \<and> fs_count (daemonize (small_kernel True) small_env 4 small_procs) 70 = 2"
proof -
  have "counts_ok {1, 2, 3, 4} (\<lambda>_. 0) (\<lambda>_. 0) small_procs"
  proof -
    have "{p \<in> {1, 2, 3, 4 :: ptr}. (if p = 1 then x else y) = a} = (if a = x then {1} else {}) \<union> (if a = y then {2, 3, 4} else {})"
      for x y a :: ptr by auto
    then show ?thesis by (simp add: counts_ok_def users_def small_procs_def small_proc_def)
  qed
  from daemonize_counts[OF small_env_exits this, of 4 "small_kernel True"]
  have c: "counts_ok {1, 2, 3, 4} (\<lambda>_. 0) (\<lambda>_. 0) (daemonize (small_kernel True) small_env 4 small_procs)"
    by (simp add: small_procs_def small_proc_def small_kernel_def)
  moreover have "fs_count (daemonize (small_kernel True) small_env 4 small_procs) 70 = 2"
    by (simp add: daemonize_def Let_def small_env_def small_procs_def small_proc_def small_kernel_def)
  ultimately show ?thesis by blast
qed

end
