(* ===== verification/SchedSignal.thy ===== *)
theory SchedSignal
  imports SchedStates
begin

text \<open>
  Signals and privileges in \<open>sched.h\<close> and \<open>sched.c\<close>: the test for pending signals, which decides
  whether an interruptible task goes to sleep, the alternate signal stack, \<open>render_sigset_t\<close>, and
  \<open>suser\<close> and \<open>fsuser\<close>. A signal set is the list of its words.
\<close>

section \<open>Pending signals\<close>

definition unblocked :: "u32 list \<Rightarrow> u32 list \<Rightarrow> nat \<Rightarrow> u32" where
  "unblocked signal blocked i = signal ! i AND NOT (blocked ! i)"

text \<open>\<open>nsig_words\<close> is \<open>_NSIG_WORDS\<close>; the cases 4, 2 and 1 are unrolled.\<close>

definition has_pending_signals :: "nat \<Rightarrow> u32 list \<Rightarrow> u32 list \<Rightarrow> bool" where
  "has_pending_signals nsig_words signal blocked =
     (let r = unblocked signal blocked;
          ready =
            (if nsig_words = 4 then r 3 OR r 2 OR r 1 OR r 0
             else if nsig_words = 2 then r 1 OR r 0
             else if nsig_words = 1 then r 0
             else fold (\<lambda>i ready. ready OR r i) (rev [0..<nsig_words]) 0)
      in ready \<noteq> 0)"

definition recalc_sigpending :: "nat \<Rightarrow> (ptr \<Rightarrow> u32 list) \<Rightarrow> (ptr \<Rightarrow> u32 list) \<Rightarrow> ptr \<Rightarrow> 'q sched \<Rightarrow> 'q sched" where
  "recalc_sigpending nsig_words pending blocked p s =
     upd_task p (\<lambda>t. t\<lparr>t_sigpending := has_pending_signals nsig_words (pending p) (blocked p)\<rparr>) s"

text \<open>Signal \<open>k + 1\<close> is a member of a set.\<close>

definition sig_member :: "u32 list \<Rightarrow> nat \<Rightarrow> bool" where
  "sig_member ws k \<longleftrightarrow> bit (ws ! (k div 32)) (k mod 32)"

lemma fold_or_nonzero:
  "fold (\<lambda>i ready. ready OR r i) is x \<noteq> (0 :: u32) \<longleftrightarrow> x \<noteq> 0 \<or> (\<exists>i\<in>set is. r i \<noteq> 0)"
  by (induction "is" arbitrary: x) (auto simp: or_eq_0_iff)

lemma has_pending_words:
  "has_pending_signals n signal blocked \<longleftrightarrow> (\<exists>i<n. unblocked signal blocked i \<noteq> 0)"
proof -
  have four: "(\<exists>i<4. P i) \<longleftrightarrow> P 3 \<or> P 2 \<or> P 1 \<or> P (0 :: nat)" for P
    by (auto simp: numeral_eq_Suc less_Suc_eq)
  have two: "(\<exists>i<2. P i) \<longleftrightarrow> P 1 \<or> P (0 :: nat)" for P by (auto simp: numeral_eq_Suc less_Suc_eq)
  show ?thesis
    unfolding has_pending_signals_def Let_def
    by (auto simp: fold_or_nonzero four two or_eq_0_iff)
qed

lemma has_pending_members:
  "has_pending_signals n signal blocked \<longleftrightarrow> (\<exists>k<32 * n. sig_member signal k \<and> \<not> sig_member blocked k)"
proof -
  have word: "x \<noteq> 0 \<longleftrightarrow> (\<exists>j<32. bit x j)" for x :: u32
  proof
    assume "x \<noteq> 0"
    moreover have "x = 0" if "\<And>j. j < 32 \<Longrightarrow> \<not> bit x j" by (rule bit_word_eqI) (use that in simp)
    ultimately show "\<exists>j<32. bit x j" by blast
  qed auto
  have "(\<exists>i<n. unblocked signal blocked i \<noteq> 0) \<longleftrightarrow> (\<exists>i<n. \<exists>j<32. bit (signal ! i) j \<and> \<not> bit (blocked ! i) j)"
    unfolding word by (auto simp: unblocked_def bit_simps)
  also have "\<dots> \<longleftrightarrow> (\<exists>k<32 * n. sig_member signal k \<and> \<not> sig_member blocked k)"
  proof
    assume "\<exists>i<n. \<exists>j<32. bit (signal ! i) j \<and> \<not> bit (blocked ! i) j"
    then obtain i j where "i < n" "j < 32" "bit (signal ! i) j" "\<not> bit (blocked ! i) j" by blast
    then show "\<exists>k<32 * n. sig_member signal k \<and> \<not> sig_member blocked k"
      by (intro exI[of _ "32 * i + j"]) (simp add: sig_member_def)
  next
    assume "\<exists>k<32 * n. sig_member signal k \<and> \<not> sig_member blocked k"
    then obtain k where "k < 32 * n" "sig_member signal k" "\<not> sig_member blocked k" by blast
    then show "\<exists>i<n. \<exists>j<32. bit (signal ! i) j \<and> \<not> bit (blocked ! i) j"
      by (intro exI[of _ "k div 32"] conjI exI[of _ "k mod 32"]) (auto simp: sig_member_def less_mult_imp_div_less mult.commute)
  qed
  finally show ?thesis by (simp add: has_pending_words)
qed

text \<open>
  C27: a task that calls \<open>schedule\<close> in the interruptible state goes to sleep exactly when none of its
  pending signals is unblocked. This holds for every number of words of a signal set, the unrolled
  cases and the loop alike, with the flag \<open>sigpending\<close> computed by \<open>recalc_sigpending\<close> before.
\<close>

theorem interruptible_sleep_iff_no_signal:
  assumes "t_on_list (tasks s p)" "t_state (tasks s p) = TASK_INTERRUPTIBLE"
  shows "t_on_list (tasks (schedule_start K p (recalc_sigpending n pending blocked p s)) p) \<longleftrightarrow>
    (\<exists>k<32 * n. sig_member (pending p) k \<and> \<not> sig_member (blocked p) k)"
proof -
  let ?s = "recalc_sigpending n pending blocked p s"
  have "state_at_switch (tasks ?s p) = TASK_RUNNING \<longleftrightarrow> has_pending_signals n (pending p) (blocked p)"
    using assms by (simp add: state_at_switch_def recalc_sigpending_def)
  moreover have "t_on_list (tasks ?s p)" using assms by (simp add: recalc_sigpending_def)
  ultimately have "t_on_list (tasks (schedule_start K p ?s) p) \<longleftrightarrow> has_pending_signals n (pending p) (blocked p)"
    using schedule_start_states(3,4)[where K = K and s = ?s and prev = p] by blast
  then show ?thesis unfolding has_pending_members .
qed

theorem interruptible_sleep_iff_no_signal_witness:
  "t_on_list (tasks (schedule_start (small_kernel True) 3
      (recalc_sigpending 2 (\<lambda>p. [0, 4]) (\<lambda>p. [1, 2]) 3 (upd_task 3 (\<lambda>t. t\<lparr>t_state := TASK_INTERRUPTIBLE\<rparr>) small_state))) 3)"
proof -
  let ?s = "upd_task 3 (\<lambda>t. t\<lparr>t_state := TASK_INTERRUPTIBLE\<rparr>) small_state"
  have p: "t_on_list (tasks ?s 3)" "t_state (tasks ?s 3) = TASK_INTERRUPTIBLE" by (simp_all add: small_defs)
  have "sig_member [0, 4] 34 \<and> \<not> sig_member [1, 2] 34" by (simp add: sig_member_def)
  then have "\<exists>k<32 * 2. sig_member [0, 4] k \<and> \<not> sig_member [1, 2] k" by (intro exI[of _ 34]) simp
  with interruptible_sleep_iff_no_signal[OF p] show ?thesis by blast
qed

section \<open>The alternate signal stack\<close>

definition SS_ONSTACK :: int where [simp]: "SS_ONSTACK = 1"
definition SS_DISABLE :: int where [simp]: "SS_DISABLE = 2"

definition on_sig_stack :: "u32 \<Rightarrow> u32 \<Rightarrow> u32 \<Rightarrow> bool" where
  "on_sig_stack sas_ss_sp sas_ss_size sp \<longleftrightarrow> sp - sas_ss_sp < sas_ss_size"

definition sas_ss_flags :: "u32 \<Rightarrow> u32 \<Rightarrow> u32 \<Rightarrow> int" where
  "sas_ss_flags sas_ss_sp sas_ss_size sp =
     (if sas_ss_size = 0 then SS_DISABLE else if on_sig_stack sas_ss_sp sas_ss_size sp then SS_ONSTACK else 0)"

text \<open>One comparison of words is the test of both ends of the stack, when the stack does not wrap around.\<close>

lemma on_sig_stack_range:
  assumes "uint base + uint len \<le> 2 ^ 32"
  shows "on_sig_stack base len sp \<longleftrightarrow> uint base \<le> uint sp \<and> uint sp < uint base + uint len"
proof (cases "uint base \<le> uint sp")
  case True
  then have "uint (sp - base) = uint sp - uint base" by (simp add: uint_sub_if')
  with True show ?thesis unfolding on_sig_stack_def word_less_def by linarith
next
  case False
  then have "uint (sp - base) = uint sp - uint base + 2 ^ 32" by (simp add: uint_sub_if')
  moreover have "0 \<le> uint sp" by simp
  ultimately show ?thesis using assms False unfolding on_sig_stack_def word_less_def by linarith
qed

section \<open>Root privileges\<close>

definition suser :: "bool \<Rightarrow> ptr \<Rightarrow> 'q sched \<Rightarrow> bool \<times> 'q sched" where
  "suser issecure_noroot current s =
     (if \<not> issecure_noroot \<and> t_euid (tasks s current) = 0
      then (True, upd_task current (\<lambda>t. t\<lparr>t_flags := t_flags t OR PF_SUPERPRIV\<rparr>) s) else (False, s))"

definition fsuser :: "bool \<Rightarrow> (ptr \<Rightarrow> int) \<Rightarrow> ptr \<Rightarrow> 'q sched \<Rightarrow> bool \<times> 'q sched" where
  "fsuser issecure_noroot fsuid current s =
     (if \<not> issecure_noroot \<and> fsuid current = 0
      then (True, upd_task current (\<lambda>t. t\<lparr>t_flags := t_flags t OR PF_SUPERPRIV\<rparr>) s) else (False, s))"

section \<open>Printing a signal set\<close>

text \<open>A hexadecimal digit: \<open>(x < 10 ? '0' : 'a' - 10) + x\<close>.\<close>

definition hex_digit :: "nat \<Rightarrow> char" where
  "hex_digit x = char_of ((if x < 10 then 48 else 97 - 10) + x)"

definition nibble :: "(int \<Rightarrow> bool) \<Rightarrow> int \<Rightarrow> nat" where
  "nibble sigismember i =
     (if sigismember (i + 1) then 1 else 0) + (if sigismember (i + 2) then 2 else 0)
     + (if sigismember (i + 3) then 4 else 0) + (if sigismember (i + 4) then 8 else 0)"

function render_digits :: "(int \<Rightarrow> bool) \<Rightarrow> int \<Rightarrow> string" where
  "render_digits sigismember i =
     (let i = i - 4; c = hex_digit (nibble sigismember i)
      in if i \<ge> 4 then c # render_digits sigismember i else [c])"
  by auto

termination by (relation "measure (\<lambda>(P, i). nat i)") auto

declare render_digits.simps [simp del]

text \<open>The text in the buffer; the result points to its terminating 0.\<close>

definition render_sigset_t :: "int \<Rightarrow> (int \<Rightarrow> bool) \<Rightarrow> string \<times> nat" where
  "render_sigset_t nsig sigismember =
     (render_digits sigismember nsig @ [char_of (0 :: nat)], length (render_digits sigismember nsig))"

text \<open>Reading a hexadecimal number.\<close>

definition hex_digit_value :: "char \<Rightarrow> nat" where
  "hex_digit_value c = (if of_char c < (58 :: nat) then of_char c - 48 else of_char c - 87)"

definition hex_value :: "string \<Rightarrow> nat" where
  "hex_value cs = foldl (\<lambda>n c. 16 * n + hex_digit_value c) 0 cs"

lemma hex_digit_value_hex_digit: "x < 16 \<Longrightarrow> hex_digit_value (hex_digit x) = x"
  by (simp add: hex_digit_value_def hex_digit_def)

lemma nibble_less: "nibble P i < 16"
  by (simp add: nibble_def)

lemma hex_value_Cons: "hex_value (c # cs) = hex_digit_value c * 16 ^ length cs + hex_value cs"
proof -
  have "foldl (\<lambda>n c. 16 * n + hex_digit_value c) a cs = a * 16 ^ length cs + foldl (\<lambda>n c. 16 * n + hex_digit_value c) 0 cs" for a
  proof (induction cs rule: rev_induct)
    case (snoc c cs)
    show ?case unfolding foldl_append foldl.simps snoc by (simp add: algebra_simps)
  qed simp
  from this[of "hex_digit_value c"] show ?thesis by (simp add: hex_value_def)
qed

text \<open>The members as a bit mask: signal \<open>k + 1\<close> is bit \<open>k\<close>.\<close>

definition mask_of :: "(int \<Rightarrow> bool) \<Rightarrow> nat \<Rightarrow> nat" where
  "mask_of P n = horner_sum of_bool 2 (map (\<lambda>k. P (int k + 1)) [0..<n])"

lemma mask_of_add4: "mask_of P (4 * n + 4) = nibble P (int (4 * n)) * 16 ^ n + mask_of P (4 * n)"
proof -
  have u: "[0..<m + 4] = [0..<m] @ [m, m + 1, m + 2, m + 3]" for m :: nat
    by (simp add: numeral_eq_Suc)
  have "(2 :: nat) ^ (4 * n) = 16 ^ n" by (simp add: power_mult)
  then show ?thesis unfolding mask_of_def u[of "4 * n"]
    by (simp add: horner_sum_append nibble_def ac_simps)
qed

lemma render_digits_value:
  assumes "0 < n"
  shows "hex_value (render_digits P (int (4 * n))) = mask_of P (4 * n) \<and> length (render_digits P (int (4 * n))) = n"
  using assms
proof (induction n)
  case (Suc n)
  have i: "int (4 * Suc n) - 4 = int (4 * n)" by simp
  show ?case
  proof (cases "n = 0")
    case True
    have "mask_of P (4 * 0 + 4) = nibble P 0" using mask_of_add4[of P 0] by (simp add: mask_of_def)
    then show ?thesis using True
      by (subst (1 2) render_digits.simps) (simp add: Let_def hex_value_Cons hex_value_def hex_digit_value_hex_digit nibble_less)
  next
    case False
    then have r: "render_digits P (int (4 * Suc n)) = hex_digit (nibble P (int (4 * n))) # render_digits P (int (4 * n))"
      by (subst render_digits.simps) (simp add: i Let_def)
    with Suc.IH False mask_of_add4[of P n, unfolded add.commute[of _ 4]] show ?thesis
      by (simp add: hex_value_Cons hex_digit_value_hex_digit nibble_less)
  qed
qed simp

text \<open>
  C33: the text of \<open>render_sigset_t\<close> can be read back. For every number of signals that is a positive
  multiple of 4 it is one hexadecimal digit for four signals, in a buffer of that length and a 0, the
  result points at the 0, and as a number it has exactly the bits of the members of the set.
\<close>

theorem render_sigset_roundtrip:
  assumes "0 < n" "render_sigset_t (int (4 * n)) sigismember = (buffer, end)"
  shows "length buffer = n + 1 \<and> end = n \<and> buffer ! n = char_of (0 :: nat)
    \<and> (\<forall>k<4 * n. bit (hex_value (take n buffer)) k \<longleftrightarrow> sigismember (int k + 1))
    \<and> hex_value (take n buffer) < 2 ^ (4 * n)"
proof -
  note r = render_digits_value[OF assms(1), of sigismember]
  have b: "buffer = render_digits sigismember (int (4 * n)) @ [char_of (0 :: nat)]" "end = length (render_digits sigismember (int (4 * n)))"
    using assms(2) by (simp_all add: render_sigset_t_def)
  have t: "take n buffer = render_digits sigismember (int (4 * n))" using r b(1) by simp
  have "hex_value (take n buffer) = mask_of sigismember (4 * n)" using r t by simp
  moreover have "mask_of sigismember (4 * n) < 2 ^ (4 * n)"
    unfolding mask_of_def using horner_sum_of_bool_2_less[of "map (\<lambda>k. sigismember (int k + 1)) [0..<4 * n]"] by simp
  moreover have "bit (mask_of sigismember (4 * n)) k \<longleftrightarrow> sigismember (int k + 1)" if "k < 4 * n" for k
    unfolding mask_of_def using that by (simp add: bit_horner_sum_bit_iff)
  ultimately show ?thesis using r b by (auto simp: nth_append)
qed

theorem render_sigset_roundtrip_witness:
  "bit (hex_value (take 16 (fst (render_sigset_t 64 (\<lambda>s. s = 9 \<or> s = 15))))) 14"
  using render_sigset_roundtrip[of 16 "\<lambda>s. s = 9 \<or> s = 15", OF _ prod.collapse[symmetric]] by simp

end
