(* ===== verification/SchedShow.thy ===== *)
theory SchedShow
  imports SchedProcs SchedSignal CString
begin

text \<open>
  The listing of all tasks on the console (\<open>show_state\<close>, \<open>show_task\<close> in \<open>sched.c\<close>) as the text that
  \<open>printk\<close> gets, on a 32-bit machine. The program counter of a task, the words of its kernel stack
  above the task structure and \<open>show_trace_task\<close> come from elsewhere: parameters.
\<close>

record show_env =
  thread_saved_pc :: "ptr \<Rightarrow> u32"
  stack_words :: "ptr \<Rightarrow> u32 list"
  p_comm :: "ptr \<Rightarrow> string"
  ffz :: "u32 \<Rightarrow> nat"
  show_trace_task :: "ptr \<Rightarrow> string"

section \<open>Conversions of \<open>printk\<close>\<close>

definition pad_left :: "nat \<Rightarrow> string \<Rightarrow> string" where
  "pad_left n s = replicate (n - length s) CHR '' '' @ s"

definition pad_right :: "nat \<Rightarrow> string \<Rightarrow> string" where
  "pad_right n s = s @ replicate (n - length s) CHR '' ''"

definition hex_upper :: "u32 \<Rightarrow> string" where
  "hex_upper w = map (\<lambda>k. ''0123456789ABCDEF'' ! unat (drop_bit (4 * (7 - k)) w AND 15)) [0..<8]"

section \<open>One task\<close>

definition stat_nam :: "string list" where
  "stat_nam = [''R'', ''S'', ''D'', ''Z'', ''T'', ''W'']"

definition stat_letter :: "(u32 \<Rightarrow> nat) \<Rightarrow> u32 \<Rightarrow> string" where
  "stat_letter find_zero st =
     (let i = (if st \<noteq> 0 then find_zero (NOT st) + 1 else 0)
      in if i < length stat_nam then stat_nam ! i else '' '')"

text \<open>
  The search for the first used word of the stack goes on until it finds one: on an unused stack it
  leaves the stack, \<open>None\<close>.
\<close>

fun unused_words :: "u32 list \<Rightarrow> nat option" where
  "unused_words [] = None"
| "unused_words (n # ns) = (if n = 0 then map_option Suc (unused_words ns) else Some 0)"

definition show_pid :: "nat \<Rightarrow> string \<Rightarrow> ptr \<Rightarrow> ('q, 'g) procs \<Rightarrow> string" where
  "show_pid n no_task p P = (if p \<noteq> 0 then pad_left n (render_int (sint (p_pid (proc P p)))) else no_task)"

definition show_task :: "show_env \<Rightarrow> ptr \<Rightarrow> ('q, 'g) procs \<Rightarrow> ptr \<Rightarrow> string option" where
  "show_task E current P p =
     (case unused_words (stack_words E p) of None \<Rightarrow> None
      | Some n \<Rightarrow> Some
         (pad_right 13 (take 13 (p_comm E p)) @ '' ''
          @ stat_letter (ffz E) (t_state (tasks (sched_of P) p))
          @ (if p = current then '' current  '' else '' '' @ hex_upper (thread_saved_pc E p) @ '' '')
          @ pad_left 5 (render_nat (4 * n)) @ '' '' @ pad_left 5 (render_int (sint (p_pid (proc P p)))) @ '' ''
          @ pad_left 6 (render_int (sint (p_pid (proc P (p_pptr (links_of P) p))))) @ '' ''
          @ (if p_cptr (links_of P) p \<noteq> 0
             then pad_left 5 (render_int (sint (p_pid (proc P (p_cptr (links_of P) p))))) @ '' '' else ''      '')
          @ show_pid 7 ''       '' (p_ysptr (links_of P) p) P
          @ (if p_osptr (links_of P) p \<noteq> 0
             then '' '' @ pad_left 5 (render_int (sint (p_pid (proc P (p_osptr (links_of P) p))))) else ''      '')
          @ (if t_mm (tasks (sched_of P) p) = 0 then '' (L-TLB)'' @ [CHR 0x0A] else '' (NOTLB)'' @ [CHR 0x0A])
          @ show_trace_task E p))"

section \<open>All tasks\<close>

definition show_header :: string where
  "show_header = [CHR 0x0A] @ ''                         free                        sibling'' @ [CHR 0x0A]
     @ ''  task             PC    stack   pid father child younger older'' @ [CHR 0x0A]"

fun show_tasks :: "show_env \<Rightarrow> ptr \<Rightarrow> ('q, 'g) procs \<Rightarrow> ptr list \<Rightarrow> string option" where
  "show_tasks E current P [] = Some []"
| "show_tasks E current P (p # ps) =
     (case show_task E current P p of None \<Rightarrow> None
      | Some line \<Rightarrow> map_option (\<lambda>rest. line @ rest) (show_tasks E current P ps))"

definition show_state :: "'q kernel \<Rightarrow> show_env \<Rightarrow> ptr \<Rightarrow> ('q, 'g) procs \<Rightarrow> string option" where
  "show_state K E current P =
     map_option (\<lambda>text. show_header @ text) (show_tasks E current P (for_each_task (init_task K) (links_of P)))"

section \<open>What is shown\<close>

text \<open>\<open>ffz\<close> finds the first 0 bit of a word that has one.\<close>

definition finds_zero :: "(u32 \<Rightarrow> nat) \<Rightarrow> bool" where
  "finds_zero f \<longleftrightarrow> (\<forall>w i. i < 32 \<longrightarrow> \<not> bit w i \<longrightarrow> (\<forall>j<i. bit w j) \<longrightarrow> f w = i)"

lemma stat_letter_state:
  assumes "finds_zero f"
  shows "stat_letter f TASK_RUNNING = ''R'' \<and> stat_letter f TASK_INTERRUPTIBLE = ''S''
    \<and> stat_letter f TASK_UNINTERRUPTIBLE = ''D'' \<and> stat_letter f TASK_ZOMBIE = ''Z'' \<and> stat_letter f TASK_STOPPED = ''T''"
proof -
  have f: "f (NOT (push_bit i 1)) = i" if "i < 32" for i
    using assms that unfolding finds_zero_def by (auto simp: bit_simps)
  from f[of 0] f[of 1] f[of 2] f[of 3] have "f (NOT 1) = 0" "f (NOT 2) = 1" "f (NOT 4) = 2" "f (NOT 8) = 3" by simp_all
  then show ?thesis by (simp add: stat_letter_def stat_nam_def)
qed

lemma unused_words_Some: "unused_words ws = Some n \<longleftrightarrow> n < length ws \<and> ws ! n \<noteq> 0 \<and> (\<forall>i<n. ws ! i = 0)"
proof (induction ws arbitrary: n)
  case (Cons w ws)
  show ?case
    by (cases n) (auto simp: Cons nth_Cons' less_Suc_eq_0_disj split: if_splits)
qed simp

lemma unused_words_None: "unused_words ws = None \<longleftrightarrow> (\<forall>w\<in>set ws. w = 0)"
  by (induction ws) auto

lemma show_tasks_append:
  "show_tasks E current P (ps @ qs) =
     Option.bind (show_tasks E current P ps) (\<lambda>a. map_option (\<lambda>b. a @ b) (show_tasks E current P qs))"
  by (induction ps) (auto simp: option.map_comp comp_def map_option_case split: option.splits)

lemma show_tasks_Some:
  "show_tasks E current P ps = Some out \<longleftrightarrow>
     (\<exists>ls. list_all2 (\<lambda>p l. show_task E current P p = Some l) ps ls \<and> out = concat ls)"
proof (induction ps arbitrary: out)
  case (Cons p ps)
  show ?case
    by (auto simp: Cons list_all2_Cons1 split: option.splits)
qed auto

end
