(* ===== verification/Syscalls.thy ===== *)
theory Syscalls
  imports Prelude "HOL-Library.Word"
begin

text \<open>
  The system call interface of \<open>unistd.h\<close> and \<open>entry.S\<close>: the numbers \<open>__NR_*\<close>, the stubs
  \<open>_syscall0\<close> to \<open>_syscall6\<close> that load the registers and turn a result into \<open>errno\<close>, the entry
  point \<open>system_call\<close> and the table \<open>sys_call_table\<close>. \<open>NR_syscalls\<close>, the tracer and the functions
  in the table are not in these files: they are parameters. What happens on the way back to user
  mode (a reschedule, the delivery of signals) starts at \<open>ret_from_sys_call\<close> and is not part of it.
\<close>

type_synonym u32 = "32 word"

section \<open>The numbers\<close>

definition NR_1 :: "(string \<times> int) list" where
  "NR_1 =
   [(''exit'', 1), (''fork'', 2), (''read'', 3), (''write'', 4), (''open'', 5), (''close'', 6),
    (''waitpid'', 7), (''creat'', 8), (''link'', 9), (''unlink'', 10), (''execve'', 11),
    (''chdir'', 12), (''time'', 13), (''mknod'', 14), (''chmod'', 15), (''lchown'', 16),
    (''break'', 17), (''oldstat'', 18), (''lseek'', 19), (''getpid'', 20), (''mount'', 21),
    (''umount'', 22), (''setuid'', 23), (''getuid'', 24), (''stime'', 25), (''ptrace'', 26),
    (''alarm'', 27), (''oldfstat'', 28), (''pause'', 29), (''utime'', 30), (''stty'', 31),
    (''gtty'', 32), (''access'', 33), (''nice'', 34), (''ftime'', 35), (''sync'', 36),
    (''kill'', 37), (''rename'', 38), (''mkdir'', 39), (''rmdir'', 40), (''dup'', 41),
    (''pipe'', 42), (''times'', 43), (''prof'', 44), (''brk'', 45), (''setgid'', 46),
    (''getgid'', 47), (''signal'', 48), (''geteuid'', 49), (''getegid'', 50), (''acct'', 51),
    (''umount2'', 52), (''lock'', 53), (''ioctl'', 54), (''fcntl'', 55), (''mpx'', 56),
    (''setpgid'', 57), (''ulimit'', 58), (''oldolduname'', 59), (''umask'', 60), (''chroot'', 61),
    (''ustat'', 62), (''dup2'', 63), (''getppid'', 64), (''getpgrp'', 65), (''setsid'', 66),
    (''sigaction'', 67), (''sgetmask'', 68), (''ssetmask'', 69), (''setreuid'', 70),
    (''setregid'', 71), (''sigsuspend'', 72), (''sigpending'', 73), (''sethostname'', 74),
    (''setrlimit'', 75), (''getrlimit'', 76), (''getrusage'', 77), (''gettimeofday'', 78),
    (''settimeofday'', 79), (''getgroups'', 80), (''setgroups'', 81), (''select'', 82),
    (''symlink'', 83), (''oldlstat'', 84), (''readlink'', 85), (''uselib'', 86), (''swapon'', 87),
    (''reboot'', 88), (''readdir'', 89), (''mmap'', 90), (''munmap'', 91), (''truncate'', 92),
    (''ftruncate'', 93), (''fchmod'', 94), (''fchown'', 95), (''getpriority'', 96),
    (''setpriority'', 97), (''profil'', 98), (''statfs'', 99), (''fstatfs'', 100),
    (''ioperm'', 101), (''socketcall'', 102), (''syslog'', 103), (''setitimer'', 104),
    (''getitimer'', 105), (''stat'', 106), (''lstat'', 107), (''fstat'', 108), (''olduname'', 109),
    (''iopl'', 110), (''vhangup'', 111), (''idle'', 112), (''vm86old'', 113), (''wait4'', 114),
    (''swapoff'', 115), (''sysinfo'', 116), (''ipc'', 117), (''fsync'', 118), (''sigreturn'', 119),
    (''clone'', 120), (''setdomainname'', 121), (''uname'', 122), (''modify_ldt'', 123)]"

definition NR_2 :: "(string \<times> int) list" where
  "NR_2 =
   [(''adjtimex'', 124), (''mprotect'', 125), (''sigprocmask'', 126), (''create_module'', 127),
    (''init_module'', 128), (''delete_module'', 129), (''get_kernel_syms'', 130),
    (''quotactl'', 131), (''getpgid'', 132), (''fchdir'', 133), (''bdflush'', 134),
    (''sysfs'', 135), (''personality'', 136), (''afs_syscall'', 137), (''setfsuid'', 138),
    (''setfsgid'', 139), (''_llseek'', 140), (''getdents'', 141), (''_newselect'', 142),
    (''flock'', 143), (''msync'', 144), (''readv'', 145), (''writev'', 146), (''getsid'', 147),
    (''fdatasync'', 148), (''_sysctl'', 149), (''mlock'', 150), (''munlock'', 151),
    (''mlockall'', 152), (''munlockall'', 153), (''sched_setparam'', 154),
    (''sched_getparam'', 155), (''sched_setscheduler'', 156), (''sched_getscheduler'', 157),
    (''sched_yield'', 158), (''sched_get_priority_max'', 159), (''sched_get_priority_min'', 160),
    (''sched_rr_get_interval'', 161), (''nanosleep'', 162), (''mremap'', 163), (''setresuid'', 164),
    (''getresuid'', 165), (''vm86'', 166), (''query_module'', 167), (''poll'', 168),
    (''nfsservctl'', 169), (''setresgid'', 170), (''getresgid'', 171), (''prctl'', 172),
    (''rt_sigreturn'', 173), (''rt_sigaction'', 174), (''rt_sigprocmask'', 175),
    (''rt_sigpending'', 176), (''rt_sigtimedwait'', 177), (''rt_sigqueueinfo'', 178),
    (''rt_sigsuspend'', 179), (''pread'', 180), (''pwrite'', 181), (''chown'', 182),
    (''getcwd'', 183), (''capget'', 184), (''capset'', 185), (''sigaltstack'', 186),
    (''sendfile'', 187), (''getpmsg'', 188), (''putpmsg'', 189), (''vfork'', 190),
    (''ugetrlimit'', 191), (''mmap2'', 192), (''truncate64'', 193), (''ftruncate64'', 194),
    (''stat64'', 195), (''lstat64'', 196), (''fstat64'', 197), (''lchown32'', 198),
    (''getuid32'', 199), (''getgid32'', 200), (''geteuid32'', 201), (''getegid32'', 202),
    (''setreuid32'', 203), (''setregid32'', 204), (''getgroups32'', 205), (''setgroups32'', 206),
    (''fchown32'', 207), (''setresuid32'', 208), (''getresuid32'', 209), (''setresgid32'', 210),
    (''getresgid32'', 211), (''chown32'', 212), (''setuid32'', 213), (''setgid32'', 214),
    (''setfsuid32'', 215), (''setfsgid32'', 216), (''pivot_root'', 217), (''mincore'', 218),
    (''madvise'', 219), (''madvise1'', 219), (''getdents64'', 220), (''fcntl64'', 221),
    (''security'', 223), (''gettid'', 224), (''readahead'', 225), (''setxattr'', 226),
    (''lsetxattr'', 227), (''fsetxattr'', 228), (''getxattr'', 229), (''lgetxattr'', 230),
    (''fgetxattr'', 231), (''listxattr'', 232), (''llistxattr'', 233), (''flistxattr'', 234),
    (''removexattr'', 235), (''lremovexattr'', 236), (''fremovexattr'', 237), (''tkill'', 238),
    (''sendfile64'', 239), (''futex'', 240), (''sched_setaffinity'', 241),
    (''sched_getaffinity'', 242), (''set_thread_area'', 243), (''get_thread_area'', 244),
    (''io_setup'', 245), (''io_destroy'', 246), (''io_getevents'', 247), (''io_submit'', 248),
    (''io_cancel'', 249), (''alloc_hugepages'', 250), (''free_hugepages'', 251),
    (''exit_group'', 252)]"

text \<open>A macro \<open>__NR_name\<close> is looked up by its name.\<close>

definition NR :: "string \<Rightarrow> int option" where
  "NR = map_of (NR_1 @ NR_2)"

section \<open>The table\<close>

definition sys_call_table_1 :: "string list" where
  "sys_call_table_1 =
   [''sys_ni_syscall'', ''sys_exit'', ''sys_fork'', ''sys_read'', ''sys_write'', ''sys_open'',
    ''sys_close'', ''sys_waitpid'', ''sys_creat'', ''sys_link'', ''sys_unlink'', ''sys_execve'',
    ''sys_chdir'', ''sys_time'', ''sys_mknod'', ''sys_chmod'', ''sys_lchown16'', ''sys_ni_syscall'',
    ''sys_stat'', ''sys_lseek'', ''sys_getpid'', ''sys_mount'', ''sys_oldumount'', ''sys_setuid16'',
    ''sys_getuid16'', ''sys_stime'', ''sys_ptrace'', ''sys_alarm'', ''sys_fstat'', ''sys_pause'',
    ''sys_utime'', ''sys_ni_syscall'', ''sys_ni_syscall'', ''sys_access'', ''sys_nice'',
    ''sys_ni_syscall'', ''sys_sync'', ''sys_kill'', ''sys_rename'', ''sys_mkdir'', ''sys_rmdir'',
    ''sys_dup'', ''sys_pipe'', ''sys_times'', ''sys_ni_syscall'', ''sys_brk'', ''sys_setgid16'',
    ''sys_getgid16'', ''sys_signal'', ''sys_geteuid16'', ''sys_getegid16'', ''sys_acct'',
    ''sys_umount'', ''sys_ni_syscall'', ''sys_ioctl'', ''sys_fcntl'', ''sys_ni_syscall'',
    ''sys_setpgid'', ''sys_ni_syscall'', ''sys_olduname'', ''sys_umask'', ''sys_chroot'',
    ''sys_ustat'', ''sys_dup2'', ''sys_getppid'', ''sys_getpgrp'', ''sys_setsid'',
    ''sys_sigaction'', ''sys_sgetmask'', ''sys_ssetmask'', ''sys_setreuid16'', ''sys_setregid16'',
    ''sys_sigsuspend'', ''sys_sigpending'', ''sys_sethostname'', ''sys_setrlimit'',
    ''sys_old_getrlimit'', ''sys_getrusage'', ''sys_gettimeofday'', ''sys_settimeofday'',
    ''sys_getgroups16'', ''sys_setgroups16'', ''old_select'', ''sys_symlink'', ''sys_lstat'',
    ''sys_readlink'', ''sys_uselib'', ''sys_swapon'', ''sys_reboot'', ''old_readdir'', ''old_mmap'',
    ''sys_munmap'', ''sys_truncate'', ''sys_ftruncate'', ''sys_fchmod'', ''sys_fchown16'',
    ''sys_getpriority'', ''sys_setpriority'', ''sys_ni_syscall'', ''sys_statfs'', ''sys_fstatfs'',
    ''sys_ioperm'', ''sys_socketcall'', ''sys_syslog'', ''sys_setitimer'', ''sys_getitimer'',
    ''sys_newstat'', ''sys_newlstat'', ''sys_newfstat'', ''sys_uname'', ''sys_iopl'',
    ''sys_vhangup'', ''sys_ni_syscall'', ''sys_vm86old'', ''sys_wait4'', ''sys_swapoff'',
    ''sys_sysinfo'', ''sys_ipc'', ''sys_fsync'', ''sys_sigreturn'', ''sys_clone'',
    ''sys_setdomainname'', ''sys_newuname'', ''sys_modify_ldt'', ''sys_adjtimex'', ''sys_mprotect'',
    ''sys_sigprocmask'', ''sys_create_module'', ''sys_init_module'', ''sys_delete_module'']"

definition sys_call_table_2 :: "string list" where
  "sys_call_table_2 =
   [''sys_get_kernel_syms'', ''sys_quotactl'', ''sys_getpgid'', ''sys_fchdir'', ''sys_bdflush'',
    ''sys_sysfs'', ''sys_personality'', ''sys_ni_syscall'', ''sys_setfsuid16'', ''sys_setfsgid16'',
    ''sys_llseek'', ''sys_getdents'', ''sys_select'', ''sys_flock'', ''sys_msync'', ''sys_readv'',
    ''sys_writev'', ''sys_getsid'', ''sys_fdatasync'', ''sys_sysctl'', ''sys_mlock'',
    ''sys_munlock'', ''sys_mlockall'', ''sys_munlockall'', ''sys_sched_setparam'',
    ''sys_sched_getparam'', ''sys_sched_setscheduler'', ''sys_sched_getscheduler'',
    ''sys_sched_yield'', ''sys_sched_get_priority_max'', ''sys_sched_get_priority_min'',
    ''sys_sched_rr_get_interval'', ''sys_nanosleep'', ''sys_mremap'', ''sys_setresuid16'',
    ''sys_getresuid16'', ''sys_vm86'', ''sys_query_module'', ''sys_poll'', ''sys_nfsservctl'',
    ''sys_setresgid16'', ''sys_getresgid16'', ''sys_prctl'', ''sys_rt_sigreturn'',
    ''sys_rt_sigaction'', ''sys_rt_sigprocmask'', ''sys_rt_sigpending'', ''sys_rt_sigtimedwait'',
    ''sys_rt_sigqueueinfo'', ''sys_rt_sigsuspend'', ''sys_pread'', ''sys_pwrite'', ''sys_chown16'',
    ''sys_getcwd'', ''sys_capget'', ''sys_capset'', ''sys_sigaltstack'', ''sys_sendfile'',
    ''sys_ni_syscall'', ''sys_ni_syscall'', ''sys_vfork'', ''sys_getrlimit'', ''sys_mmap2'',
    ''sys_truncate64'', ''sys_ftruncate64'', ''sys_stat64'', ''sys_lstat64'', ''sys_fstat64'',
    ''sys_lchown'', ''sys_getuid'', ''sys_getgid'', ''sys_geteuid'', ''sys_getegid'',
    ''sys_setreuid'', ''sys_setregid'', ''sys_getgroups'', ''sys_setgroups'', ''sys_fchown'',
    ''sys_setresuid'', ''sys_getresuid'', ''sys_setresgid'', ''sys_getresgid'', ''sys_chown'',
    ''sys_setuid'', ''sys_setgid'', ''sys_setfsuid'', ''sys_setfsgid'', ''sys_pivot_root'',
    ''sys_mincore'', ''sys_madvise'', ''sys_getdents64'', ''sys_fcntl64'', ''sys_ni_syscall'',
    ''sys_ni_syscall'', ''sys_gettid'', ''sys_readahead'', ''sys_setxattr'', ''sys_lsetxattr'',
    ''sys_fsetxattr'', ''sys_getxattr'', ''sys_lgetxattr'', ''sys_fgetxattr'', ''sys_listxattr'',
    ''sys_llistxattr'', ''sys_flistxattr'', ''sys_removexattr'', ''sys_lremovexattr'',
    ''sys_fremovexattr'', ''sys_tkill'', ''sys_sendfile64'', ''sys_ni_syscall'', ''sys_ni_syscall'',
    ''sys_ni_syscall'', ''sys_ni_syscall'', ''sys_ni_syscall'', ''sys_ni_syscall'',
    ''sys_ni_syscall'', ''sys_ni_syscall'', ''sys_ni_syscall'', ''sys_ni_syscall'',
    ''sys_ni_syscall'', ''sys_ni_syscall'', ''sys_ni_syscall'', ''sys_ni_syscall'',
    ''sys_ni_syscall'', ''sys_ni_syscall'', ''sys_ni_syscall'', ''sys_ni_syscall'',
    ''sys_ni_syscall'']"

text \<open>The rest of the table is filled up to \<open>NR_syscalls\<close> entries.\<close>

definition sys_call_table :: "string list \<Rightarrow> nat \<Rightarrow> string list" where
  "sys_call_table added nr_syscalls =
     (let given = sys_call_table_1 @ sys_call_table_2 @ added
      in given @ replicate (nr_syscalls - length given) ''sys_ni_syscall'')"

section \<open>The entry point\<close>

text \<open>The frame that \<open>SAVE_ALL\<close> leaves on the stack; a function of the table finds its arguments in it.\<close>

record frame =
  ebx :: u32
  ecx :: u32
  edx :: u32
  esi :: u32
  edi :: u32
  ebp :: u32
  eax :: u32
  orig_eax :: u32

definition frame_args :: "frame \<Rightarrow> u32 list" where
  "frame_args f = [ebx f, ecx f, edx f, esi f, edi f, ebp f]"

record 's kernel_entry =
  nr_syscalls :: nat
  added_calls :: "string list"
  handler :: "string \<Rightarrow> frame \<Rightarrow> 's \<Rightarrow> u32 \<times> frame \<times> 's"
  tracesys :: "'s \<Rightarrow> bool"
  syscall_trace :: "frame \<Rightarrow> 's \<Rightarrow> frame \<times> 's"

definition ENOSYS :: u32 where [simp]: "ENOSYS = 38"

definition call_table :: "'s kernel_entry \<Rightarrow> u32 \<Rightarrow> frame \<Rightarrow> 's \<Rightarrow> frame \<times> 's" where
  "call_table K nr f s =
     (let (v, f, s) = handler K (sys_call_table (added_calls K) (nr_syscalls K) ! unat nr) f s
      in (f\<lparr>eax := v\<rparr>, s))"

definition system_call :: "'s kernel_entry \<Rightarrow> frame \<Rightarrow> 's \<Rightarrow> frame \<times> 's" where
  "system_call K f s =
     (let f = f\<lparr>orig_eax := eax f\<rparr>
      in if tracesys K s
         then let (f, s) = syscall_trace K (f\<lparr>eax := - ENOSYS\<rparr>) s;
                  (f, s) = (if unat (orig_eax f) \<ge> nr_syscalls K then (f, s) else call_table K (orig_eax f) f s)
              in syscall_trace K f s
         else if unat (eax f) \<ge> nr_syscalls K then (f\<lparr>eax := - ENOSYS\<rparr>, s)
         else call_table K (eax f) f s)"

section \<open>The stubs\<close>

definition syscall_return :: "u32 \<Rightarrow> int \<Rightarrow> int \<times> int" where
  "syscall_return res errno = (if res \<ge> - 125 then (- 1, - sint res) else (sint res, errno))"

definition trap :: "'s kernel_entry \<Rightarrow> frame \<Rightarrow> int \<Rightarrow> 's \<Rightarrow> int \<times> int \<times> 's" where
  "trap K r errno s =
     (let (f, s) = system_call K r s; (res, errno) = syscall_return (eax f) errno in (res, errno, s))"

definition nr_word :: "string \<Rightarrow> u32" where
  "nr_word name = word_of_int (the (NR name))"

definition syscall0 :: "'s kernel_entry \<Rightarrow> string \<Rightarrow> frame \<Rightarrow> int \<Rightarrow> 's \<Rightarrow> int \<times> int \<times> 's" where
  "syscall0 K name r = trap K (r\<lparr>eax := nr_word name\<rparr>)"

definition syscall1 :: "'s kernel_entry \<Rightarrow> string \<Rightarrow> u32 \<Rightarrow> frame \<Rightarrow> int \<Rightarrow> 's \<Rightarrow> int \<times> int \<times> 's" where
  "syscall1 K name arg1 r = trap K (r\<lparr>eax := nr_word name, ebx := arg1\<rparr>)"

definition syscall2 :: "'s kernel_entry \<Rightarrow> string \<Rightarrow> u32 \<Rightarrow> u32 \<Rightarrow> frame \<Rightarrow> int \<Rightarrow> 's \<Rightarrow> int \<times> int \<times> 's" where
  "syscall2 K name arg1 arg2 r = trap K (r\<lparr>eax := nr_word name, ebx := arg1, ecx := arg2\<rparr>)"

definition syscall3 :: "'s kernel_entry \<Rightarrow> string \<Rightarrow> u32 \<Rightarrow> u32 \<Rightarrow> u32 \<Rightarrow> frame \<Rightarrow> int \<Rightarrow> 's \<Rightarrow> int \<times> int \<times> 's" where
  "syscall3 K name arg1 arg2 arg3 r =
     trap K (r\<lparr>eax := nr_word name, ebx := arg1, ecx := arg2, edx := arg3\<rparr>)"

definition syscall4 :: "'s kernel_entry \<Rightarrow> string \<Rightarrow> u32 \<Rightarrow> u32 \<Rightarrow> u32 \<Rightarrow> u32 \<Rightarrow> frame \<Rightarrow> int \<Rightarrow> 's \<Rightarrow> int \<times> int \<times> 's" where
  "syscall4 K name arg1 arg2 arg3 arg4 r =
     trap K (r\<lparr>eax := nr_word name, ebx := arg1, ecx := arg2, edx := arg3, esi := arg4\<rparr>)"

definition syscall5 :: "'s kernel_entry \<Rightarrow> string \<Rightarrow> u32 \<Rightarrow> u32 \<Rightarrow> u32 \<Rightarrow> u32 \<Rightarrow> u32 \<Rightarrow> frame \<Rightarrow> int \<Rightarrow> 's \<Rightarrow> int \<times> int \<times> 's" where
  "syscall5 K name arg1 arg2 arg3 arg4 arg5 r =
     trap K (r\<lparr>eax := nr_word name, ebx := arg1, ecx := arg2, edx := arg3, esi := arg4, edi := arg5\<rparr>)"

text \<open>The sixth argument arrives in \<open>eax\<close> and is moved to \<open>ebp\<close> before \<open>eax\<close> gets the number.\<close>

definition syscall6 :: "'s kernel_entry \<Rightarrow> string \<Rightarrow> u32 \<Rightarrow> u32 \<Rightarrow> u32 \<Rightarrow> u32 \<Rightarrow> u32 \<Rightarrow> u32 \<Rightarrow> frame \<Rightarrow> int \<Rightarrow> 's \<Rightarrow> int \<times> int \<times> 's" where
  "syscall6 K name arg1 arg2 arg3 arg4 arg5 arg6 r =
     (let r = r\<lparr>ebx := arg1, ecx := arg2, edx := arg3, esi := arg4, edi := arg5, eax := arg6\<rparr>;
          r = r\<lparr>ebp := eax r\<rparr>;
          r = r\<lparr>eax := nr_word name\<rparr>
      in trap K r)"

text \<open>The macro for a number of arguments.\<close>

fun syscall_n :: "'s kernel_entry \<Rightarrow> string \<Rightarrow> u32 list \<Rightarrow> frame \<Rightarrow> int \<Rightarrow> 's \<Rightarrow> (int \<times> int \<times> 's) option" where
  "syscall_n K name [] r errno s = Some (syscall0 K name r errno s)"
| "syscall_n K name [a] r errno s = Some (syscall1 K name a r errno s)"
| "syscall_n K name [a, b] r errno s = Some (syscall2 K name a b r errno s)"
| "syscall_n K name [a, b, c] r errno s = Some (syscall3 K name a b c r errno s)"
| "syscall_n K name [a, b, c, d] r errno s = Some (syscall4 K name a b c d r errno s)"
| "syscall_n K name [a, b, c, d, e] r errno s = Some (syscall5 K name a b c d e r errno s)"
| "syscall_n K name [a, b, c, d, e, f] r errno s = Some (syscall6 K name a b c d e f r errno s)"
| "syscall_n K name _ r errno s = None"

section \<open>The stubs of the kernel's own threads\<close>

definition k_pause where "k_pause K = syscall0 K ''pause''"
definition k_sync where "k_sync K = syscall0 K ''sync''"
definition k_setsid where "k_setsid K = syscall0 K ''setsid''"
definition k_write where "k_write K fd buf count = syscall3 K ''write'' fd buf count"
definition k_read where "k_read K fd buf count = syscall3 K ''read'' fd buf count"
definition k_lseek where "k_lseek K fd offset count = syscall3 K ''lseek'' fd offset count"
definition k_dup where "k_dup K fd = syscall1 K ''dup'' fd"
definition k_execve where "k_execve K file argv envp = syscall3 K ''execve'' file argv envp"
definition k_open where "k_open K file flag mode = syscall3 K ''open'' file flag mode"
definition k_close where "k_close K fd = syscall1 K ''close'' fd"

text \<open>\<open>__NR__exit\<close> is \<open>__NR_exit\<close>.\<close>

definition k_exit where "k_exit K exitcode = syscall1 K ''exit'' exitcode"
definition k_waitpid where "k_waitpid K pid wait_stat options = syscall3 K ''waitpid'' pid wait_stat options"
definition k_delete_module where "k_delete_module K name = syscall1 K ''delete_module'' name"
definition k_wait where "k_wait K wait_stat = k_waitpid K (- 1) wait_stat 0"

section \<open>The number of a call leads to its function\<close>

text \<open>
  The function that serves a call: the function of the same name, apart from calls that are not
  there, calls with 16 bit user ids, whose 32 bit variants have a name of their own, and some that
  were renamed when a newer variant took their name.
\<close>

definition unimplemented :: "string list" where
  "unimplemented =
   [''break'', ''stty'', ''gtty'', ''ftime'', ''prof'', ''lock'', ''mpx'', ''ulimit'', ''profil'',
    ''idle'', ''afs_syscall'', ''getpmsg'', ''putpmsg'', ''security'', ''futex'',
    ''sched_setaffinity'', ''sched_getaffinity'', ''set_thread_area'', ''get_thread_area'',
    ''io_setup'', ''io_destroy'', ''io_getevents'', ''io_submit'', ''io_cancel'',
    ''alloc_hugepages'', ''free_hugepages'', ''exit_group'']"

definition narrow_ids :: "string list" where
  "narrow_ids =
   [''lchown'', ''setuid'', ''getuid'', ''setgid'', ''getgid'', ''geteuid'', ''getegid'',
    ''setreuid'', ''setregid'', ''getgroups'', ''setgroups'', ''fchown'', ''setfsuid'',
    ''setfsgid'', ''setresuid'', ''getresuid'', ''setresgid'', ''getresgid'', ''chown'']"

definition renamed :: "(string \<times> string) list" where
  "renamed =
   [(''oldstat'', ''sys_stat''), (''umount'', ''sys_oldumount''), (''oldfstat'', ''sys_fstat''),
    (''umount2'', ''sys_umount''), (''oldolduname'', ''sys_olduname''),
    (''getrlimit'', ''sys_old_getrlimit''), (''select'', ''old_select''),
    (''oldlstat'', ''sys_lstat''), (''readdir'', ''old_readdir''), (''mmap'', ''old_mmap''),
    (''stat'', ''sys_newstat''), (''lstat'', ''sys_newlstat''), (''fstat'', ''sys_newfstat''),
    (''olduname'', ''sys_uname''), (''uname'', ''sys_newuname''), (''_llseek'', ''sys_llseek''),
    (''_newselect'', ''sys_select''), (''_sysctl'', ''sys_sysctl''),
    (''ugetrlimit'', ''sys_getrlimit''), (''madvise1'', ''sys_madvise'')]"

definition service :: "string \<Rightarrow> string" where
  "service name =
     (if List.member unimplemented name then ''sys_ni_syscall''
      else if List.member narrow_ids name then ''sys_'' @ name @ ''16''
      else case map_of renamed name of Some t \<Rightarrow> t
      | None \<Rightarrow> if drop (length name - 2) name = ''32'' then ''sys_'' @ take (length name - 2) name else ''sys_'' @ name)"

fun agree :: "int \<Rightarrow> string list \<Rightarrow> (string \<times> int) list \<Rightarrow> bool" where
  "agree k ts [] = True"
| "agree k [] (x # nr) = False"
| "agree k (t # ts) ((name, n) # nr) =
     (if n = k then service name = t \<and> agree k (t # ts) nr else agree (k + 1) ts ((name, n) # nr))"

lemma agree_sound:
  assumes "agree k ts nr" "(name, n) \<in> set nr"
  shows "k \<le> n \<and> nat (n - k) < length ts \<and> ts ! nat (n - k) = service name"
  using assms
proof (induction k ts nr rule: agree.induct)
  case (3 k t ts name' n' nr)
  show ?case
  proof (cases "n' = k")
    case True
    with 3 show ?thesis by auto
  next
    case False
    with 3 have "k + 1 \<le> n \<and> nat (n - (k + 1)) < length ts \<and> ts ! nat (n - (k + 1)) = service name" by auto
    moreover from this have "nat (n - k) = Suc (nat (n - (k + 1)))" by linarith
    ultimately show ?thesis by simp
  qed
qed auto

lemma tables_agree: "agree 0 (sys_call_table_1 @ sys_call_table_2) (NR_1 @ NR_2)"
  by code_simp

lemma table_length: "length (sys_call_table_1 @ sys_call_table_2) = 259"
  by (simp add: sys_call_table_1_def sys_call_table_2_def)

lemma NR_entry:
  assumes "NR name = Some n"
  shows "0 \<le> n \<and> n < 259 \<and> sys_call_table added m ! nat n = service name"
proof -
  have "(name, n) \<in> set (NR_1 @ NR_2)" using assms unfolding NR_def by (rule map_of_SomeD)
  from agree_sound[OF tables_agree this]
  have n: "0 \<le> n \<and> nat n < length (sys_call_table_1 @ sys_call_table_2)
      \<and> (sys_call_table_1 @ sys_call_table_2) ! nat n = service name" by simp
  have "sys_call_table added m ! nat n = (sys_call_table_1 @ sys_call_table_2) ! nat n" (is "?t ! _ = ?g ! _")
  proof -
    have "?t = ?g @ (added @ replicate (m - length (?g @ added)) ''sys_ni_syscall'')"
      by (simp add: sys_call_table_def Let_def)
    then show ?thesis using n by (metis nth_append_left)
  qed
  moreover from n have "n < 259" unfolding table_length by linarith
  ultimately show ?thesis using n by simp
qed

section \<open>What a stub does\<close>

lemma small_word:
  assumes "0 \<le> n" "n < 259"
  shows "unat (word_of_int n :: u32) = nat n"
  using assms by (simp add: unat_eq_nat_uint uint_word_of_int)

text \<open>A tracer that only looks leaves the frame and the kernel as they are.\<close>

definition looks_only :: "'s kernel_entry \<Rightarrow> bool" where
  "looks_only K \<longleftrightarrow> (\<forall>f s. syscall_trace K f s = (f, s))"

text \<open>Tracing or not, a number in the table calls its function once.\<close>

lemma system_call_in_table:
  assumes "unat (eax f) < nr_syscalls K" "looks_only K"
  shows "\<exists>g. frame_args g = frame_args f \<and> orig_eax g = eax f \<and>
    system_call K f s =
      (let (v, f', s') = handler K (sys_call_table (added_calls K) (nr_syscalls K) ! unat (eax f)) g s in (f'\<lparr>eax := v\<rparr>, s'))"
proof (cases "tracesys K s")
  case True
  let ?g = "f\<lparr>orig_eax := eax f, eax := - ENOSYS\<rparr>"
  have "system_call K f s = (let (v, f', s') = handler K (sys_call_table (added_calls K) (nr_syscalls K) ! unat (eax f)) ?g s in (f'\<lparr>eax := v\<rparr>, s'))"
    using True assms by (auto simp: system_call_def Let_def call_table_def looks_only_def split: prod.splits)
  then show ?thesis by (intro exI[of _ ?g]) (simp add: frame_args_def)
next
  case False
  let ?g = "f\<lparr>orig_eax := eax f\<rparr>"
  have "system_call K f s = (let (v, f', s') = handler K (sys_call_table (added_calls K) (nr_syscalls K) ! unat (eax f)) ?g s in (f'\<lparr>eax := v\<rparr>, s'))"
    using False assms by (simp add: system_call_def Let_def call_table_def split: prod.splits)
  then show ?thesis by (intro exI[of _ ?g]) (simp add: frame_args_def)
qed

lemma system_call_not_in_table:
  assumes "nr_syscalls K \<le> unat (eax f)" "looks_only K"
  shows "\<exists>f'. eax f' = - ENOSYS \<and> system_call K f s = (f', s)"
  using assms by (auto simp: system_call_def Let_def looks_only_def)

lemma syscall_n_traps:
  assumes "length args \<le> 6"
  obtains f where "syscall_n K name args r errno s = Some (trap K f errno s)" "eax f = nr_word name"
    "take (length args) (frame_args f) = args"
proof -
  consider "args = []" | a where "args = [a]" | a b where "args = [a, b]" | a b c where "args = [a, b, c]"
    | a b c d where "args = [a, b, c, d]" | a b c d e where "args = [a, b, c, d, e]"
    | a b c d e g where "args = [a, b, c, d, e, g]"
    using assms by (auto simp: le_Suc_eq length_Suc_conv numeral_eq_Suc)
  then have "\<exists>f. syscall_n K name args r errno s = Some (trap K f errno s) \<and> eax f = nr_word name
      \<and> take (length args) (frame_args f) = args"
    by cases (auto simp: frame_args_def syscall0_def syscall1_def syscall2_def syscall3_def syscall4_def
        syscall5_def syscall6_def Let_def intro!: exI)
  with that show thesis by blast
qed

lemma syscall_return_cases:
  "syscall_return res errno = (if - 125 \<le> sint res \<and> sint res < 0 then (- 1, - sint res) else (sint res, errno))"
proof -
  have "res \<ge> - 125 \<longleftrightarrow> - 125 \<le> sint res \<and> sint res < 0"
  proof -
    have "uint res = (if 0 \<le> sint res then sint res else sint res + 2 ^ 32)"
    proof -
      have "- (2 ^ 31) \<le> sint res" "sint res < 2 ^ 31" using sint_ge[of res] sint_lt[of res] by simp_all
      then show ?thesis unfolding uint_sint take_bit_eq_mod
        by (cases "0 \<le> sint res") (simp_all add: mod_pos_pos_trivial, smt (verit) mod_add_self2 mod_pos_pos_trivial)
    qed
    moreover have "uint (- 125 :: u32) = 2 ^ 32 - 125" by simp
    moreover have "sint res < 2 ^ 31" using sint_lt[of res] by simp
    moreover have "0 \<le> uint res" "uint res < 2 ^ 32" using uint_lt2p[of res] by simp_all
    ultimately show ?thesis unfolding word_le_def by (cases "0 \<le> sint res") (simp, linarith?)+
  qed
  then show ?thesis by (simp add: syscall_return_def)
qed

text \<open>
  C16: a system call runs the function that its name stands for. For every name of \<open>unistd.h\<close> and up
  to six arguments the stub is there, the number it puts into \<open>eax\<close> is the index of the right entry
  of \<open>sys_call_table\<close>, that function is called once, finds the arguments in order in its frame, and
  its result is the result of the stub, unless it is between -125 and -1: then the stub returns -1
  and sets \<open>errno\<close>. A tracer that only looks changes nothing of this, and registers that carry no
  argument have no influence on which function is called.
\<close>

theorem syscall_runs_service:
  assumes "NR name = Some n" "length args \<le> 6" "259 \<le> nr_syscalls K" "looks_only K"
  shows "\<exists>f. take (length args) (frame_args f) = args \<and> orig_eax f = word_of_int n \<and>
    syscall_n K name args r errno s =
      (let (v, f', s') = handler K (service name) f s
       in Some (if - 125 \<le> sint v \<and> sint v < 0 then (- 1, - sint v, s') else (sint v, errno, s')))"
proof -
  obtain f where f: "syscall_n K name args r errno s = Some (trap K f errno s)" "eax f = nr_word name"
    "take (length args) (frame_args f) = args" using syscall_n_traps[OF assms(2)] .
  note n = NR_entry[OF assms(1), of "added_calls K" "nr_syscalls K"]
  have e: "eax f = word_of_int n" "unat (eax f) = nat n" using f(2) assms(1) n small_word by (simp_all add: nr_word_def)
  with n assms(3) have "unat (eax f) < nr_syscalls K" by linarith
  from system_call_in_table[OF this assms(4)] obtain g where g: "frame_args g = frame_args f" "orig_eax g = eax f"
    "system_call K f s = (let (v, f', s') = handler K (service name) g s in (f'\<lparr>eax := v\<rparr>, s'))"
    using n e by metis
  obtain v f' s' where h: "handler K (service name) g s = (v, f', s')" by (cases "handler K (service name) g s")
  with g(3) have "system_call K f s = (f'\<lparr>eax := v\<rparr>, s')" by simp
  then have "trap K f errno s = (if - 125 \<le> sint v \<and> sint v < 0 then (- 1, - sint v, s') else (sint v, errno, s'))"
    by (simp add: trap_def syscall_return_cases)
  with f e g(1,2) h show ?thesis by (intro exI[of _ g]) simp
qed

text \<open>The kernel of the witnesses: \<open>write\<close> fails with \<open>EBADF\<close> on a descriptor other than 1.\<close>

definition write_kernel :: "nat \<Rightarrow> u32 list kernel_entry" where
  "write_kernel n = \<lparr>nr_syscalls = n, added_calls = [],
     handler = (\<lambda>t f s. if t = ''sys_write'' then if ebx f = 1 then (edx f, f, s @ [ecx f]) else (- 9, f, s) else (- 38, f, s)),
     tracesys = (\<lambda>s. s = []), syscall_trace = Pair\<rparr>"

definition no_frame :: frame where
  "no_frame = \<lparr>ebx = 7, ecx = 7, edx = 7, esi = 7, edi = 7, ebp = 7, eax = 7, orig_eax = 7\<rparr>"

lemma write_kernel_simps [simp]:
  "nr_syscalls (write_kernel n) = n" "looks_only (write_kernel n)"
  by (simp_all add: write_kernel_def looks_only_def)

theorem syscall_runs_service_witness:
  "syscall_n (write_kernel 259) ''write'' [1, 4096, 5] no_frame 0 [] = Some (5, 0, [4096])
   \<and> syscall_n (write_kernel 259) ''write'' [2, 4096, 5] no_frame 0 [] = Some (- 1, 9, [])"
proof -
  have w: "NR ''write'' = Some 4" by (simp add: NR_def NR_1_def)
  have v: "service ''write'' = ''sys_write''" by code_simp
  have "syscall_n (write_kernel 259) ''write'' [a, 4096, 5] no_frame 0 []
      = Some (if a = 1 then (5, 0, [4096]) else (- 1, 9, []))" for a
    using syscall_runs_service[OF w, of "[a, 4096, 5]" "write_kernel 259" no_frame 0 "[]"] v
    by (auto simp: frame_args_def write_kernel_def looks_only_def)
  then show ?thesis by simp
qed

text \<open>
  A number that is not in the table is no harm: the stub returns -1, sets \<open>errno\<close> to \<open>ENOSYS\<close>, and
  the kernel does not call anything, tracing or not.
\<close>

theorem syscall_not_in_table:
  assumes "NR name = Some n" "int (nr_syscalls K) \<le> n" "length args \<le> 6" "looks_only K"
  shows "syscall_n K name args r errno s = Some (- 1, 38, s)"
proof -
  obtain f where f: "syscall_n K name args r errno s = Some (trap K f errno s)" "eax f = nr_word name"
    using syscall_n_traps[OF assms(3)] .
  note n = NR_entry[OF assms(1), of "[]" 0]
  have "unat (eax f) = nat n" using f(2) assms(1) n small_word by (simp add: nr_word_def)
  with assms(2) have "nr_syscalls K \<le> unat (eax f)" by linarith
  from system_call_not_in_table[OF this assms(4)] obtain f' where "eax f' = - ENOSYS" "system_call K f s = (f', s)"
    by blast
  with f(1) show ?thesis by (simp add: trap_def syscall_return_def)
qed

theorem syscall_not_in_table_witness:
  "syscall_n (write_kernel 3) ''write'' [1, 4096, 5] no_frame 0 [5] = Some (- 1, 38, [5])"
  by (rule syscall_not_in_table[where n = 4]) (simp_all add: NR_def NR_1_def)

end
