(* ===== verification/SyscallShare.thy ===== *)
theory SyscallShare
  imports Syscalls FairShare
begin

text \<open>
  The system call that \<open>patch_v3.patch\<close> adds: the number 259 in \<open>unistd.h\<close>, its entry at the end of
  \<open>sys_call_table\<close>, its stub, and the function \<open>sys_incshare\<close> behind them.
\<close>

definition NR_incshare :: int where "NR_incshare = 259"

definition k_incshare :: "'s kernel_entry \<Rightarrow> frame \<Rightarrow> int \<Rightarrow> 's \<Rightarrow> int \<times> int \<times> 's" where
  "k_incshare K r = trap K (r\<lparr>eax := word_of_int NR_incshare\<rparr>)"

definition patched_calls :: "string list" where
  "patched_calls = [''sys_incshare'']"

text \<open>The kernel with the patch: no other call is used here.\<close>

definition patched_kernel :: "nat \<Rightarrow> (ptr \<Rightarrow> bool) \<Rightarrow> ('q sched) kernel_entry \<Rightarrow> ('q sched) kernel_entry" where
  "patched_kernel n proc_sel K = K\<lparr>nr_syscalls := n, added_calls := patched_calls,
     handler := (\<lambda>t f s. if t = ''sys_incshare''
       then let (v, s) = sys_incshare proc_sel s in (word_of_int v, f, s) else handler K t f s)\<rparr>"

text \<open>
  C34: the new system call works only if \<open>NR_syscalls\<close>, which the patch leaves alone, is more than
  259. Then one call of the stub gives the calling task one share more, also in the count of its
  user, and returns 0; otherwise the number is refused at the entry point with \<open>ENOSYS\<close>.
\<close>

theorem incshare_needs_table_entry:
  assumes "looks_only K" "distinct (all_tasks s)" "me \<in> set (all_tasks s)" "\<And>p. proc_sel p \<longleftrightarrow> p = me"
  shows "k_incshare (patched_kernel n proc_sel K) r errno s =
    (if 259 < n then (0, errno, inc_share me s) else (- 1, 38, s))"
proof -
  let ?K = "patched_kernel n proc_sel K" let ?f = "r\<lparr>eax := word_of_int NR_incshare\<rparr>"
  have l: "looks_only ?K" using assms(1) by (simp add: looks_only_def patched_kernel_def)
  have e: "unat (eax ?f) = 259" "nr_syscalls ?K = n" by (simp_all add: NR_incshare_def patched_kernel_def)
  show ?thesis
  proof (cases "259 < n")
    case True
    have "sys_call_table patched_calls n ! 259 = ''sys_incshare''"
      using nth_append_length[of "sys_call_table_1 @ sys_call_table_2" "''sys_incshare''" "replicate (n - 260) ''sys_ni_syscall''"]
      unfolding table_length by (simp add: sys_call_table_def Let_def patched_calls_def table_length[simplified])
    then have "sys_call_table (added_calls ?K) (nr_syscalls ?K) ! unat (eax ?f) = ''sys_incshare''"
      unfolding e by (simp add: patched_kernel_def)
    moreover have "handler ?K ''sys_incshare'' g s = (0, g, inc_share me s)" for g
      using sys_incshare_caller[OF assms(2-4)] by (simp add: patched_kernel_def)
    moreover have "unat (eax ?f) < nr_syscalls ?K" using True e by linarith
    ultimately obtain g where "system_call ?K ?f s = (g\<lparr>eax := 0\<rparr>, inc_share me s)"
      using system_call_in_table[OF _ l, of ?f s] by auto
    then show ?thesis using True by (simp add: k_incshare_def trap_def syscall_return_cases)
  next
    case False
    then have "nr_syscalls ?K \<le> unat (eax ?f)" using e by linarith
    from system_call_not_in_table[OF this l] obtain f' where "eax f' = - ENOSYS" "system_call ?K ?f s = (f', s)"
      by blast
    with False show ?thesis by (simp add: k_incshare_def trap_def syscall_return_def)
  qed
qed

theorem incshare_needs_table_entry_witness:
  "k_incshare (patched_kernel 270 (\<lambda>p. p = 4) \<lparr>nr_syscalls = 259, added_calls = [], handler = (\<lambda>t f s. (- 38, f, s)),
       tracesys = (\<lambda>s. False), syscall_trace = Pair\<rparr>) no_frame 0 fair_state = (0, 0, inc_share 4 fair_state)
   \<and> k_incshare (patched_kernel 259 (\<lambda>p. p = 4) \<lparr>nr_syscalls = 259, added_calls = [], handler = (\<lambda>t f s. (- 38, f, s)),
       tracesys = (\<lambda>s. False), syscall_trace = Pair\<rparr>) no_frame 0 fair_state = (- 1, 38, fair_state)"
proof -
  have a: "distinct (all_tasks fair_state)" "4 \<in> set (all_tasks fair_state)" by (simp_all add: fair_state_def)
  have "looks_only \<lparr>nr_syscalls = 259, added_calls = [], handler = (\<lambda>t f (s :: ptr list sched). (- 38, f, s)),
       tracesys = (\<lambda>s. False), syscall_trace = Pair\<rparr>" by (simp add: looks_only_def)
  from incshare_needs_table_entry[OF this a, of "\<lambda>p. p = 4"] show ?thesis by simp
qed

end
