(* ===== verification/Spec2Isabelle.thy ===== *)
theory Spec2Isabelle
  imports WtcMain WtcAttempt SnfsAccept SchedLive SchedStarve SchedQueues SchedTime SchedSleep SchedShow SyscallShare
begin

text \<open>
  The three assignments of the repository and what is proved about them. \<open>A01\<close> computes the
  transitive closure of a graph with processes and with threads, \<open>A02\<close> changes the scheduler of
  Linux 2.4 so that users share the processor fairly, and \<open>A03\<close> is a network file system made of a FUSE
  client and a threaded server. Every definition that stands for code carries the name it has there,
  unless HOL or another file uses that name already.

  \<^bold>\<open>Parts and files.\<close>

  \<^item> \<open>Prelude\<close> holds the theorem collections, wrap-around to 32 bits, and the two notions of an execution
  of a parent with numbered children: the relation \<open>sys_step\<close>, where any of them may move, and
  \<open>run_sched\<close>, which follows an explicit list of actors. \<open>CString\<close> is the part of the C library the
  programs use on texts (\<open>%d\<close>, \<open>%lu\<close>, \<open>atoi\<close>, \<open>fscanf\<close>, \<open>strchr\<close>, \<open>strtok\<close>).

  \<^item> \<open>A01\<close>. \<open>Closure\<close> specifies the closure of a relation round by round, and \<open>CMatrix\<close> the two layouts of
  a matrix behind the locale \<open>cmatrix\<close>. \<open>Warshall\<close> is \<open>wtc_raw.c\<close>. \<open>Gates\<close> gives the semaphores and
  the mutexes that are used like semaphores behind the locale \<open>gate\<close>. Two protocols are proved once for any gate and
  any layout: \<open>Striped\<close> with \<open>StripedProofs\<close> (worker \<open>t\<close> has every \<open>N\<close>-th row) and \<open>Bag\<close> with \<open>BagProofs\<close>
  and \<open>BagRuns\<close> (the rows of a round are taken from a queue). \<open>WtcProc\<close>, \<open>WtcThr\<close>, \<open>WtcBtproc\<close> and
  \<open>WtcBtthr\<close> are the four programs (\<open>wtc_proc.c\<close>, \<open>wtc_thr.c\<close>, \<open>wtc_btproc.c\<close>, \<open>wtc_btthr.c\<close>), each an interpretation of its
  protocol; \<open>WtcMain\<close> is \<open>main\<close>, the reader of the input file and the printing in \<open>wtc.c\<close>. \<open>WtcAttempt\<close> has the two drafts,
  \<open>wtc_proc_old.c\<close> and \<open>wtc_thr_cond_var_attempt.c\<close>.

  \<^item> \<open>A03\<close>. \<open>SnfsServer\<close> is the request handler with the twelve remote operations and the start of the
  server, \<open>SnfsClient\<close> the FUSE callbacks. \<open>SnfsService\<close> states the contract between them, requests as a datatype with their
  encoding and the text that answers each, and the locale \<open>file_service\<close>, which the server provides. \<open>SnfsProps\<close> is
  about client and server together, \<open>SnfsAccept\<close> about the endless loop of the server with handlers
  that interleave.

  \<^item> \<open>A02\<close>, the scheduler (\<open>sched.c\<close>, \<open>sched.h\<close>). \<open>SchedTask\<close> has the fields of a task, the globals, the run queue with the
  locale \<open>task_list\<close> and the goodness; \<open>SchedWake\<close> the wake-ups and \<open>reschedule_idle\<close>; \<open>SchedCore\<close> the
  function \<open>schedule\<close>, \<open>SchedSelect\<close> what it chooses; \<open>SchedCalls\<close> the system calls; \<open>SchedSmp\<close> and
  \<open>SchedRuns\<close> several processors in any interleaving, with \<open>SchedStates\<close> for the facts that the protocols below use.
  On top of these: \<open>SchedWait\<close> and \<open>SchedLive\<close> (completions), \<open>SchedStarve\<close> (how long a task can wait),
  \<open>SchedQueues\<close> (the wake-up macros), \<open>SchedSleep\<close> (\<open>sleep_on\<close>, \<open>wait_event\<close>), \<open>SchedTime\<close> (time-outs and
  load), \<open>SchedSignal\<close> (pending signals, privileges), \<open>SchedBoot\<close> (the static tables and \<open>sched_init\<close>), \<open>SchedLinks\<close> and \<open>SchedPids\<close>
  (the pointers between tasks and the hash of the process identifiers), \<open>SchedProcs\<close> (\<open>reparent_to_init\<close>, \<open>daemonize\<close>, \<open>unhash_process\<close>) and
  \<open>SchedShow\<close> (the listing of all tasks). \<open>FairShare\<close> is \<open>patch_v3.patch\<close>. \<open>Syscalls\<close> has the numbers and the
  stubs of \<open>unistd.h\<close> with \<open>system_call\<close> and the table of \<open>entry.S\<close>, and \<open>SyscallShare\<close> what the patch adds to them.

  \<^bold>\<open>How state and operations correspond.\<close> An \<open>int**\<close> is a list of rows and an \<open>int*\<close> in shared memory a list;
  a program counter names the statement that a process or thread is about to execute, and one access
  to shared memory or one operation on a semaphore, mutex or condition is one step. A task is named by its
  address; \<open>sched\<close> has the globals of \<open>sched.c\<close> with the tasks in memory. A function of the scheduler that runs under
  \<open>runqueue_lock\<close> is one step, and between the choice of the next task and \<open>__schedule_tail\<close> the other
  processors run. In the completions the critical sections under the spinlock of the queue are steps as well. In the
  server a turn of the accept loop, a \<open>recv\<close>, one call of \<open>strtok\<close> and an operation with its response are
  steps. Errors are values: \<open>Inl\<close> of a fault, of a panic or of an exit code, or a negative result where the
  code returns one.

  \<^bold>\<open>What the groups of lemmas show.\<close>

  \<^item> The four programs and the sequential algorithm compute the transitive closure. The invariant of
  each protocol says which worker may touch which row; from it follow correctness under
  every interleaving, absence of races, and, with a measure that every step lowers, that no run can
  be infinite and that every run can be continued to the end. \<open>wtc_main\<close> composes the reader, the programs
  and the printing from the bytes of the file to the bytes of the output. The draft with condition
  variables is shown not to work.

  \<^item> The server refines a file service on requests, one at a time and, when handlers
  do not interleave their calls of \<open>strtok\<close>, for any number of overlapping connections. The client recovers
  attributes and names of files from the responses. The limits of the response buffers are exact.

  \<^item> The scheduler keeps one invariant over all interleavings of its processors (\<open>machine_ok\<close>), and
  \<open>sched_init\<close> establishes it; no task runs twice, \<open>schedule\<close> gets through with at most one refill and takes the best task,
  address spaces are counted, no task with time left starves, completions lose no
  wake-up, and completed waiters return under fairness. The ring of tasks and the hash of identifiers implement a list and a map.
  The patched refill gives every user the same total up to the stated rounding, and the accounts of the
  users stay right as long as nobody calls \<open>incshare\<close> twice.

  \<^item> Where the code does not do what its comments, its report or its use demand, a lemma says so:
  \<open>wtc_proc_hangs_on_failed_fork\<close>, \<open>wtc_main_wild_edge\<close>, \<open>read_graph_diverges\<close>, \<open>wtc_btthr_locks_destroyed_mutex\<close>,
  \<open>SNFS_write_shifts_data\<close>, \<open>strtok_race\<close>, \<open>failed_accept_ends_server\<close>, \<open>incshare_leaks\<close>, \<open>setparam_yielding_task\<close> and others.

  \<^bold>\<open>Bounds and loops.\<close> No fuel is used. Loops over indices are program counters or folds over \<open>[0..<n]\<close>; the
  read loop of \<open>wtc.c\<close> and the loops of \<open>schedule\<close> are partial functions, for which \<open>None\<close> is a loop that
  does not end, and theorems say when they end. A schedule is a finite list; that it is long enough is
  never assumed, since the termination theorems bound the length of every run and continue any run to the end.
  \<open>int\<close> is \<open>int\<close> with \<open>to_int32\<close> where it can leave the range, flags and \<open>jiffies\<close> are words. Counters of
  tasks are at most 322 (the greatest quantum is 161), from which no sum of \<open>goodness\<close> overflows.

  \<^bold>\<open>Parameters.\<close> Code that is not in the repository is an argument: whether the system calls of the first assignment succeed (\<open>os_env\<close>),
  the calls of the server on its files (\<open>os\<close>, functions over an abstract world), the configuration,
  \<open>list.h\<close>, the maps of processors and the capabilities (\<open>kernel\<close>, with the laws \<open>list_laws\<close>), timers,
  \<open>proc_sel\<close> and the rest of \<open>do_fork\<close>, \<open>switch_uid\<close>, \<open>exit_mm\<close>, \<open>exit_fs\<close>, \<open>exit_files\<close>, \<open>NR_syscalls\<close>, the
  tracer and the functions behind the table of system calls. Each hypothesis on them has a witness with a concrete instance.

  \<^bold>\<open>Not modelled.\<close> \<open>ExampleCode/sm.c\<close> with its header, an example of a textbook that nothing uses; the
  Python scripts that make inputs and plot timings; the measured time in the outputs; memory that cannot be
  allocated, and shared memory that cannot be had. Of \<open>entry.S\<close> the traps and the way back through signals and
  rescheduling. Of \<open>sched.h\<close> declarations of functions of other files, fields that no function of the
  repository uses, \<open>d_path\<close>, which only hands its arguments to the directory cache under locks, and
  \<open>task_lock\<close>. Registers and stacks: a context switch changes who runs. Of the functions that the patch changes and that are not
  in the repository (\<open>do_fork\<close>, \<open>release_task\<close>) only the changed lines and their neighbours. Spurious wake-ups
  of condition variables and weakly ordered memory.
\<close>

end
